(* ===== verification/Prelude.thy ===== *)
theory Prelude
  imports Main "HOL-Library.Word" "HOL-Library.AList"
begin

text \<open>
  Shared vocabulary of the development: the machine integers of the program, its exceptions and
  the result type that carries them, the state-and-exception type of the coroutines that talk to a
  socket, and the generic list, map and word lemmas that the components use.
\<close>

unbundle bit_operations_syntax

named_theorems res_simps \<open>evaluation of results and of input/output actions\<close>
named_theorems byte_simps \<open>big-endian and little-endian fields\<close>

section \<open>Machine integers\<close>

type_synonym byte = "8 word"
type_synonym u16 = "16 word"
type_synonym u32 = "32 word"
type_synonym bytes = "byte list"

text \<open>
  A \<open>std::string\<close> of the program is a sequence of bytes; in the model it is a \<open>string\<close>, whose
  characters are exactly the 256 byte values. The two functions below are the
  \<open>reinterpret_cast\<close> between \<open>unsigned char\<close> and \<open>char\<close>.
\<close>

definition chr :: "byte \<Rightarrow> char" where
  "chr b = char_of (unat b)"

definition ord :: "char \<Rightarrow> byte" where
  "ord c = word_of_nat (of_char c)"

lemma of_char_less_256 [simp]: "(of_char c :: nat) < 256"
  using nat_of_char_less_256 [of c] by simp

lemma unat_ord [simp]: "unat (ord c) = of_char c"
  by (simp add: ord_def unat_of_nat take_bit_nat_eq_self_iff flip: take_bit_eq_mod)

lemma chr_ord [simp]: "chr (ord c) = c"
  by (simp add: chr_def)

lemma ord_chr [simp]: "ord (chr b) = b"
proof -
  have "unat b < 256" using unsigned_less [of b] by simp
  then have "of_char (char_of (unat b) :: char) = unat b"
    by (simp add: of_char_of)
  then show ?thesis by (simp add: ord_def chr_def)
qed

lemma chr_comp_ord [simp]: "chr \<circ> ord = id" and ord_comp_chr [simp]: "ord \<circ> chr = id"
  by auto

lemma map_chr_ord [simp]: "map chr (map ord s) = s"
  by (induction s) auto

lemma map_ord_chr [simp]: "map ord (map chr s) = s"
  by (induction s) auto

lemma ord_eq_iff [simp]: "ord c = ord d \<longleftrightarrow> c = d"
  by (metis chr_ord)

lemma chr_eq_iff [simp]: "chr c = chr d \<longleftrightarrow> c = d"
  by (metis ord_chr)

section \<open>Exceptions and results\<close>

text \<open>
  The exceptions the program raises or lets through: \<open>std::runtime_error\<close> with its message,
  \<open>boost::system::system_error\<close> with its code, the two exceptions of \<open>std::stoi\<close>, and a value
  for what C++ leaves undefined (a raw pointer read or written out of its buffer). A function
  that can raise returns \<open>Inl\<close> of the exception or \<open>Inr\<close> of its value.
\<close>

datatype exn =
    RuntimeError string
  | SystemError string
  | InvalidArgument string
  | OutOfRange string
  | Undefined string

type_synonym 'a res = "exn + 'a"

fun bindE :: "'a res \<Rightarrow> ('a \<Rightarrow> 'b res) \<Rightarrow> 'b res" where
  "bindE (Inl e) f = Inl e"
| "bindE (Inr x) f = f x"

lemma bindE_eq_Inr: "bindE r f = Inr y \<longleftrightarrow> (\<exists>x. r = Inr x \<and> f x = Inr y)"
  by (cases r) auto

lemma bindE_eq_Inl: "bindE r f = Inl e \<longleftrightarrow> r = Inl e \<or> (\<exists>x. r = Inr x \<and> f x = Inl e)"
  by (cases r) auto

lemma bindE_assoc: "bindE (bindE r f) g = bindE r (\<lambda>x. bindE (f x) g)"
  by (cases r) auto

lemma bindE_cong [fundef_cong]:
  "r = r' \<Longrightarrow> (\<And>x. r' = Inr x \<Longrightarrow> f x = f' x) \<Longrightarrow> bindE r f = bindE r' f'"
  by (cases r') auto

text \<open>\<open>all_res p r\<close>: whatever \<open>r\<close> returns normally satisfies \<open>p\<close>.\<close>

fun all_res :: "('a \<Rightarrow> bool) \<Rightarrow> 'a res \<Rightarrow> bool" where
  "all_res p (Inl e) = True"
| "all_res p (Inr x) = p x"

fun mapE :: "('a \<Rightarrow> 'b res) \<Rightarrow> 'a list \<Rightarrow> 'b list res" where
  "mapE f [] = Inr []"
| "mapE f (x # xs) = bindE (f x) (\<lambda>y. bindE (mapE f xs) (\<lambda>ys. Inr (y # ys)))"

lemma mapE_eq_Inr: "mapE f xs = Inr ys \<longleftrightarrow> list_all2 (\<lambda>x y. f x = Inr y) xs ys"
  by (induction xs arbitrary: ys) (auto simp: bindE_eq_Inr list_all2_Cons1)

section \<open>Coroutines: a state and an exception\<close>

text \<open>
  A coroutine that works on a connection is a function of the state of the connection. It
  returns its outcome together with the state it leaves, also when it raises: what was written
  before an exception stays written.
\<close>

type_synonym ('s, 'a) io = "'s \<Rightarrow> 'a res \<times> 's"

definition retIO :: "'a \<Rightarrow> ('s, 'a) io" where
  "retIO x = (\<lambda>s. (Inr x, s))"

definition liftE :: "'a res \<Rightarrow> ('s, 'a) io" where
  "liftE r = (\<lambda>s. (r, s))"

definition bindIO :: "('s, 'a) io \<Rightarrow> ('a \<Rightarrow> ('s, 'b) io) \<Rightarrow> ('s, 'b) io" where
  "bindIO m f = (\<lambda>s. case m s of (Inl e, s') \<Rightarrow> (Inl e, s') | (Inr x, s') \<Rightarrow> f x s')"

lemma retIO_apply [res_simps]: "retIO x s = (Inr x, s)"
  by (simp add: retIO_def)

lemma liftE_apply [res_simps]: "liftE r s = (r, s)"
  by (simp add: liftE_def)

lemma bindIO_Inr [res_simps]: "m s = (Inr x, s') \<Longrightarrow> bindIO m f s = f x s'"
  by (simp add: bindIO_def)

lemma bindIO_Inl [res_simps]: "m s = (Inl e, s') \<Longrightarrow> bindIO m f s = (Inl e, s')"
  by (simp add: bindIO_def)

lemma bindIO_ret [res_simps]: "bindIO (retIO x) f = f x"
  by (simp add: bindIO_def retIO_def)

lemma bindIO_InrE:
  assumes "bindIO m f s = (Inr y, s2)"
  obtains x s1 where "m s = (Inr x, s1)" "f x s1 = (Inr y, s2)"
  using assms by (auto simp: bindIO_def split: prod.splits sum.splits)

end
