(* ===== verification/Utils.thy ===== *)
theory Utils
  imports Prelude
begin

text \<open>
  \<open>src/core/utils.cpp\<close>: big-endian fields of a byte buffer (the span versions, which check
  their bounds, and the pointer versions, which do not), hexadecimal digits and UUIDs.
\<close>

section \<open>\<open>require\<close> and the big-endian readers\<close>

definition require :: "bool \<Rightarrow> string \<Rightarrow> unit res" where
  "require ok message = (if ok then Inr () else Inl (RuntimeError message))"

text \<open>The word made of a high and a low byte: \<open>(p[0] << 8) | p[1]\<close>.\<close>

definition be16 :: "byte \<Rightarrow> byte \<Rightarrow> u16" where
  "be16 hi lo = push_bit 8 (ucast hi) OR ucast lo"

definition be32 :: "byte \<Rightarrow> byte \<Rightarrow> byte \<Rightarrow> byte \<Rightarrow> u32" where
  "be32 a b c d = push_bit 24 (ucast a) OR push_bit 16 (ucast b) OR push_bit 8 (ucast c) OR ucast d"

definition read_be16 :: "bytes \<Rightarrow> nat \<Rightarrow> string \<Rightarrow> u16 res" where
  "read_be16 data offset message =
     bindE (require (offset \<le> length data \<and> 2 \<le> length data - offset) message)
       (\<lambda>_. Inr (be16 (data ! offset) (data ! (offset + 1))))"

definition read_be32 :: "bytes \<Rightarrow> nat \<Rightarrow> string \<Rightarrow> u32 res" where
  "read_be32 data offset message =
     bindE (require (offset \<le> length data \<and> 4 \<le> length data - offset) message)
       (\<lambda>_. Inr (be32 (data ! offset) (data ! (offset + 1)) (data ! (offset + 2)) (data ! (offset + 3))))"

definition hi8 :: "u16 \<Rightarrow> byte" where
  "hi8 value = ucast (drop_bit 8 value AND 0xff)"

definition lo8 :: "u16 \<Rightarrow> byte" where
  "lo8 value = ucast (value AND 0xff)"

text \<open>\<open>write_be16(std::vector<unsigned char> &out, std::uint16_t value)\<close>\<close>

definition push_be16 :: "bytes \<Rightarrow> u16 \<Rightarrow> bytes" where
  "push_be16 out value = out @ [hi8 value] @ [lo8 value]"

section \<open>The pointer versions\<close>

text \<open>
  The packet handlers work on a raw buffer through pointers \<open>p = packet + offset\<close>; nothing
  checks a bound. The model keeps the one buffer and the offset, so that the \<open>ip\<close> and \<open>tcp\<close>
  pointers of the code alias as they do there, and makes an access outside the buffer the value
  \<open>Undefined\<close>.
\<close>

definition oob :: exn where
  "oob = Undefined ''access outside the buffer''"

definition peek8 :: "bytes \<Rightarrow> nat \<Rightarrow> byte res" where
  "peek8 buf p = (if p < length buf then Inr (buf ! p) else Inl oob)"

definition poke8 :: "bytes \<Rightarrow> nat \<Rightarrow> byte \<Rightarrow> bytes res" where
  "poke8 buf p v = (if p < length buf then Inr (buf[p := v]) else Inl oob)"

text \<open>The \<open>len\<close> bytes that start at a pointer, as a span or an iterator range reads them.\<close>

definition span_at :: "bytes \<Rightarrow> nat \<Rightarrow> nat \<Rightarrow> bytes res" where
  "span_at buf p len = (if p + len \<le> length buf then Inr (take len (drop p buf)) else Inl oob)"

text \<open>\<open>read_be16(const unsigned char *p)\<close> and \<open>write_be16(unsigned char *p, std::uint16_t)\<close>\<close>

definition peek16 :: "bytes \<Rightarrow> nat \<Rightarrow> u16 res" where
  "peek16 buf p =
     (if p + 1 < length buf then Inr (be16 (buf ! p) (buf ! (p + 1))) else Inl oob)"

definition poke16 :: "bytes \<Rightarrow> nat \<Rightarrow> u16 \<Rightarrow> bytes res" where
  "poke16 buf p v =
     (if p + 1 < length buf then Inr (buf[p := hi8 v, p + 1 := lo8 v]) else Inl oob)"

text \<open>
  \<open>std::memcpy\<close> between a \<open>std::uint32_t\<close> and four bytes of the buffer, on the little-endian
  machines the program is built for (\<open>wintun\<close> runs on Windows only). The value is the one the
  code calls a network-order \<open>u32\<close>: its least significant byte is the first byte of the address.
\<close>

definition le32 :: "byte \<Rightarrow> byte \<Rightarrow> byte \<Rightarrow> byte \<Rightarrow> u32" where
  "le32 b0 b1 b2 b3 = be32 b3 b2 b1 b0"

definition le_byte :: "nat \<Rightarrow> u32 \<Rightarrow> byte" where
  "le_byte i v = ucast (drop_bit (8 * i) v)"

definition load32 :: "bytes \<Rightarrow> nat \<Rightarrow> u32 res" where
  "load32 buf p =
     (if p + 3 < length buf
      then Inr (le32 (buf ! p) (buf ! (p + 1)) (buf ! (p + 2)) (buf ! (p + 3)))
      else Inl oob)"

definition store32 :: "bytes \<Rightarrow> nat \<Rightarrow> u32 \<Rightarrow> bytes res" where
  "store32 buf p v =
     (if p + 3 < length buf
      then Inr (buf[p := le_byte 0 v, p + 1 := le_byte 1 v, p + 2 := le_byte 2 v, p + 3 := le_byte 3 v])
      else Inl oob)"

section \<open>The bytes of a word\<close>

lemma ff_mask: "(0xff :: 'a::len word) = mask 8"
  by (simp add: mask_eq_exp_minus_1)

lemma byte_less: "unat (b :: byte) < 256"
  using unsigned_less [of b] by simp

lemma hi8_be16 [simp, byte_simps]: "hi8 (be16 a b) = a"
  unfolding hi8_def be16_def ff_mask
  by (rule bit_word_eqI) (auto simp add: bit_simps dest: bit_imp_le_length)

lemma lo8_be16 [simp, byte_simps]: "lo8 (be16 a b) = b"
  unfolding lo8_def be16_def ff_mask
  by (rule bit_word_eqI) (auto simp add: bit_simps)

lemma be16_hi_lo [simp, byte_simps]: "be16 (hi8 v) (lo8 v) = v"
  unfolding hi8_def lo8_def be16_def ff_mask
  by (rule bit_word_eqI) (auto simp add: bit_simps)

lemma be16_eq_iff: "be16 a b = be16 c d \<longleftrightarrow> a = c \<and> b = d"
  by (metis hi8_be16 lo8_be16)

lemma unat_be16: "unat (be16 a b) = 256 * unat a + unat b"
proof -
  have "be16 a b = push_bit 8 (ucast a) + (ucast b :: u16)"
    unfolding be16_def
    by (rule disjunctive_add [symmetric]) (auto simp: bit_simps dest: bit_imp_le_length)
  moreover note byte_less [of a] byte_less [of b]
  ultimately show ?thesis
    by (simp add: unat_word_ariths unsigned_push_bit_eq unsigned_ucast_eq push_bit_eq_mult
        take_bit_eq_mod)
qed

lemma unat_be32:
  "unat (be32 a b c d) = ((unat a * 256 + unat b) * 256 + unat c) * 256 + unat d"
proof -
  have eq: "be32 a b c d
      = push_bit 24 (ucast a) + (push_bit 16 (ucast b) + (push_bit 8 (ucast c) + (ucast d :: u32)))"
    unfolding be32_def
    by (subst disjunctive_add, force simp: bit_simps dest: bit_imp_le_length)+ (simp add: or.assoc)
  show ?thesis
    using byte_less [of a] byte_less [of b] byte_less [of c] byte_less [of d]
    unfolding eq
    by (simp add: unat_word_ariths unsigned_push_bit_eq unsigned_ucast_eq push_bit_eq_mult
        take_bit_eq_mod)
qed

lemma unat_hi8: "unat (hi8 v) = unat v div 256"
  and unat_lo8: "unat (lo8 v) = unat v mod 256"
proof -
  have "unat v = 256 * unat (hi8 v) + unat (lo8 v)"
    using unat_be16 [of "hi8 v" "lo8 v"] by simp
  then show "unat (hi8 v) = unat v div 256" and "unat (lo8 v) = unat v mod 256"
    using byte_less [of "lo8 v"] by simp_all
qed

lemma le_byte_le32 [simp, byte_simps]:
  "le_byte 0 (le32 a b c d) = a" "le_byte (Suc 0) (le32 a b c d) = b"
  "le_byte 2 (le32 a b c d) = c" "le_byte 3 (le32 a b c d) = d"
  unfolding le_byte_def le32_def be32_def
  by (rule bit_word_eqI; auto simp add: bit_simps dest: bit_imp_le_length)+

lemma le32_le_byte [simp, byte_simps]:
  "le32 (le_byte 0 v) (le_byte (Suc 0) v) (le_byte 2 v) (le_byte 3 v) = v"
  unfolding le_byte_def le32_def be32_def
proof (rule bit_word_eqI)
  fix n
  assume "n < LENGTH(32)"
  then consider "n < 8" | "8 \<le> n" "n < 16" | "16 \<le> n" "n < 24" | "24 \<le> n" "n < 32"
    by (simp) linarith
  then show "bit (push_bit 24 (ucast (ucast (drop_bit (8 * 3) v) :: byte)) OR
      push_bit 16 (ucast (ucast (drop_bit (8 * 2) v) :: byte)) OR
      push_bit 8 (ucast (ucast (drop_bit (8 * Suc 0) v) :: byte)) OR
      (ucast (ucast (drop_bit (8 * 0) v) :: byte) :: u32)) n = bit v n"
    by cases (auto simp add: bit_simps)
qed

text \<open>\<open>bytes_to_string\<close>\<close>

definition bytes_to_string :: "bytes \<Rightarrow> string" where
  "bytes_to_string buffer = map chr buffer"

lemma bytes_to_string_text [simp]: "bytes_to_string (map ord s) = s" "map ord (bytes_to_string buffer) = buffer"
  by (simp_all add: bytes_to_string_def comp_def)

section \<open>Reading the fields of an encoded buffer\<close>

text \<open>The big-endian bytes of a number, for the encoders of the specifications.\<close>

definition be16_bytes :: "u16 \<Rightarrow> bytes" where
  "be16_bytes v = [hi8 v, lo8 v]"

definition be32_bytes :: "u32 \<Rightarrow> bytes" where
  "be32_bytes v = [le_byte 3 v, le_byte 2 v, le_byte 1 v, le_byte 0 v]"

lemma length_be_bytes [simp]: "length (be16_bytes v) = 2" "length (be32_bytes w) = 4"
  by (simp_all add: be16_bytes_def be32_bytes_def)

lemma be32_le_byte [simp, byte_simps]:
  "be32 (le_byte 3 v) (le_byte 2 v) (le_byte (Suc 0) v) (le_byte 0 v) = v"
  using le32_le_byte [of v] by (simp add: le32_def)

lemma nth_field: "drop off data = xs \<Longrightarrow> k < length xs \<Longrightarrow> data ! (off + k) = xs ! k"
  by (metis drop_all length_greater_0_conv list.size(3) nat_le_linear not_less_zero nth_drop)

lemma field_length: "drop off data = xs \<Longrightarrow> xs \<noteq> [] \<Longrightarrow> length data = off + length xs"
  by (metis drop_all le_add_diff_inverse length_drop nat_le_linear)

lemma read_be16_field [byte_simps]:
  assumes "drop off data = xs" "k + 1 < length xs"
  shows "read_be16 data (off + k) m = Inr (be16 (xs ! k) (xs ! (k + 1)))"
proof -
  have "data ! (off + k) = xs ! k" "data ! (off + (k + 1)) = xs ! (k + 1)"
    using assms(2) by (simp_all only: nth_field [OF assms(1)])
  moreover have "length data = off + length xs"
    using assms(2) by (intro field_length [OF assms(1)]) auto
  ultimately show ?thesis
    using assms(2) by (simp add: read_be16_def require_def add.assoc)
qed

lemma read_be32_field [byte_simps]:
  assumes "drop off data = xs" "k + 3 < length xs"
  shows "read_be32 data (off + k) m
    = Inr (be32 (xs ! k) (xs ! (k + 1)) (xs ! (k + 2)) (xs ! (k + 3)))"
proof -
  have "data ! (off + k) = xs ! k" "data ! (off + (k + 1)) = xs ! (k + 1)"
    "data ! (off + (k + 2)) = xs ! (k + 2)" "data ! (off + (k + 3)) = xs ! (k + 3)"
    using assms(2) by (simp_all only: nth_field [OF assms(1)])
  moreover have "length data = off + length xs"
    using assms(2) by (intro field_length [OF assms(1)]) auto
  ultimately show ?thesis
    using assms(2) by (simp add: read_be32_def require_def add.assoc)
qed

lemma drop_field: "drop off data = xs @ ys \<Longrightarrow> drop (off + length xs) data = ys"
  by (metis add.commute append_eq_conv_conj drop_drop)

text \<open>\<open>at_pos data pos xs\<close>: from \<open>pos\<close> on, the buffer holds \<open>xs\<close>.\<close>

definition at_pos :: "bytes \<Rightarrow> nat \<Rightarrow> bytes \<Rightarrow> bool" where
  "at_pos data pos xs \<longleftrightarrow> pos \<le> length data \<and> drop pos data = xs"

lemma at_pos_0: "at_pos data 0 data"
  by (simp add: at_pos_def)

lemma at_pos_length: "at_pos data pos xs \<Longrightarrow> length data = pos + length xs"
  by (auto simp: at_pos_def)

lemma at_pos_drop: "at_pos data pos xs \<Longrightarrow> drop pos data = xs"
  by (simp add: at_pos_def)

lemma at_pos_append: "at_pos data pos (xs @ ys) \<Longrightarrow> at_pos data (pos + length xs) ys"
  using at_pos_length drop_field at_pos_drop unfolding at_pos_def
  by (metis le_add1 length_append add_le_cancel_left)

lemma at_pos_Cons: "at_pos data pos (x # xs) \<Longrightarrow> at_pos data (pos + 1) xs"
  using at_pos_append [of data pos "[x]" xs] by simp

lemma at_pos_peek8:
  assumes "at_pos data pos (x # xs)"
  shows "peek8 data pos = Inr x"
  using nth_field [OF at_pos_drop [OF assms], of 0] at_pos_length [OF assms] by (simp add: peek8_def)

lemma at_pos_read_be16:
  assumes "at_pos data pos (a # b # xs)"
  shows "read_be16 data pos m = Inr (be16 a b)"
  using read_be16_field [OF at_pos_drop [OF assms], of 0] by simp

lemma at_pos_read_be16_bytes: "at_pos data pos (be16_bytes v @ xs) \<Longrightarrow> read_be16 data pos m = Inr v"
  using at_pos_read_be16 [of data pos "hi8 v" "lo8 v" xs] by (simp add: be16_bytes_def)

lemma at_pos_span:
  assumes "at_pos data pos (xs @ ys)"
  shows "span_at data pos (length xs) = Inr xs"
  using at_pos_length [OF assms] at_pos_drop [OF assms] by (simp add: span_at_def)

end
