(* ===== verification/Cstring.thy ===== *)
theory Cstring
  imports Prelude "HOL-Library.Sublist"
begin

text \<open>
  What the program uses of the C++ standard library on strings: \<open>std::tolower\<close> in the C locale,
  the searches of \<open>std::string\<close> and \<open>std::string_view\<close> (\<open>npos\<close> is \<open>None\<close>), substrings,
  \<open>std::to_string\<close> and \<open>std::format\<close> on unsigned numbers, \<open>std::from_chars\<close> and
  \<open>std::stoi\<close>, with the laws that the components use.
\<close>

named_theorems str_simps \<open>searching and cutting strings\<close>

section \<open>Characters\<close>

definition tolower :: "char \<Rightarrow> char" where
  "tolower c = (if 65 \<le> (of_char c :: nat) \<and> (of_char c :: nat) \<le> 90
     then char_of ((of_char c :: nat) + 32) else c)"

definition isspace :: "char \<Rightarrow> bool" where
  "isspace c \<longleftrightarrow> (of_char c :: nat) = 32 \<or> (9 \<le> (of_char c :: nat) \<and> (of_char c :: nat) \<le> 13)"

lemma of_char_tolower:
  "(of_char (tolower c) :: nat)
     = (if 65 \<le> (of_char c :: nat) \<and> (of_char c :: nat) \<le> 90 then of_char c + 32 else of_char c)"
  by (simp add: tolower_def of_char_of)

lemma char_eq_of_char: "c = d \<longleftrightarrow> (of_char c :: nat) = of_char d"
  by simp

lemma tolower_idem [simp]: "tolower (tolower c) = tolower c"
  unfolding char_eq_of_char by (simp add: of_char_tolower)

lemma tolower_eq_dot [simp]: "tolower c = CHR ''.'' \<longleftrightarrow> c = CHR ''.''"
  unfolding char_eq_of_char by (auto simp: of_char_tolower)

section \<open>Searching\<close>

text \<open>\<open>s.find(c, pos)\<close>, \<open>s.rfind(c)\<close>, \<open>s.find(t, pos)\<close>\<close>

fun index_of :: "'a \<Rightarrow> 'a list \<Rightarrow> nat option" where
  "index_of c [] = None"
| "index_of c (x # xs) = (if x = c then Some 0 else map_option Suc (index_of c xs))"

definition find_char :: "string \<Rightarrow> char \<Rightarrow> nat \<Rightarrow> nat option" where
  "find_char s c pos = map_option ((+) pos) (index_of c (drop pos s))"

definition rfind_char :: "string \<Rightarrow> char \<Rightarrow> nat option" where
  "rfind_char s c = map_option (\<lambda>i. length s - 1 - i) (index_of c (rev s))"

fun index_of_str :: "string \<Rightarrow> string \<Rightarrow> nat option" where
  "index_of_str t [] = (if t = [] then Some 0 else None)"
| "index_of_str t (x # xs) = (if prefix t (x # xs) then Some 0 else map_option Suc (index_of_str t xs))"

definition find_str :: "string \<Rightarrow> string \<Rightarrow> nat \<Rightarrow> nat option" where
  "find_str s t pos =
     (if pos \<le> length s then map_option ((+) pos) (index_of_str t (drop pos s)) else None)"

definition starts_with :: "string \<Rightarrow> string \<Rightarrow> bool" where
  "starts_with s t \<longleftrightarrow> take (length t) s = t"

definition ends_with_std :: "string \<Rightarrow> string \<Rightarrow> bool" where
  "ends_with_std s t \<longleftrightarrow> length t \<le> length s \<and> drop (length s - length t) s = t"

definition contains_str :: "string \<Rightarrow> string \<Rightarrow> bool" where
  "contains_str s t \<longleftrightarrow> find_str s t 0 \<noteq> None"

lemma index_of_None [str_simps]: "index_of c s = None \<longleftrightarrow> c \<notin> set s"
  by (induction s) auto

lemma index_of_Some: "index_of c s = Some i \<longleftrightarrow> i < length s \<and> s ! i = c \<and> c \<notin> set (take i s)"
proof (induction s arbitrary: i)
  case (Cons x xs)
  then show ?case by (cases i) auto
qed simp

lemma index_of_append [str_simps]: "c \<notin> set xs \<Longrightarrow> index_of c (xs @ c # ys) = Some (length xs)"
  by (induction xs) auto

lemma index_of_notin [str_simps]: "c \<notin> set xs \<Longrightarrow> index_of c xs = None"
  by (simp add: index_of_None)

lemma index_of_split:
  "index_of c s = Some i \<Longrightarrow> s = take i s @ c # drop (Suc i) s \<and> c \<notin> set (take i s) \<and> i < length s"
  by (auto simp: index_of_Some id_take_nth_drop [symmetric])

lemma starts_with_prefix: "starts_with s t \<longleftrightarrow> prefix t s"
  by (auto simp: starts_with_def prefix_def) (metis append_take_drop_id)

lemma ends_with_suffix: "ends_with_std s t \<longleftrightarrow> suffix t s"
  by (auto simp: ends_with_std_def suffix_def) (metis append_take_drop_id)

lemma index_of_str_None: "index_of_str t s = None \<longleftrightarrow> \<not> sublist t s"
proof (induction s)
  case (Cons x xs)
  then show ?case by (auto simp: sublist_Cons_right)
qed simp

lemma contains_sublist: "contains_str s t \<longleftrightarrow> sublist t s"
  using index_of_str_None [of t s] by (simp add: contains_str_def find_str_def)

lemma index_of_str_here: "index_of_str t (t @ ys) = Some 0"
  by (cases "t @ ys") (auto intro: prefixI [OF sym])

section \<open>Numbers\<close>

definition digit_char :: "nat \<Rightarrow> char" where
  "digit_char d = char_of (if d < 10 then 48 + d else 87 + d)"

text \<open>\<open>std::to_string\<close> and \<open>std::format("{}")\<close> are radix 10, \<open>std::format("{:x}")\<close> is radix 16.\<close>

function show_radix :: "nat \<Rightarrow> nat \<Rightarrow> string" where
  "show_radix b n =
     (if n < b \<or> b < 2 then [digit_char n] else show_radix b (n div b) @ [digit_char (n mod b)])"
  by pat_completeness auto
termination
  by (relation "measure snd") auto

declare show_radix.simps [simp del]

definition show_dec :: "nat \<Rightarrow> string" where
  "show_dec n = show_radix 10 n"

definition show_hex :: "nat \<Rightarrow> string" where
  "show_hex n = show_radix 16 n"

definition is_digit :: "char \<Rightarrow> bool" where
  "is_digit c \<longleftrightarrow> 48 \<le> (of_char c :: nat) \<and> (of_char c :: nat) \<le> 57"

definition digit_val :: "char \<Rightarrow> nat" where
  "digit_val c = of_char c - 48"

definition dec_val :: "string \<Rightarrow> nat" where
  "dec_val s = foldl (\<lambda>n c. 10 * n + digit_val c) 0 s"

lemma is_digit_digit_char [simp]: "d < 10 \<Longrightarrow> is_digit (digit_char d)"
  by (simp add: is_digit_def digit_char_def of_char_of)

lemma digit_val_digit_char [simp]: "d < 10 \<Longrightarrow> digit_val (digit_char d) = d"
  by (simp add: digit_val_def digit_char_def of_char_of)

lemma show_dec_nonempty [simp]: "show_dec n \<noteq> []"
  unfolding show_dec_def by (subst show_radix.simps) simp

lemma show_dec_digits: "list_all is_digit (show_dec n)"
  unfolding show_dec_def
proof (induction "10 :: nat" n rule: show_radix.induct)
  case (1 n)
  then show ?case by (subst show_radix.simps) auto
qed

lemma dec_val_show_dec [simp]: "dec_val (show_dec n) = n"
  unfolding show_dec_def
proof (induction "10 :: nat" n rule: show_radix.induct)
  case (1 n)
  then show ?case by (subst show_radix.simps) (auto simp: dec_val_def)
qed

text \<open>
  \<open>std::from_chars\<close> into an \<open>unsigned int\<close>: the longest run of digits at the start (no sign, no
  white space); the outcome and the rest of the text after the run.
\<close>

datatype from_chars = Parsed nat | Not_a_number | Too_large

definition from_chars_uint :: "string \<Rightarrow> from_chars \<times> string" where
  "from_chars_uint s =
     (let ds = takeWhile is_digit s; rest = dropWhile is_digit s
      in if ds = [] then (Not_a_number, s)
         else if 2 ^ 32 \<le> dec_val ds then (Too_large, rest)
         else (Parsed (dec_val ds), rest))"

lemma takeWhile_all: "list_all p xs \<Longrightarrow> takeWhile p xs = xs"
  and dropWhile_all: "list_all p xs \<Longrightarrow> dropWhile p xs = []"
  by (induction xs) auto

lemma from_chars_show_dec: "n < 2 ^ 32 \<Longrightarrow> from_chars_uint (show_dec n) = (Parsed n, [])"
  by (simp add: from_chars_uint_def Let_def takeWhile_all dropWhile_all show_dec_digits)

text \<open>
  \<open>std::stoi\<close>: leading white space, an optional sign, the longest run of digits; what follows is
  ignored. It raises \<open>std::invalid_argument\<close> when there is no digit and \<open>std::out_of_range\<close> when
  the value does not fit an \<open>int\<close>.
\<close>

definition stoi :: "string \<Rightarrow> int res" where
  "stoi s =
     (let t = dropWhile isspace s;
          negative = (t \<noteq> [] \<and> hd t = CHR ''-'');
          u = (if t \<noteq> [] \<and> (hd t = CHR ''-'' \<or> hd t = CHR ''+'') then tl t else t);
          ds = takeWhile is_digit u;
          v = (if negative then - int (dec_val ds) else int (dec_val ds))
      in if ds = [] then Inl (InvalidArgument ''stoi'')
         else if v < - (2 ^ 31) \<or> 2 ^ 31 \<le> v then Inl (OutOfRange ''stoi'')
         else Inr v)"

lemma stoi_show_dec: "n < 2 ^ 31 \<Longrightarrow> stoi (show_dec n) = Inr (int n)"
proof -
  assume n: "n < 2 ^ 31"
  obtain c cs where s: "show_dec n = c # cs"
    using show_dec_nonempty by (cases "show_dec n") auto
  with show_dec_digits [of n] have c: "is_digit c" by simp
  then have "\<not> isspace c" and "c \<noteq> CHR ''-''" and "c \<noteq> CHR ''+''"
    by (auto simp: is_digit_def isspace_def)
  moreover have "takeWhile is_digit (c # cs) = c # cs"
    using show_dec_digits [of n] s takeWhile_all by metis
  moreover have "dec_val (c # cs) = n"
    using dec_val_show_dec [of n] s by simp
  ultimately show ?thesis using n s by (simp add: stoi_def Let_def)
qed

section \<open>Splitting at a separator\<close>

fun split_on :: "'a \<Rightarrow> 'a list \<Rightarrow> 'a list list" where
  "split_on c [] = [[]]"
| "split_on c (x # xs) =
     (if x = c then [] # split_on c xs
      else case split_on c xs of [] \<Rightarrow> [[x]] | p # ps \<Rightarrow> (x # p) # ps)"

fun join_with :: "'a \<Rightarrow> 'a list list \<Rightarrow> 'a list" where
  "join_with c [] = []"
| "join_with c [p] = p"
| "join_with c (p # q # ps) = p @ c # join_with c (q # ps)"

lemma split_on_nonempty [simp]: "split_on c s \<noteq> []"
  by (cases s) (auto split: list.splits)

lemma split_on_notin: "c \<notin> set p \<Longrightarrow> split_on c p = [p]"
  by (induction p) auto

lemma split_on_append: "c \<notin> set p \<Longrightarrow> split_on c (p @ c # s) = p # split_on c s"
  by (induction p) auto

lemma split_on_join:
  "ps \<noteq> [] \<Longrightarrow> \<forall>p \<in> set ps. c \<notin> set p \<Longrightarrow> split_on c (join_with c ps) = ps"
  by (induction c ps rule: join_with.induct) (auto simp: split_on_notin split_on_append)

lemma join_split_on: "join_with c (split_on c s) = s"
proof (induction s)
  case (Cons x xs)
  obtain p ps where ps: "split_on c xs = p # ps"
    using split_on_nonempty by (cases "split_on c xs") auto
  with Cons show ?case by (cases ps) auto
qed simp

lemma split_on_parts: "p \<in> set (split_on c s) \<Longrightarrow> c \<notin> set p"
  by (induction s arbitrary: p) (auto split: list.splits if_splits)

lemma split_on_append_sep: "split_on c (p @ c # s) = split_on c p @ split_on c s"
proof (induction p)
  case (Cons y p)
  obtain q qs where "split_on c p = q # qs"
    using split_on_nonempty by (cases "split_on c p") auto
  with Cons show ?case by simp
qed simp

lemma join_with_append:
  "ps \<noteq> [] \<Longrightarrow> qs \<noteq> [] \<Longrightarrow> join_with c (ps @ qs) = join_with c ps @ c # join_with c qs"
proof (induction c ps rule: join_with.induct)
  case (2 c p)
  then show ?case by (cases qs) auto
qed auto

text \<open>A text ends in another one at a separator exactly when its parts end in the parts of the other.\<close>

lemma suffix_split_on:
  "suffix (split_on c t) (split_on c s) \<longleftrightarrow> s = t \<or> suffix (c # t) s"
proof
  assume "suffix (split_on c t) (split_on c s)"
  then obtain ps where ps: "split_on c s = ps @ split_on c t" by (auto simp: suffix_def)
  have "s = join_with c (ps @ split_on c t)" using join_split_on [of c s] ps by simp
  then show "s = t \<or> suffix (c # t) s"
    by (cases "ps = []") (auto simp: join_split_on join_with_append suffix_def)
next
  assume "s = t \<or> suffix (c # t) s"
  then show "suffix (split_on c t) (split_on c s)"
    by (auto simp: suffix_def split_on_append_sep)
qed

lemma split_on_snoc:
  "split_on c (s @ [x]) =
     (if x = c then split_on c s @ [[]]
      else butlast (split_on c s) @ [last (split_on c s) @ [x]])"
proof (induction s)
  case (Cons y s)
  obtain p ps where "split_on c s = p # ps"
    using split_on_nonempty by (cases "split_on c s") auto
  with Cons show ?case by (cases ps) auto
qed simp

lemma last_split_on: "last (split_on c s) = [] \<longleftrightarrow> s = [] \<or> last s = c"
  by (cases s rule: rev_cases) (auto simp: split_on_snoc)

lemma show_radix_chars:
  "2 \<le> b \<Longrightarrow> b \<le> 16 \<Longrightarrow> list_all (\<lambda>c. \<exists>d < b. c = digit_char d) (show_radix b n)"
proof (induction b n rule: show_radix.induct)
  case (1 b n)
  from 1 have "\<exists>d < b. digit_char (n mod b) = digit_char d"
    by (intro exI [of _ "n mod b"]) simp
  with 1 show ?case by (subst show_radix.simps) auto
qed

end
