(* ===== verification/Uuid.thy ===== *)
theory Uuid
  imports Utils Cstring
begin

text \<open>
  The hexadecimal part of \<open>src/core/utils.cpp\<close>: \<open>hex_value\<close> and \<open>parse_uuid\<close>, which turns the
  textual user id of the configuration into the sixteen bytes a VLESS request carries.
\<close>

section \<open>Hexadecimal digits\<close>

definition hex_value :: "char \<Rightarrow> int" where
  "hex_value c =
     (if 48 \<le> (of_char c :: nat) \<and> (of_char c :: nat) \<le> 57 then int (of_char c) - 48
      else
        let l = tolower c
        in if 97 \<le> (of_char l :: nat) \<and> (of_char l :: nat) \<le> 102
           then int (of_char l) - 97 + 10
           else -1)"

section \<open>\<open>parse_uuid\<close>\<close>

text \<open>The first loop: dashes are skipped, any other character must be a hexadecimal digit.\<close>

fun uuid_hex :: "string \<Rightarrow> string \<Rightarrow> string res" where
  "uuid_hex [] hex = Inr hex"
| "uuid_hex (c # cs) hex =
     (if c = CHR ''-'' then uuid_hex cs hex
      else bindE (require (0 \<le> hex_value c) ''invalid uuid character'')
             (\<lambda>_. uuid_hex cs (hex @ [c])))"

text \<open>The second loop: byte \<open>i\<close> is made of the digits \<open>2 * i\<close> and \<open>2 * i + 1\<close>.\<close>

definition uuid_byte :: "string \<Rightarrow> nat \<Rightarrow> byte" where
  "uuid_byte hex i =
     (let hi = hex_value (hex ! (i * 2)); lo = hex_value (hex ! (i * 2 + 1))
      in word_of_int (push_bit 4 hi OR lo))"

definition parse_uuid :: "string \<Rightarrow> bytes res" where
  "parse_uuid uuid =
     bindE (uuid_hex uuid []) (\<lambda>hex.
     bindE (require (length hex = 32) ''uuid must contain 32 hex digits'') (\<lambda>_.
     Inr (map (uuid_byte hex) [0..<16])))"

section \<open>What it accepts\<close>

definition is_hex :: "char \<Rightarrow> bool" where
  "is_hex c \<longleftrightarrow> 0 \<le> hex_value c"

lemma hex_value_range: "is_hex c \<Longrightarrow> 0 \<le> hex_value c \<and> hex_value c < 16"
  by (auto simp: is_hex_def hex_value_def Let_def split: if_splits)

lemma uuid_hex_eq:
  "uuid_hex s hex =
     (if list_all (\<lambda>c. c = CHR ''-'' \<or> is_hex c) s
      then Inr (hex @ filter (\<lambda>c. c \<noteq> CHR ''-'') s)
      else Inl (RuntimeError ''invalid uuid character''))"
  by (induction s arbitrary: hex) (auto simp: require_def is_hex_def)

lemma parse_uuid_eq:
  "parse_uuid s =
     (if \<not> list_all (\<lambda>c. c = CHR ''-'' \<or> is_hex c) s
      then Inl (RuntimeError ''invalid uuid character'')
      else if length (filter (\<lambda>c. c \<noteq> CHR ''-'') s) \<noteq> 32
      then Inl (RuntimeError ''uuid must contain 32 hex digits'')
      else Inr (map (uuid_byte (filter (\<lambda>c. c \<noteq> CHR ''-'') s)) [0..<16]))"
  by (simp add: parse_uuid_def uuid_hex_eq require_def)

lemma parse_uuid_length: "parse_uuid s = Inr bs \<Longrightarrow> length bs = 16"
  by (auto simp: parse_uuid_eq split: if_splits)

section \<open>The textual form\<close>

text \<open>
  The canonical text of sixteen bytes: two lower-case digits per byte, dashes after bytes 4, 6, 8
  and 10 (RFC 9562). This is specification: the program only parses.
\<close>

definition hex_byte :: "byte \<Rightarrow> string" where
  "hex_byte b = [digit_char (unat b div 16), digit_char (unat b mod 16)]"

definition hex_bytes :: "bytes \<Rightarrow> string" where
  "hex_bytes bs = concat (map hex_byte bs)"

definition uuid_text :: "bytes \<Rightarrow> string" where
  "uuid_text bs =
     hex_bytes (take 4 bs) @ ''-'' @ hex_bytes (take 2 (drop 4 bs)) @ ''-'' @
     hex_bytes (take 2 (drop 6 bs)) @ ''-'' @ hex_bytes (take 2 (drop 8 bs)) @ ''-'' @
     hex_bytes (drop 10 bs)"

lemma hex_value_digit: "d < 16 \<Longrightarrow> hex_value (digit_char d) = int d"
  by (auto simp: hex_value_def digit_char_def tolower_def of_char_of Let_def)

lemma is_hex_digit: "d < 16 \<Longrightarrow> is_hex (digit_char d)"
  by (simp add: is_hex_def hex_value_digit)

lemma digit_not_dash: "d < 16 \<Longrightarrow> digit_char d \<noteq> CHR ''-''"
  unfolding char_eq_of_char by (auto simp: digit_char_def of_char_of)

lemma list_all_hex_bytes: "list_all is_hex (hex_bytes bs)"
  using byte_less by (induction bs) (auto simp: hex_bytes_def hex_byte_def is_hex_digit less_mult_imp_div_less)

lemma filter_hex_bytes: "filter (\<lambda>c. c \<noteq> CHR ''-'') (hex_bytes bs) = hex_bytes bs"
  using byte_less
  by (induction bs) (auto simp: hex_bytes_def hex_byte_def digit_not_dash less_mult_imp_div_less)

lemma length_hex_bytes [simp]: "length (hex_bytes bs) = 2 * length bs"
  by (induction bs) (auto simp: hex_bytes_def hex_byte_def)

lemma hex_bytes_append: "hex_bytes (xs @ ys) = hex_bytes xs @ hex_bytes ys"
  by (simp add: hex_bytes_def)

lemma nibbles: "word_of_int (push_bit 4 (int (unat (b :: byte) div 16)) OR int (unat b mod 16)) = b"
proof -
  have "push_bit 4 (int (unat b div 16)) OR int (unat b mod 16)
      = push_bit 4 (drop_bit 4 (int (unat b))) OR take_bit 4 (int (unat b))"
    by (simp add: drop_bit_eq_div take_bit_eq_mod zdiv_int zmod_int)
  also have "\<dots> = int (unat b)"
    by (rule bit_eqI) (auto simp: bit_simps)
  finally show ?thesis by simp
qed

lemma nth_hex_bytes:
  "i < length bs \<Longrightarrow> hex_bytes bs ! (i * 2) = digit_char (unat (bs ! i) div 16)
     \<and> hex_bytes bs ! (i * 2 + 1) = digit_char (unat (bs ! i) mod 16)"
proof (induction bs arbitrary: i)
  case (Cons b bs)
  then show ?case by (cases i) (auto simp: hex_bytes_def hex_byte_def)
qed simp

lemma uuid_byte_hex_bytes: "i < length bs \<Longrightarrow> uuid_byte (hex_bytes bs) i = bs ! i"
  using nth_hex_bytes [of i bs] byte_less [of "bs ! i"]
  by (simp add: uuid_byte_def Let_def hex_value_digit less_mult_imp_div_less nibbles del: mult_Suc_right)

lemma take_drop_split: "take n (drop m xs) @ drop (m + n) xs = drop m xs"
  by (metis add.commute append_take_drop_id drop_drop)

lemma filter_uuid_text: "filter (\<lambda>c. c \<noteq> CHR ''-'') (uuid_text bs) = hex_bytes bs"
proof -
  have "take 2 (drop 8 bs) @ drop 10 bs = drop 8 bs" "take 2 (drop 6 bs) @ drop 8 bs = drop 6 bs"
    "take 2 (drop 4 bs) @ drop 6 bs = drop 4 bs"
    using take_drop_split [of 2 8 bs] take_drop_split [of 2 6 bs] take_drop_split [of 2 4 bs]
    by simp_all
  then show ?thesis
    by (simp add: uuid_text_def filter_hex_bytes flip: hex_bytes_append)
qed

text \<open>
  C25: the user id of the configuration round-trips: the canonical text of any sixteen bytes is
  accepted and parsed back to exactly these bytes.
\<close>

theorem parse_uuid_text: "length bs = 16 \<Longrightarrow> parse_uuid (uuid_text bs) = Inr bs"
proof -
  assume len: "length bs = 16"
  have "list_all (\<lambda>c. c = CHR ''-'' \<or> is_hex c) (uuid_text bs)"
    using list_all_hex_bytes by (auto simp: uuid_text_def list_all_iff)
  moreover have "map (uuid_byte (hex_bytes bs)) [0..<16] = bs"
    using len by (intro nth_equalityI) (auto simp: uuid_byte_hex_bytes)
  ultimately show ?thesis
    using len by (simp add: parse_uuid_eq filter_uuid_text)
qed

definition demo_uuid :: bytes where
  "demo_uuid = [0x55, 0x0e, 0x84, 0x00, 0xe2, 0x9b, 0x41, 0xd4, 0xa7, 0x16, 0x44, 0x66, 0x55, 0x44, 0x00, 0xff]"

theorem parse_uuid_text_witness:
  "uuid_text demo_uuid = ''550e8400-e29b-41d4-a716-4466554400ff'' \<and>
   parse_uuid ''550e8400-e29b-41d4-a716-4466554400ff'' = Inr demo_uuid"
proof -
  have "uuid_text demo_uuid = ''550e8400-e29b-41d4-a716-4466554400ff''"
    by code_simp
  moreover have "length demo_uuid = 16"
    by (simp add: demo_uuid_def)
  ultimately show ?thesis
    using parse_uuid_text [of demo_uuid] by simp
qed

end
