(* ===== verification/Address.thy ===== *)
theory Address
  imports Utils Cstring
begin

text \<open>
  \<open>src/core/address.hpp\<close>, \<open>address.cpp\<close> and \<open>session.hpp\<close>: IP addresses, domain names, hosts
  and destinations. The textual forms of addresses are Boost.Asio's; they are the parameter
  \<open>asio_ip\<close> of every definition that parses or prints an address.
\<close>

section \<open>Boost.Asio's addresses\<close>

text \<open>
  The value of an \<open>ip::address_v4\<close> is its four bytes, here the number whose most significant
  byte is the first one (\<open>to_uint\<close>); that of an \<open>ip::address_v6\<close> is its sixteen bytes and a
  scope id. \<open>to_bytes\<close> lists the bytes in network order.
\<close>

type_synonym address_v4 = u32

record address_v6 =
  v6_bits :: "128 word"
  v6_scope :: u32

datatype address = V4 address_v4 | V6 address_v6

definition v4_to_bytes :: "address_v4 \<Rightarrow> bytes" where
  "v4_to_bytes a = map (\<lambda>i. ucast (drop_bit (24 - 8 * i) a)) [0..<4]"

definition v4_of_bytes :: "bytes \<Rightarrow> address_v4" where
  "v4_of_bytes bs = be32 (bs ! 0) (bs ! 1) (bs ! 2) (bs ! 3)"

definition v6_to_bytes :: "address_v6 \<Rightarrow> bytes" where
  "v6_to_bytes a = map (\<lambda>i. ucast (drop_bit (120 - 8 * i) (v6_bits a))) [0..<16]"

definition v6_of_bytes :: "bytes \<Rightarrow> address_v6" where
  "v6_of_bytes bs =
     \<lparr>v6_bits = foldl (\<lambda>w b. push_bit 8 w OR ucast b) 0 (take 16 bs), v6_scope = 0\<rparr>"

text \<open>
  The textual part: the overloads of \<open>make_address\<close> that report failure through an error code
  (\<open>None\<close>), and \<open>to_string\<close>.
\<close>

record asio_ip =
  make_address_v4 :: "string \<Rightarrow> address_v4 option"
  make_address_v6 :: "string \<Rightarrow> address_v6 option"
  make_address :: "string \<Rightarrow> address option"
  v4_to_string :: "address_v4 \<Rightarrow> string"
  v6_to_string :: "address_v6 \<Rightarrow> string"

text \<open>
  What the program relies on, as documented: printing and parsing an address are inverse (for a
  global address, without a scope), the two families have disjoint textual forms, and the
  family-independent parser accepts exactly the texts of the two families.
\<close>

definition asio_text :: "asio_ip \<Rightarrow> bool" where
  "asio_text I \<longleftrightarrow>
     (\<forall>a. make_address_v4 I (v4_to_string I a) = Some a) \<and>
     (\<forall>a. v6_scope a = 0 \<longrightarrow> make_address_v6 I (v6_to_string I a) = Some a) \<and>
     (\<forall>t. make_address_v4 I t \<noteq> None \<longrightarrow> make_address_v6 I t = None) \<and>
     (\<forall>t. make_address I t =
        (case make_address_v6 I t of Some a \<Rightarrow> Some (V6 a)
         | None \<Rightarrow> map_option V4 (make_address_v4 I t)))"

section \<open>Hosts\<close>

datatype host_kind = HT_IPv4 | HT_IPv6 | HT_Domain

text \<open>\<open>using Value = std::variant<IPv4Address, IPv6Address, DomainName>\<close>\<close>

datatype host =
    IPv4Address address_v4
  | IPv6Address address_v6
  | DomainName string

record destination =
  dst_host :: host
  dst_port :: u16

record session =
  ses_destination :: destination
  ses_initial_payload :: bytes

definition is_ip_literal :: "asio_ip \<Rightarrow> string \<Rightarrow> bool" where
  "is_ip_literal I text \<longleftrightarrow> make_address I text \<noteq> None"

definition ipv4_is_valid :: "asio_ip \<Rightarrow> string \<Rightarrow> bool" where
  "ipv4_is_valid I text \<longleftrightarrow> make_address_v4 I text \<noteq> None"

definition ipv4_parse :: "asio_ip \<Rightarrow> string \<Rightarrow> address_v4 res" where
  "ipv4_parse I text =
     (case make_address_v4 I text of
        None \<Rightarrow> Inl (RuntimeError (''invalid IPv4 address: '' @ text))
      | Some value \<Rightarrow> Inr value)"

definition ipv6_is_valid :: "asio_ip \<Rightarrow> string \<Rightarrow> bool" where
  "ipv6_is_valid I text \<longleftrightarrow> make_address_v6 I text \<noteq> None"

definition ipv6_parse :: "asio_ip \<Rightarrow> string \<Rightarrow> address_v6 res" where
  "ipv6_parse I text =
     (case make_address_v6 I text of
        None \<Rightarrow> Inl (RuntimeError (''invalid IPv6 address: '' @ text))
      | Some value \<Rightarrow> Inr value)"

text \<open>The constructor \<open>DomainName::DomainName(std::string)\<close>\<close>

definition domain_name :: "string \<Rightarrow> host res" where
  "domain_name v =
     (if v = [] then Inl (RuntimeError ''domain must not be empty'')
      else if 255 < length v then Inl (RuntimeError (''domain too long: '' @ v))
      else Inr (DomainName v))"

definition host_parse :: "asio_ip \<Rightarrow> string \<Rightarrow> host res" where
  "host_parse I text =
     (if ipv4_is_valid I text then bindE (ipv4_parse I text) (\<lambda>a. Inr (IPv4Address a))
      else if ipv6_is_valid I text then bindE (ipv6_parse I text) (\<lambda>a. Inr (IPv6Address a))
      else domain_name text)"

definition host_ipv4 :: "asio_ip \<Rightarrow> string \<Rightarrow> host res" where
  "host_ipv4 I text = bindE (ipv4_parse I text) (\<lambda>a. Inr (IPv4Address a))"

definition host_ipv6 :: "asio_ip \<Rightarrow> string \<Rightarrow> host res" where
  "host_ipv6 I text = bindE (ipv6_parse I text) (\<lambda>a. Inr (IPv6Address a))"

definition host_domain :: "string \<Rightarrow> host res" where
  "host_domain text = domain_name text"

fun host_type :: "host \<Rightarrow> host_kind" where
  "host_type (IPv4Address _) = HT_IPv4"
| "host_type (IPv6Address _) = HT_IPv6"
| "host_type (DomainName _) = HT_Domain"

definition host_is_ip :: "host \<Rightarrow> bool" where
  "host_is_ip h \<longleftrightarrow> host_type h = HT_IPv4 \<or> host_type h = HT_IPv6"

definition host_is_domain :: "host \<Rightarrow> bool" where
  "host_is_domain h \<longleftrightarrow> host_type h = HT_Domain"

fun host_to_string :: "asio_ip \<Rightarrow> host \<Rightarrow> string" where
  "host_to_string I (IPv4Address a) = v4_to_string I a"
| "host_to_string I (IPv6Address a) = v6_to_string I a"
| "host_to_string I (DomainName d) = d"

fun host_asio_address :: "host \<Rightarrow> address res" where
  "host_asio_address (IPv4Address a) = Inr (V4 a)"
| "host_asio_address (IPv6Address a) = Inr (V6 a)"
| "host_asio_address (DomainName d) =
     Inl (RuntimeError ''domain has no asio address before DNS resolve'')"

fun host_domain_value :: "host \<Rightarrow> string res" where
  "host_domain_value (DomainName d) = Inr d"
| "host_domain_value _ = Inl (RuntimeError ''host is not domain'')"

definition destination_to_string :: "asio_ip \<Rightarrow> destination \<Rightarrow> string" where
  "destination_to_string I d =
     host_to_string I (dst_host d) @ '':'' @ show_dec (unat (dst_port d))"

section \<open>Network-order numbers\<close>

text \<open>
  The throwing overload of \<open>ip::make_address_v4\<close> raises a \<open>system_error\<close>. The number is filled by
  \<open>memcpy\<close> from the bytes in network order, so on a little-endian machine its least significant
  byte is the first byte of the address.
\<close>

definition make_address_v4_throw :: "asio_ip \<Rightarrow> string \<Rightarrow> address_v4 res" where
  "make_address_v4_throw I text =
     (case make_address_v4 I text of
        None \<Rightarrow> Inl (SystemError ''make_address_v4'') | Some a \<Rightarrow> Inr a)"

definition ipv4_to_net_order_u32 :: "asio_ip \<Rightarrow> string \<Rightarrow> u32 res" where
  "ipv4_to_net_order_u32 I text =
     bindE (make_address_v4_throw I text) (\<lambda>addr.
       let b = v4_to_bytes addr in Inr (le32 (b ! 0) (b ! 1) (b ! 2) (b ! 3)))"

definition address_v4_from_net_order_u32 :: "u32 \<Rightarrow> address_v4" where
  "address_v4_from_net_order_u32 value = v4_of_bytes (map (\<lambda>i. le_byte i value) [0..<4])"

section \<open>Well-formed hosts\<close>

text \<open>The invariant of class \<open>DomainName\<close>, which its constructor establishes.\<close>

fun wf_host :: "host \<Rightarrow> bool" where
  "wf_host (DomainName d) \<longleftrightarrow> d \<noteq> [] \<and> length d \<le> 255"
| "wf_host _ \<longleftrightarrow> True"

lemma domain_name_eq_Inr:
  "domain_name v = Inr h \<longleftrightarrow> h = DomainName v \<and> v \<noteq> [] \<and> length v \<le> 255"
  by (auto simp: domain_name_def)

lemma host_parse_eq:
  "host_parse I text =
     (case make_address_v4 I text of
        Some a \<Rightarrow> Inr (IPv4Address a)
      | None \<Rightarrow> (case make_address_v6 I text of
          Some a \<Rightarrow> Inr (IPv6Address a)
        | None \<Rightarrow> domain_name text))"
  by (simp add: host_parse_def ipv4_is_valid_def ipv6_is_valid_def ipv4_parse_def ipv6_parse_def
      split: option.split)

lemma host_parse_wf: "host_parse I text = Inr h \<Longrightarrow> wf_host h"
  by (auto simp: host_parse_eq domain_name_eq_Inr split: option.splits)

lemma host_parse_total: "text \<noteq> [] \<Longrightarrow> length text \<le> 255 \<Longrightarrow> \<exists>h. host_parse I text = Inr h"
  by (auto simp: host_parse_eq domain_name_def split: option.split)

lemma v4_bytes_list: "v4_to_bytes a =
   [ucast (drop_bit 24 a), ucast (drop_bit 16 a), ucast (drop_bit 8 a), ucast a]"
  by (simp add: v4_to_bytes_def upt_rec)

lemma length_v4_to_bytes [simp]: "length (v4_to_bytes a) = 4"
  by (simp add: v4_to_bytes_def)

lemma length_v6_to_bytes [simp]: "length (v6_to_bytes a) = 16"
  by (simp add: v6_to_bytes_def)

lemma foldl_bytes:
  fixes w :: "'a::len word"
  shows
  "foldl (\<lambda>w b. push_bit 8 w OR ucast b) (0 :: 'a word) (map (\<lambda>i. ucast (drop_bit (8 * n - 8 - 8 * i) w) :: byte) [0..<n])
     = take_bit (8 * n) w"
proof (induction n arbitrary: w)
  case (Suc n)
  have "map (\<lambda>i. ucast (drop_bit (8 * Suc n - 8 - 8 * i) w) :: byte) [0..<n]
      = map (\<lambda>i. ucast (drop_bit (8 * n - 8 - 8 * i) (drop_bit 8 w))) [0..<n]"
  proof (rule map_cong [OF refl])
    fix i assume "i \<in> set [0..<n]"
    then have "8 * Suc n - 8 - 8 * i = (8 * n - 8 - 8 * i) + 8" by auto
    then show "ucast (drop_bit (8 * Suc n - 8 - 8 * i) w) = (ucast (drop_bit (8 * n - 8 - 8 * i) (drop_bit 8 w)) :: byte)"
      by (simp only: drop_bit_drop_bit)
  qed
  moreover have "foldl (\<lambda>w b. push_bit 8 w OR ucast b) (0 :: 'a word) (map (\<lambda>i. ucast (drop_bit (8 * Suc n - 8 - 8 * i) w) :: byte) [0..<Suc n])
      = push_bit 8 (foldl (\<lambda>w b. push_bit 8 w OR ucast b) (0 :: 'a word) (map (\<lambda>i. ucast (drop_bit (8 * Suc n - 8 - 8 * i) w) :: byte) [0..<n]))
        OR ucast (ucast w :: byte)" by simp
  ultimately have "foldl (\<lambda>w b. push_bit 8 w OR ucast b) (0 :: 'a word) (map (\<lambda>i. ucast (drop_bit (8 * Suc n - 8 - 8 * i) w) :: byte) [0..<Suc n])
      = push_bit 8 (take_bit (8 * n) (drop_bit 8 w)) OR ucast (ucast w :: byte)"
    by (simp only: Suc.IH [of "drop_bit 8 w"])
  also have "\<dots> = take_bit (8 * Suc n) w"
    by (rule bit_word_eqI) (auto simp: bit_simps)
  finally show ?case .
qed simp

lemma v6_of_to_bytes [simp]: "v6_of_bytes (v6_to_bytes a) = a\<lparr>v6_scope := 0\<rparr>"
proof -
  have "take_bit 128 (v6_bits a) = v6_bits a"
    by (simp add: take_bit_word_eq_self)
  then show ?thesis
    using foldl_bytes [of 16 "v6_bits a"] by (simp add: v6_of_bytes_def v6_to_bytes_def)
qed

lemma bytes_foldl:
  assumes "8 * length bs \<le> LENGTH('a::len)"
  shows "map (\<lambda>i. ucast (drop_bit (8 * length bs - 8 - 8 * i)
      (foldl (\<lambda>w b. push_bit 8 w OR ucast b) (0 :: 'a word) bs)) :: byte) [0..<length bs] = bs"
  using assms
proof (induction bs rule: rev_induct)
  case (snoc b bs)
  let ?n = "length bs" and ?W = "foldl (\<lambda>w b. push_bit 8 w OR ucast b) (0 :: 'a word) bs"
  have len: "8 * ?n + 8 \<le> LENGTH('a)" using snoc.prems by simp
  have step: "(ucast (drop_bit (8 * Suc ?n - 8 - 8 * i) (push_bit 8 ?W OR ucast b)) :: byte) = ucast (drop_bit (8 * ?n - 8 - 8 * i) ?W)"
    if "i < ?n" for i
  proof (rule bit_word_eqI)
    fix j assume "j < LENGTH(8)"
    then have j: "j < 8" by simp
    define k where "k = 8 * ?n - 8 - 8 * i"
    have n: "8 * ?n = k + 8 + 8 * i" using that unfolding k_def by simp
    have k8: "8 * Suc ?n - 8 - 8 * i = k + 8" using n by simp
    have "\<not> bit b (k + 8 + j)" by (simp add: impossible_bit)
    moreover have "k + 8 + j < LENGTH('a)" using n len j by linarith
    ultimately show "bit (ucast (drop_bit (8 * Suc ?n - 8 - 8 * i) (push_bit 8 ?W OR ucast b)) :: byte) j
        = bit (ucast (drop_bit (8 * ?n - 8 - 8 * i) ?W) :: byte) j"
      unfolding k8 k_def [symmetric] using j by (simp add: bit_simps)
  qed
  have "map (\<lambda>i. ucast (drop_bit (8 * Suc ?n - 8 - 8 * i) (push_bit 8 ?W OR ucast b)) :: byte) [0..<?n]
      = map (\<lambda>i. ucast (drop_bit (8 * ?n - 8 - 8 * i) ?W)) [0..<?n]"
    by (intro map_cong refl) (simp only: step set_upt atLeastLessThan_iff)
  moreover have "(ucast (push_bit 8 ?W OR ucast b) :: byte) = b"
    using len by (intro bit_word_eqI) (simp add: bit_simps)
  ultimately have "map (\<lambda>i. ucast (drop_bit (8 * Suc ?n - 8 - 8 * i) (push_bit 8 ?W OR ucast b)) :: byte) [0..<?n] @ [ucast (push_bit 8 ?W OR ucast b)]
      = bs @ [b]"
    using snoc.IH len by (simp only:)
  then show ?case by simp
qed simp

lemma v6_to_of_bytes [simp]: "length bs = 16 \<Longrightarrow> v6_to_bytes (v6_of_bytes bs) = bs"
  using bytes_foldl [of bs, where ?'a = 128] by (simp add: v6_to_bytes_def v6_of_bytes_def)

lemma le_byte_alt: "le_byte 0 v = ucast v" "le_byte (Suc 0) v = ucast (drop_bit 8 v)"
  "le_byte 2 v = ucast (drop_bit 16 v)" "le_byte 3 v = ucast (drop_bit 24 v)"
  by (simp_all add: le_byte_def)

lemma v4_of_to_bytes [simp]: "v4_of_bytes (v4_to_bytes a) = a"
  using le32_le_byte [of a] by (simp add: v4_of_bytes_def v4_bytes_list le32_def le_byte_alt)

lemma v4_to_of_bytes [simp]: "length bs = 4 \<Longrightarrow> v4_to_bytes (v4_of_bytes bs) = bs"
proof -
  assume "length bs = 4"
  then obtain a b c d where bs: "bs = [a, b, c, d]"
    by (auto simp: length_Suc_conv eval_nat_numeral)
  show ?thesis
    using le_byte_le32 [of d c b a] by (simp add: bs v4_of_bytes_def v4_bytes_list le32_def le_byte_alt)
qed

lemma net_order_inverse [simp]:
  "le32 (v4_to_bytes (address_v4_from_net_order_u32 v) ! 0) (v4_to_bytes (address_v4_from_net_order_u32 v) ! 1)
     (v4_to_bytes (address_v4_from_net_order_u32 v) ! 2) (v4_to_bytes (address_v4_from_net_order_u32 v) ! 3) = v"
  by (simp add: address_v4_from_net_order_u32_def upt_rec flip: numeral_2_eq_2 numeral_3_eq_3)

end
