(* ===== verification/Tun_Nat.thy ===== *)
theory Tun_Nat
  imports Prelude
begin

text \<open>
  \<open>src/inbound/tun_nat.hpp\<close> and \<open>tun_nat.cpp\<close>: the table that gives every flow seen on the
  tunnel a port of the local relay, and finds the flow of a port again. One mutex guards every
  operation, so an operation is one step on the record below. The two hash maps are association
  lists (\<open>find\<close> is \<open>map_of\<close>, \<open>operator[]\<close> is \<open>AList.update\<close>, \<open>erase\<close> is
  \<open>AList.delete\<close>, \<open>size\<close> is the length), the deque of recent use is a list.
\<close>

named_theorems nat_simps \<open>unfolding the operations of the table\<close>

section \<open>State\<close>

record flow_key =
  fk_src_ip :: u32
  fk_src_port :: u16
  fk_dst_ip :: u32
  fk_dst_port :: u16

record nat_lookup_result =
  lr_nat_port :: u16
  lr_evicted_nat_port :: "u16 option"

record tun_nat =
  next_port :: u16
  max_sessions :: nat
  forward :: "(flow_key \<times> u16) list"
  reverse :: "(u16 \<times> flow_key) list"
  lru :: "u16 list"

definition nat_init :: "nat \<Rightarrow> tun_nat" where
  "nat_init limit = \<lparr>next_port = 10000, max_sessions = limit, forward = [], reverse = [], lru = []\<rparr>"

section \<open>Operations\<close>

definition touch_locked :: "u16 \<Rightarrow> tun_nat \<Rightarrow> tun_nat" where
  "touch_locked p n =
     (let l = (if p \<in> set (lru n) then remove1 p (lru n) else lru n)
      in n\<lparr>lru := l @ [p]\<rparr>)"

text \<open>The loop of \<open>evict_one_locked\<close> pops the deque from the front.\<close>

fun evict_loop :: "u16 list \<Rightarrow> tun_nat \<Rightarrow> u16 option \<times> tun_nat" where
  "evict_loop [] n = (None, n\<lparr>lru := []\<rparr>)"
| "evict_loop (p # rest) n =
     (case map_of (reverse n) p of
        None \<Rightarrow> evict_loop rest n
      | Some key \<Rightarrow>
          (Some p, n\<lparr>lru := rest, forward := AList.delete key (forward n),
                     reverse := AList.delete p (reverse n)\<rparr>))"

definition evict_one_locked :: "tun_nat \<Rightarrow> u16 option \<times> tun_nat" where
  "evict_one_locked n = evict_loop (lru n) n"

text \<open>
  The loop of \<open>allocate_port_locked\<close> looks for the next port that is not in use. It skips 0 and
  restarts at 10000 there. It has no other exit, so it may not return: \<open>None\<close>. The result is the
  port and the new \<open>next_port_\<close>.
\<close>

partial_function (option) allocate_port :: "(u16 \<times> flow_key) list \<Rightarrow> u16 \<Rightarrow> (u16 \<times> u16) option" where
  "allocate_port tab nx =
     (if nx = 0 then allocate_port tab 10000
      else if map_of tab nx = None then Some (nx, nx + 1)
      else allocate_port tab (nx + 1))"

text \<open>A full table makes room by evicting one entry before a new one is added.\<close>

definition make_room :: "tun_nat \<Rightarrow> u16 option \<times> tun_nat" where
  "make_room n =
     (if max_sessions n \<noteq> 0 \<and> max_sessions n \<le> length (reverse n)
      then evict_one_locked n else (None, n))"

definition lookup_or_create :: "tun_nat \<Rightarrow> flow_key \<Rightarrow> (nat_lookup_result \<times> tun_nat) option" where
  "lookup_or_create n key =
     (case map_of (forward n) key of
        Some p \<Rightarrow> Some (\<lparr>lr_nat_port = p, lr_evicted_nat_port = None\<rparr>, touch_locked p n)
      | None \<Rightarrow>
          let (evicted, n1) = make_room n
          in case allocate_port (reverse n1) (next_port n1) of
               None \<Rightarrow> None
             | Some (p, nx) \<Rightarrow>
                 Some (\<lparr>lr_nat_port = p, lr_evicted_nat_port = evicted\<rparr>,
                   touch_locked p (n1\<lparr>next_port := nx,
                     forward := AList.update key p (forward n1),
                     reverse := AList.update p key (reverse n1)\<rparr>)))"

definition nat_erase :: "u16 \<Rightarrow> tun_nat \<Rightarrow> tun_nat" where
  "nat_erase p n =
     (case map_of (reverse n) p of
        None \<Rightarrow> n
      | Some key \<Rightarrow>
          let n1 = n\<lparr>forward := AList.delete key (forward n), reverse := AList.delete p (reverse n)\<rparr>
          in if p \<in> set (lru n1) then n1\<lparr>lru := remove1 p (lru n1)\<rparr> else n1)"

definition lookup_back :: "tun_nat \<Rightarrow> u16 \<Rightarrow> flow_key option" where
  "lookup_back n p = map_of (reverse n) p"

section \<open>The search for a port\<close>

definition usable :: "u16 \<Rightarrow> bool" where
  "usable p \<longleftrightarrow> 10000 \<le> unat p"

lemma usable_nonzero: "usable p \<Longrightarrow> p \<noteq> 0"
  by (auto simp: usable_def)

lemma unat_Suc_u16: "unat p < 65535 \<Longrightarrow> unat (p + 1 :: u16) = Suc (unat p)"
  by (simp add: unat_word_ariths)

lemma Suc_u16_cases: "p + 1 = (0 :: u16) \<or> unat (p + 1) = Suc (unat p)"
proof (cases "unat p < 65535")
  case False
  then have "unat p = 65535" using unsigned_less [of p, where ?'a = nat] by simp
  then have "unat (p + 1) = 0" by (simp add: unat_word_ariths)
  then show ?thesis by (simp add: unat_eq_zero)
qed (simp add: unat_Suc_u16)

text \<open>A search that returns gives a free port, and goes on from the port after it.\<close>

lemma allocate_port_sound:
  assumes "allocate_port tab nx = Some (p, nx')"
  shows "p \<noteq> 0 \<and> map_of tab p = None \<and> nx' = p + 1 \<and> (nx = 0 \<or> usable nx \<longrightarrow> usable p)"
proof -
  have "case r of (p, nx') \<Rightarrow>
      p \<noteq> 0 \<and> map_of tab p = None \<and> nx' = p + 1 \<and> (nx = 0 \<or> usable nx \<longrightarrow> usable p)"
    if "allocate_port tab nx = Some r" for r
  proof (rule allocate_port.raw_induct [where P = "\<lambda>tab nx (p, nx').
      p \<noteq> 0 \<and> map_of tab p = None \<and> nx' = p + 1 \<and> (nx = 0 \<or> usable nx \<longrightarrow> usable p)", OF _ that])
    fix f tab nx r
    assume IH: "\<And>tab nx r. f tab nx = Some r \<Longrightarrow> case r of (p, nx') \<Rightarrow>
        p \<noteq> 0 \<and> map_of tab p = None \<and> nx' = p + 1 \<and> (nx = 0 \<or> usable nx \<longrightarrow> usable p)"
      and eq: "(if nx = 0 then f tab 10000 else if map_of tab nx = None then Some (nx, nx + 1)
        else f tab (nx + 1)) = Some r"
    obtain p nx' where r: "r = (p, nx')" by force
    have step: "nx + 1 = 0 \<or> usable (nx + 1)" if "usable nx"
      using that Suc_u16_cases [of "nx"] by (auto simp: usable_def)
    have start: "usable 10000" by (simp add: usable_def)
    show "case r of (p, nx') \<Rightarrow>
        p \<noteq> 0 \<and> map_of tab p = None \<and> nx' = p + 1 \<and> (nx = 0 \<or> usable nx \<longrightarrow> usable p)"
      using eq IH [of tab 10000 r] IH [of tab "nx + 1" r] step start
      by (auto simp: r split: if_splits)
  qed
  with assms show ?thesis by blast
qed

text \<open>It returns whenever some port from 10000 on is free: first when the search starts below it.\<close>

lemma allocate_port_below:
  assumes "usable q" "map_of tab q = None" "nx \<noteq> 0" "unat nx \<le> unat q"
  shows "\<exists>r. allocate_port tab nx = Some r"
  using assms(3,4)
proof (induction "unat q - unat nx" arbitrary: "nx")
  case 0
  then have "nx = q" by (simp add: word_unat_eq_iff)
  with 0 assms show ?case by (subst allocate_port.simps) simp
next
  case (Suc d)
  then have "unat nx < unat q" by simp
  moreover have "unat q < 65536" using unsigned_less [of q, where ?'a = nat] by simp
  ultimately have next1: "unat (nx + 1) = Suc (unat nx)" by (intro unat_Suc_u16) simp
  then have "nx + 1 \<noteq> 0" by auto
  with Suc next1 \<open>unat nx < unat q\<close> have "\<exists>r. allocate_port tab (nx + 1) = Some r"
    by (intro Suc.hyps(1)) auto
  with Suc.prems show ?case by (subst allocate_port.simps) auto
qed

text \<open>A search that starts above the free port runs to 0, restarts at 10000 and finds it.\<close>

lemma allocate_port_zero: "allocate_port tab 0 = allocate_port tab 10000"
  by (subst allocate_port.simps) simp

lemma allocate_port_total:
  assumes "usable q" "map_of tab q = None"
  shows "\<exists>r. allocate_port tab nx = Some r"
proof (induction "65536 - unat nx" arbitrary: "nx" rule: less_induct)
  case less
  have start: "\<exists>r. allocate_port tab 10000 = Some r"
    using assms by (intro allocate_port_below [of q]) (auto simp: usable_def)
  consider "nx = 0" | "nx \<noteq> 0" "map_of tab nx = None"
    | "nx \<noteq> 0" "map_of tab nx \<noteq> None" "nx + 1 = 0"
    | "nx \<noteq> 0" "map_of tab nx \<noteq> None" "unat (nx + 1) = Suc (unat nx)"
    using Suc_u16_cases by blast
  then show ?case
  proof cases
    case 4
    moreover have "unat nx < 65536" using unsigned_less [of nx, where ?'a = nat] by simp
    ultimately have "\<exists>r. allocate_port tab (nx + 1) = Some r"
      by (intro less.hyps) simp
    with 4 show ?thesis by (subst allocate_port.simps) auto
  qed (use start in \<open>subst allocate_port.simps, auto simp: allocate_port_zero\<close>)+
qed

text \<open>There are 55536 usable ports, so a table with fewer entries leaves one of them free.\<close>

lemma card_usable: "card {p. usable p} = 55536"
proof -
  have "unat ` {p. usable p} = {10000..<65536}"
  proof (intro equalityI subsetI)
    fix n :: nat assume "n \<in> {10000..<65536}"
    then have "unat (word_of_nat n :: u16) = n" by (simp add: unat_of_nat)
    with \<open>n \<in> {10000..<65536}\<close> show "n \<in> unat ` {p. usable p}"
      by (intro image_eqI [of _ _ "word_of_nat n"]) (auto simp: usable_def)
  next
    fix n assume "n \<in> unat ` {p. usable p}"
    then obtain p where "n = unat p" "usable p" by auto
    then show "n \<in> {10000..<65536}"
      using unsigned_less [of p, where ?'a = nat] by (simp add: usable_def)
  qed
  moreover have "inj_on unat {p. usable p}"
    by (intro inj_onI) (simp add: word_unat_eq_iff)
  ultimately show ?thesis using card_image [of unat "{p. usable p}"] by simp
qed

lemma free_port_exists:
  assumes "length tab < 55536"
  shows "\<exists>q. usable q \<and> map_of tab q = None"
proof (rule ccontr)
  assume "\<not> ?thesis"
  then have "{p. usable p} \<subseteq> fst ` set tab" by (auto simp: map_of_eq_None_iff)
  then have "card {p. usable p} \<le> card (fst ` set tab)" by (intro card_mono) auto
  also have "\<dots> \<le> length tab"
    using card_length [of "map fst tab"] by simp
  finally show False using assms by (simp add: card_usable)
qed

lemma allocate_port_returns_iff:
  assumes "nx = 0 \<or> usable nx"
  shows "(\<exists>r. allocate_port tab nx = Some r) \<longleftrightarrow> (\<exists>q. usable q \<and> map_of tab q = None)"
  using allocate_port_sound [of tab nx] allocate_port_total [of _ tab nx] assms by (metis surj_pair)

section \<open>The invariant of the table\<close>

text \<open>
  The two maps are inverse to each other and have no duplicate keys, the deque lists every port in
  use exactly once, every port in use is usable, so is the port the next search starts from (or it
  is 0, after a wrap-around), and a limited table respects its limit.
\<close>

definition nat_inv :: "tun_nat \<Rightarrow> bool" where
  "nat_inv n \<longleftrightarrow>
     distinct (map fst (forward n)) \<and> distinct (map fst (reverse n)) \<and>
     (\<forall>k p. map_of (forward n) k = Some p \<longleftrightarrow> map_of (reverse n) p = Some k) \<and>
     distinct (lru n) \<and> set (lru n) = dom (map_of (reverse n)) \<and>
     (\<forall>p \<in> dom (map_of (reverse n)). usable p) \<and>
     (next_port n = 0 \<or> usable (next_port n)) \<and>
     (max_sessions n \<noteq> 0 \<longrightarrow> length (reverse n) \<le> max_sessions n)"

lemma nat_invD:
  assumes "nat_inv n"
  shows "distinct (map fst (forward n))" "distinct (map fst (reverse n))"
    "map_of (forward n) k = Some p \<longleftrightarrow> map_of (reverse n) p = Some k"
    "distinct (lru n)" "set (lru n) = dom (map_of (reverse n))"
    "map_of (reverse n) p = Some k \<Longrightarrow> usable p"
    "next_port n = 0 \<or> usable (next_port n)"
    "max_sessions n \<noteq> 0 \<Longrightarrow> length (reverse n) \<le> max_sessions n"
  using assms by (auto simp: nat_inv_def)

lemma nat_invI:
  assumes "distinct (map fst (forward n))" "distinct (map fst (reverse n))"
    "\<And>k p. map_of (forward n) k = Some p \<longleftrightarrow> map_of (reverse n) p = Some k"
    "distinct (lru n)" "set (lru n) = dom (map_of (reverse n))"
    "\<And>p k. map_of (reverse n) p = Some k \<Longrightarrow> usable p"
    "next_port n = 0 \<or> usable (next_port n)"
    "max_sessions n \<noteq> 0 \<Longrightarrow> length (reverse n) \<le> max_sessions n"
  shows "nat_inv n"
  using assms unfolding nat_inv_def by blast

lemma nat_inv_init: "nat_inv (nat_init limit)"
  by (auto simp: nat_inv_def nat_init_def usable_def)

lemma nat_inv_reverse_inj:
  "nat_inv n \<Longrightarrow> map_of (reverse n) p = Some k \<Longrightarrow> map_of (reverse n) q = Some k \<Longrightarrow> p = q"
  by (metis nat_invD(3) option.inject)

text \<open>A table holds as many entries as its deque.\<close>

lemma length_reverse_dom: "distinct (map fst al) \<Longrightarrow> length al = card (dom (map_of al))"
  by (metis card_length distinct_card dom_map_of_conv_image_fst length_map set_map)

lemma length_reverse_lru: "nat_inv n \<Longrightarrow> length (reverse n) = length (lru n)"
  using length_reverse_dom [of "reverse n"] distinct_card [of "lru n"] by (simp add: nat_invD)

lemma length_delete_present:
  "distinct (map fst al) \<Longrightarrow> map_of al k = Some v \<Longrightarrow> Suc (length (AList.delete k al)) = length al"
proof -
  assume d: "distinct (map fst al)" and m: "map_of al k = Some v"
  have dom: "dom (map_of (AList.delete k al)) = dom (map_of al) - {k}"
    by (auto simp: delete_conv' split: if_splits)
  have "k \<in> dom (map_of al)" using m by auto
  then have "Suc (card (dom (map_of al) - {k})) = card (dom (map_of al))"
    by (intro card.remove [symmetric] finite_dom_map_of)
  with d show ?thesis
    using length_reverse_dom [OF distinct_delete [OF d, of k]] dom
    by (simp add: length_reverse_dom)
qed

lemma length_update_absent:
  "distinct (map fst al) \<Longrightarrow> map_of al k = None \<Longrightarrow> length (AList.update k v al) = Suc (length al)"
proof -
  assume d: "distinct (map fst al)" and m: "map_of al k = None"
  then have "dom (map_of (AList.update k v al)) = insert k (dom (map_of al))" "k \<notin> dom (map_of al)"
    by (auto simp: update_conv')
  with d show ?thesis
    using length_reverse_dom [OF distinct_update [OF d, of k v]]
    by (simp add: length_reverse_dom finite_dom_map_of)
qed

subsection \<open>Every operation keeps it\<close>

lemma nat_inv_touch:
  "nat_inv n \<Longrightarrow> map_of (reverse n) p = Some k \<Longrightarrow> nat_inv (touch_locked p n)"
  by (auto simp: nat_inv_def touch_locked_def Let_def dest: notin_set_remove1)

text \<open>The steps that the operations are made of: dropping a port, adding one.\<close>

lemma nat_inv_drop:
  assumes inv: "nat_inv n" and p: "map_of (reverse n) p = Some k"
  shows "nat_inv (n\<lparr>forward := AList.delete k (forward n), reverse := AList.delete p (reverse n),
                    lru := remove1 p (lru n)\<rparr>)"
proof -
  note i = nat_invD [OF inv]
  have len: "Suc (length (AList.delete p (reverse n))) = length (reverse n)"
    using i(2) p by (rule length_delete_present)
  have fwd: "map_of (forward n) k' = Some p' \<longleftrightarrow> map_of (reverse n) p' = Some k'" for k' p'
    by (rule i(3))
  have inj: "p' = p" if "map_of (reverse n) p' = Some k" for p'
    using inv that p by (rule nat_inv_reverse_inj)
  let ?fw = "AList.delete k (forward n)" and ?tab = "AList.delete p (reverse n)"
  have maps: "map_of ?fw k' = Some p' \<longleftrightarrow> map_of ?tab p' = Some k'" for k' p'
    by (simp add: delete_conv' fwd) (metis inj p option.inject)
  have dom: "dom (map_of ?tab) = dom (map_of (reverse n)) - {p}"
    by (auto simp: delete_conv' split: if_splits)
  show ?thesis
  proof (rule nat_invI, goal_cases)
    case (3 k' p')
    show ?case using maps by simp
  next
    case (6 p' k')
    then show ?case using i(6) by (auto simp: delete_conv' split: if_splits)
  qed (use i dom len in \<open>auto simp: distinct_delete\<close>)
qed

lemma nat_inv_add:
  assumes inv: "nat_inv n" and k: "map_of (forward n) k = None"
    and p: "map_of (reverse n) p = None" "usable p" and nx: "nx = 0 \<or> usable nx"
    and room: "max_sessions n \<noteq> 0 \<Longrightarrow> length (reverse n) < max_sessions n"
  shows "nat_inv (n\<lparr>next_port := nx, forward := AList.update k p (forward n),
                    reverse := AList.update p k (reverse n), lru := lru n @ [p]\<rparr>)"
proof -
  note i = nat_invD [OF inv]
  have len: "length (AList.update p k (reverse n)) = Suc (length (reverse n))"
    using i(2) p(1) by (rule length_update_absent)
  have fwd: "map_of (forward n) k' = Some p' \<longleftrightarrow> map_of (reverse n) p' = Some k'" for k' p'
    by (rule i(3))
  have new: "map_of (reverse n) p' \<noteq> Some k" for p'
    using fwd [of k p'] k by simp
  let ?fw = "AList.update k p (forward n)" and ?tab = "AList.update p k (reverse n)"
  have maps: "map_of ?fw k' = Some p' \<longleftrightarrow> map_of ?tab p' = Some k'" for k' p'
    using fwd [of k' p'] new [of p'] p by (auto simp: update_conv')
  have dom: "dom (map_of ?tab) = insert p (dom (map_of (reverse n)))"
    by (auto simp: update_conv')
  show ?thesis
  proof (rule nat_invI, goal_cases)
    case (3 k' p')
    show ?case using maps by simp
  next
    case (6 p' k')
    then show ?case using i(6) p by (auto simp: update_conv' split: if_splits)
  qed (use i(1,2,4,5) nx dom len room p in \<open>auto simp: distinct_update\<close>)
qed

text \<open>Making room evicts the front of the deque, the port whose last use is oldest.\<close>

lemma nat_inv_lru_front:
  assumes "nat_inv n" "lru n = p # rest"
  obtains k where "map_of (reverse n) p = Some k" "p \<notin> set rest"
  using nat_invD(4,5) [OF assms(1)] assms(2) by auto

lemma evict_one_front:
  assumes "lru n = p # rest" "map_of (reverse n) p = Some k"
  shows "evict_one_locked n =
    (Some p, n\<lparr>forward := AList.delete k (forward n), reverse := AList.delete p (reverse n),
                lru := remove1 p (lru n)\<rparr>)"
  using assms by (simp add: evict_one_locked_def)

lemma make_room_cases:
  assumes inv: "nat_inv n" and mr: "make_room n = (ev, n1)"
  obtains
    (room) "ev = None" "n1 = n" "max_sessions n \<noteq> 0 \<Longrightarrow> length (reverse n) < max_sessions n"
  | (evict) p k rest where "ev = Some p" "lru n = p # rest" "map_of (reverse n) p = Some k"
      "max_sessions n \<noteq> 0" "max_sessions n \<le> length (reverse n)"
      "n1 = n\<lparr>forward := AList.delete k (forward n), reverse := AList.delete p (reverse n),
              lru := remove1 p (lru n)\<rparr>"
proof (cases "max_sessions n \<noteq> 0 \<and> max_sessions n \<le> length (reverse n)")
  case True
  then have "lru n \<noteq> []"
    using length_reverse_lru [OF inv] by auto
  then obtain p rest where l: "lru n = p # rest" by (cases "lru n") auto
  from inv l obtain k where k: "map_of (reverse n) p = Some k" by (rule nat_inv_lru_front)
  from True mr have "evict_one_locked n = (ev, n1)" by (simp add: make_room_def)
  with evict_one_front [OF l k] True l k show ?thesis by (intro evict [of p rest k]) auto
qed (use mr room in \<open>auto simp: make_room_def\<close>)

lemma make_room_inv:
  assumes inv: "nat_inv n" and mr: "make_room n = (ev, n1)"
  shows "nat_inv n1" and "max_sessions n1 \<noteq> 0 \<Longrightarrow> length (reverse n1) < max_sessions n1"
    and "next_port n1 = next_port n" and "max_sessions n1 = max_sessions n"
    and "map_of (reverse n1) q = (if ev = Some q then None else map_of (reverse n) q)"
    and "map_of (forward n) key = None \<Longrightarrow> map_of (forward n1) key = None"
proof -
  have "nat_inv n1 \<and> (max_sessions n1 \<noteq> 0 \<longrightarrow> length (reverse n1) < max_sessions n1) \<and>
      next_port n1 = next_port n \<and> max_sessions n1 = max_sessions n \<and>
      map_of (reverse n1) q = (if ev = Some q then None else map_of (reverse n) q) \<and>
      (map_of (forward n) key = None \<longrightarrow> map_of (forward n1) key = None)"
    using inv mr
  proof (cases rule: make_room_cases)
    case (evict p k rest)
    have "Suc (length (AList.delete p (reverse n))) = length (reverse n)"
      using nat_invD(2) [OF inv] evict(3) by (rule length_delete_present)
    then show ?thesis
      using nat_inv_drop [OF inv evict(3)] nat_invD(8) [OF inv] evict
      by (auto simp: delete_conv')
  qed (use inv in auto)
  then show "nat_inv n1" and "max_sessions n1 \<noteq> 0 \<Longrightarrow> length (reverse n1) < max_sessions n1"
    and "next_port n1 = next_port n" and "max_sessions n1 = max_sessions n"
    and "map_of (reverse n1) q = (if ev = Some q then None else map_of (reverse n) q)"
    and "map_of (forward n) key = None \<Longrightarrow> map_of (forward n1) key = None"
    by auto
qed

text \<open>The two ways a call can return: the flow is known, or it gets a new port.\<close>

lemma lookup_or_create_cases:
  assumes inv: "nat_inv n" and call: "lookup_or_create n key = Some (r, n')"
  obtains
    (known) p where "map_of (reverse n) p = Some key"
      "r = \<lparr>lr_nat_port = p, lr_evicted_nat_port = None\<rparr>" "n' = touch_locked p n"
  | (fresh) p ev n1 where "map_of (forward n) key = None" "make_room n = (ev, n1)"
      "map_of (reverse n1) p = None" "usable p"
      "r = \<lparr>lr_nat_port = p, lr_evicted_nat_port = ev\<rparr>"
      "n' = n1\<lparr>next_port := p + 1, forward := AList.update key p (forward n1),
               reverse := AList.update p key (reverse n1), lru := lru n1 @ [p]\<rparr>"
proof (cases "map_of (forward n) key")
  case (Some p)
  then have "map_of (reverse n) p = Some key" using nat_invD(3) [OF inv] by blast
  with Some call show ?thesis by (intro known) (auto simp: lookup_or_create_def)
next
  case None
  obtain ev n1 where mr: "make_room n = (ev, n1)" by force
  with None call obtain p nx where al: "allocate_port (reverse n1) (next_port n1) = Some (p, nx)"
    and res: "r = \<lparr>lr_nat_port = p, lr_evicted_nat_port = ev\<rparr>"
      "n' = touch_locked p (n1\<lparr>next_port := nx, forward := AList.update key p (forward n1),
               reverse := AList.update p key (reverse n1)\<rparr>)"
    by (auto simp: lookup_or_create_def split: option.splits)
  note inv1 = make_room_inv(1) [OF inv mr]
  have p: "map_of (reverse n1) p = None" "usable p" "nx = p + 1"
    using allocate_port_sound [OF al] nat_invD(7) [OF inv1] by auto
  then have "p \<notin> set (lru n1)" using nat_invD(5) [OF inv1] by auto
  with None mr p res show ?thesis by (intro fresh) (auto simp: touch_locked_def)
qed

lemma usable_next: "usable p \<Longrightarrow> p + 1 = 0 \<or> usable (p + 1)"
  using Suc_u16_cases [of p] by (auto simp: usable_def)

lemma nat_inv_lookup_or_create:
  assumes inv: "nat_inv n" and call: "lookup_or_create n key = Some (r, n')"
  shows "nat_inv n'"
  using inv call
proof (cases rule: lookup_or_create_cases)
  case (known p)
  then show ?thesis using nat_inv_touch [OF inv] by simp
next
  case (fresh p ev n1)
  note mr = make_room_inv [OF inv fresh(2)]
  show ?thesis
    unfolding fresh(6)
    using mr(1) mr(6) [OF fresh(1)] fresh(3,4) usable_next [OF fresh(4)] mr(2)
    by (rule nat_inv_add)
qed

lemma nat_erase_absent: "map_of (reverse n) p = None \<Longrightarrow> nat_erase p n = n"
  by (simp add: nat_erase_def)

lemma nat_erase_present:
  assumes "nat_inv n" "map_of (reverse n) p = Some k"
  shows "nat_erase p n = n\<lparr>forward := AList.delete k (forward n),
      reverse := AList.delete p (reverse n), lru := remove1 p (lru n)\<rparr>"
  using nat_invD(5) [OF assms(1)] assms(2) by (auto simp: nat_erase_def Let_def)

lemma nat_inv_erase: "nat_inv n \<Longrightarrow> nat_inv (nat_erase p n)"
  by (cases "map_of (reverse n) p")
    (simp_all add: nat_erase_absent nat_erase_present nat_inv_drop)

section \<open>What the clients of the table see\<close>

lemma lookup_back_touch [simp]: "lookup_back (touch_locked p n) q = lookup_back n q"
  by (simp add: lookup_back_def touch_locked_def Let_def)

lemma lookup_back_create:
  assumes inv: "nat_inv n" and call: "lookup_or_create n key = Some (r, n')"
  shows "lookup_back n' q =
    (if q = lr_nat_port r then Some key
     else if lr_evicted_nat_port r = Some q then None else lookup_back n q)"
  using inv call
proof (cases rule: lookup_or_create_cases)
  case (known p)
  then show ?thesis by (auto simp: lookup_back_def touch_locked_def Let_def)
next
  case (fresh p ev n1)
  then show ?thesis
    using make_room_inv(5) [OF inv fresh(2)] by (simp add: lookup_back_def update_conv')
qed

lemma lookup_back_erase:
  "nat_inv n \<Longrightarrow> lookup_back (nat_erase p n) q = (if q = p then None else lookup_back n q)"
  by (cases "map_of (reverse n) p")
    (auto simp: lookup_back_def nat_erase_absent nat_erase_present delete_conv')

lemma lookup_or_create_known:
  "nat_inv n \<Longrightarrow> lookup_back n p = Some key \<Longrightarrow>
     lookup_or_create n key = Some (\<lparr>lr_nat_port = p, lr_evicted_nat_port = None\<rparr>, touch_locked p n)"
  using nat_invD(3) [of n key p] by (simp add: lookup_or_create_def lookup_back_def)

lemma lookup_or_create_port:
  assumes inv: "nat_inv n" and call: "lookup_or_create n key = Some (r, n')"
  shows "usable (lr_nat_port r)"
    and "lookup_back n (lr_nat_port r) \<in> {None, Some key} \<or> lr_evicted_nat_port r = Some (lr_nat_port r)"
    and "lr_evicted_nat_port r = Some q \<Longrightarrow> lookup_back n q \<noteq> None \<and> lru n \<noteq> [] \<and> q = hd (lru n)"
proof -
  have "usable (lr_nat_port r) \<and>
      (lookup_back n (lr_nat_port r) \<in> {None, Some key} \<or> lr_evicted_nat_port r = Some (lr_nat_port r)) \<and>
      (lr_evicted_nat_port r = Some q \<longrightarrow> lookup_back n q \<noteq> None \<and> lru n \<noteq> [] \<and> q = hd (lru n))"
    using inv call
  proof (cases rule: lookup_or_create_cases)
    case (known p)
    then show ?thesis using nat_invD(6) [OF inv known(1)] by (simp add: lookup_back_def)
  next
    case (fresh p ev n1)
    have ev: "ev = Some q \<Longrightarrow> lookup_back n q \<noteq> None \<and> lru n \<noteq> [] \<and> q = hd (lru n)"
      using inv fresh(2) by (cases rule: make_room_cases) (auto simp: lookup_back_def)
    show ?thesis
      using fresh ev make_room_inv(5) [OF inv fresh(2), of p]
      by (auto simp: lookup_back_def split: if_splits)
  qed
  then show "usable (lr_nat_port r)"
    and "lookup_back n (lr_nat_port r) \<in> {None, Some key} \<or> lr_evicted_nat_port r = Some (lr_nat_port r)"
    and "lr_evicted_nat_port r = Some q \<Longrightarrow> lookup_back n q \<noteq> None \<and> lru n \<noteq> [] \<and> q = hd (lru n)"
    by auto
qed

text \<open>The table changes its limit in no operation.\<close>

lemma max_sessions_create:
  assumes inv: "nat_inv n" and call: "lookup_or_create n key = Some (r, n')"
  shows "max_sessions n' = max_sessions n"
  using inv call
proof (cases rule: lookup_or_create_cases)
  case (fresh p ev n1)
  then show ?thesis using make_room_inv(4) [OF inv fresh(2)] by simp
qed (simp add: touch_locked_def Let_def)

lemma max_sessions_erase [simp]: "max_sessions (nat_erase p n) = max_sessions n"
  by (simp add: nat_erase_def Let_def split: option.split)

section \<open>When a call returns\<close>

lemma lookup_or_create_returns:
  assumes inv: "nat_inv n" and free: "\<And>n1. snd (make_room n) = n1 \<Longrightarrow> length (reverse n1) < 55536"
  shows "\<exists>r n'. lookup_or_create n key = Some (r, n')"
proof (cases "map_of (forward n) key")
  case None
  obtain ev n1 where mr: "make_room n = (ev, n1)" by force
  then have "length (reverse n1) < 55536" using free by simp
  then obtain q where "usable q" "map_of (reverse n1) q = None"
    using free_port_exists by blast
  then obtain p nx where "allocate_port (reverse n1) (next_port n1) = Some (p, nx)"
    using allocate_port_total by (metis surj_pair)
  with None mr show ?thesis by (simp add: lookup_or_create_def)
qed (simp add: lookup_or_create_def)

lemma limited_returns:
  assumes inv: "nat_inv n" and limit: "max_sessions n \<noteq> 0" "max_sessions n \<le> 55536"
  shows "\<exists>r n'. lookup_or_create n key = Some (r, n')"
proof -
  obtain ev n1 where mr: "make_room n = (ev, n1)" by force
  show ?thesis
    using make_room_inv(2,4) [OF inv mr] limit mr by (intro lookup_or_create_returns [OF inv]) auto
qed

text \<open>A table that holds 55536 ports has none left, and the search for one never ends.\<close>

lemma full_table_no_port:
  assumes inv: "nat_inv n" and full: "55536 \<le> length (reverse n)"
  shows "allocate_port (reverse n) (next_port n) = None"
proof -
  have sub: "dom (map_of (reverse n)) \<subseteq> {p. usable p}"
    using nat_invD(6) [OF inv] by auto
  have "card {p. usable p} \<le> card (dom (map_of (reverse n)))"
    using full length_reverse_dom [OF nat_invD(2) [OF inv]] by (simp add: card_usable)
  with sub have "dom (map_of (reverse n)) = {p. usable p}"
    by (intro card_seteq) auto
  then have "\<not> (\<exists>q. usable q \<and> map_of (reverse n) q = None)" by (auto simp: domIff)
  then show ?thesis
    using allocate_port_returns_iff [OF nat_invD(7) [OF inv], of "reverse n"]
    by (cases "allocate_port (reverse n) (next_port n)") auto
qed

section \<open>The table as a least-recently-used cache\<close>

text \<open>
  The abstract view of a table: its entries, the one used longest ago first. \<open>cache_access\<close> is
  what a cache with a limit does on an access: an entry it knows moves to the end; otherwise the
  new entry, with a port it is given, goes to the end, and the first entry leaves if there are
  \<open>limit\<close> entries already (0 is no limit).
\<close>

type_synonym cache = "(u16 \<times> flow_key) list"

definition cache_of :: "tun_nat \<Rightarrow> cache" where
  "cache_of n = map (\<lambda>p. (p, the (map_of (reverse n) p))) (lru n)"

definition cache_access :: "nat \<Rightarrow> flow_key \<Rightarrow> u16 \<Rightarrow> cache \<Rightarrow> u16 \<times> u16 option \<times> cache" where
  "cache_access limit key new c =
     (case find (\<lambda>e. snd e = key) c of
        Some e \<Rightarrow> (fst e, None, filter (\<lambda>e. snd e \<noteq> key) c @ [e])
      | None \<Rightarrow>
          if limit \<noteq> 0 \<and> limit \<le> length c
          then (new, Some (fst (hd c)), tl c @ [(new, key)])
          else (new, None, c @ [(new, key)]))"

lemma find_unique:
  assumes "x \<in> set xs" "P x" "\<And>y. y \<in> set xs \<Longrightarrow> P y \<Longrightarrow> y = x"
  shows "find P xs = Some x"
  using assms
proof (induction xs)
  case (Cons a xs)
  show ?case
  proof (cases "P a")
    case True
    then have "a = x" using Cons.prems(3) [of a] by simp
    with True show ?thesis by simp
  next
    case False
    with Cons.prems(1,2) have x: "x \<in> set xs" by auto
    have "find P xs = Some x"
      by (rule Cons.IH [OF x Cons.prems(2)]) (metis Cons.prems(3) list.set_intros(2))
    with False show ?thesis by simp
  qed
qed simp

lemma length_cache [simp]: "length (cache_of n) = length (lru n)"
  by (simp add: cache_of_def)

lemma cache_of_mem:
  "nat_inv n \<Longrightarrow> e \<in> set (cache_of n) \<longleftrightarrow> map_of (reverse n) (fst e) = Some (snd e)"
  using nat_invD(5) [of n] by (cases e) (auto simp: cache_of_def)

lemma filter_cache:
  "map_of (reverse n) p = Some key \<Longrightarrow> nat_inv n \<Longrightarrow>
     filter (\<lambda>e. snd e \<noteq> key) (cache_of n)
       = map (\<lambda>p. (p, the (map_of (reverse n) p))) (remove1 p (lru n))"
proof -
  assume p: "map_of (reverse n) p = Some key" and inv: "nat_inv n"
  have "snd (q, the (map_of (reverse n) q)) \<noteq> key \<longleftrightarrow> p \<noteq> q" if "q \<in> set (lru n)" for q
    using that p nat_inv_reverse_inj [OF inv p, of q] nat_invD(5) [OF inv] by auto
  then have "filter (\<lambda>e. snd e \<noteq> key) (cache_of n)
      = map (\<lambda>p. (p, the (map_of (reverse n) p))) (filter (\<lambda>q. p \<noteq> q) (lru n))"
    by (auto simp: cache_of_def filter_map o_def cong: filter_cong)
  then show ?thesis
    using nat_invD(4) [OF inv] by (simp add: distinct_remove1_removeAll removeAll_filter_not_eq)
qed

lemma find_cache_known:
  "nat_inv n \<Longrightarrow> map_of (reverse n) p = Some key \<Longrightarrow>
     find (\<lambda>e. snd e = key) (cache_of n) = Some (p, key)"
  by (rule find_unique) (auto simp: cache_of_mem nat_inv_reverse_inj)

lemma find_cache_unknown:
  "nat_inv n \<Longrightarrow> map_of (forward n) key = None \<Longrightarrow> find (\<lambda>e. snd e = key) (cache_of n) = None"
  using nat_invD(3) [of n key] by (auto simp: find_None_iff cache_of_mem)

text \<open>An access to the table is an access to the cache.\<close>

lemma cache_of_touch:
  assumes "nat_inv n" "map_of (reverse n) p = Some key"
  shows "cache_of (touch_locked p n) = filter (\<lambda>e. snd e \<noteq> key) (cache_of n) @ [(p, key)]"
  using assms(2) nat_invD(5) [OF assms(1)]
  by (subst filter_cache [OF assms(2,1)]) (auto simp: cache_of_def touch_locked_def Let_def)

lemma cache_of_erase:
  assumes inv: "nat_inv n" and p: "map_of (reverse n) p = Some k"
  shows "cache_of (n\<lparr>forward := AList.delete k (forward n), reverse := AList.delete p (reverse n),
      lru := remove1 p (lru n)\<rparr>) = map (\<lambda>q. (q, the (map_of (reverse n) q))) (remove1 p (lru n))"
  using nat_invD(4) [OF inv] by (auto simp: cache_of_def delete_conv')

lemma cache_of_add:
  assumes "nat_inv n" "map_of (reverse n) p = None"
  shows "cache_of (n\<lparr>next_port := nx, forward := AList.update key p (forward n),
      reverse := AList.update p key (reverse n), lru := lru n @ [p]\<rparr>) = cache_of n @ [(p, key)]"
  using nat_invD(5) [OF assms(1)] assms(2) by (auto simp: cache_of_def update_conv')

lemma cache_of_make_room:
  assumes inv: "nat_inv n" and mr: "make_room n = (ev, n1)"
  shows "if max_sessions n \<noteq> 0 \<and> max_sessions n \<le> length (cache_of n)
    then ev = Some (fst (hd (cache_of n))) \<and> cache_of n1 = tl (cache_of n)
    else ev = None \<and> cache_of n1 = cache_of n"
  using inv mr
proof (cases rule: make_room_cases)
  case room
  then show ?thesis using length_reverse_lru [OF inv] by auto
next
  case (evict p k rest)
  have "cache_of n1 = map (\<lambda>q. (q, the (map_of (reverse n) q))) rest"
    using cache_of_erase [OF inv evict(3)] evict by simp
  then show ?thesis
    using length_reverse_lru [OF inv] evict by (simp add: cache_of_def)
qed

section \<open>The contract of the table\<close>

text \<open>
  What the packet handlers rely on: \<open>create\<close> gives a flow its port and may take one other port
  away, \<open>flow_of\<close> finds the flow of a port, \<open>forget\<close> drops a port.
\<close>

datatype ('k, 'p) table_op = Create 'k | Forget 'p

text \<open>A run of operations; it collects the ports taken away on the way.\<close>

fun table_run :: "('n \<Rightarrow> 'k \<Rightarrow> ('p \<times> 'p option \<times> 'n) option) \<Rightarrow> ('n \<Rightarrow> 'p \<Rightarrow> 'n) \<Rightarrow>
    'n \<Rightarrow> ('k, 'p) table_op list \<Rightarrow> ('p list \<times> 'n) option" where
  "table_run create forget n [] = Some ([], n)"
| "table_run create forget n (Create k # ops) =
     (case create n k of
        None \<Rightarrow> None
      | Some (p, ev, n') \<Rightarrow>
          map_option (\<lambda>(gone, m). (case ev of None \<Rightarrow> gone | Some q \<Rightarrow> q # gone, m))
            (table_run create forget n' ops))"
| "table_run create forget n (Forget p # ops) =
     map_option (\<lambda>(gone, m). (p # gone, m)) (table_run create forget (forget n p) ops)"

locale port_table =
  fixes inv :: "'n \<Rightarrow> bool"
    and create :: "'n \<Rightarrow> 'k \<Rightarrow> ('p \<times> 'p option \<times> 'n) option"
    and flow_of :: "'n \<Rightarrow> 'p \<Rightarrow> 'k option"
    and forget :: "'n \<Rightarrow> 'p \<Rightarrow> 'n"
  assumes create_inv: "inv n \<Longrightarrow> create n k = Some (p, ev, n') \<Longrightarrow> inv n'"
    and create_back: "inv n \<Longrightarrow> create n k = Some (p, ev, n') \<Longrightarrow>
      flow_of n' q = (if q = p then Some k else if ev = Some q then None else flow_of n q)"
    and create_known: "inv n \<Longrightarrow> flow_of n p = Some k \<Longrightarrow> \<exists>n'. create n k = Some (p, None, n')"
    and create_owner: "inv n \<Longrightarrow> create n k = Some (p, ev, n') \<Longrightarrow>
      flow_of n p = None \<or> flow_of n p = Some k \<or> ev = Some p"
    and forget_inv: "inv n \<Longrightarrow> inv (forget n p)"
    and forget_back: "inv n \<Longrightarrow> flow_of (forget n p) q = (if q = p then None else flow_of n q)"
begin

text \<open>No two ports lead back to the same flow.\<close>

lemma back_inj: "inv n \<Longrightarrow> flow_of n p = Some k \<Longrightarrow> flow_of n q = Some k \<Longrightarrow> p = q"
  using create_known [of n p k] create_known [of n q k] by auto

text \<open>A flow that is asked for again gets the port it has, and nobody loses one.\<close>

lemma create_twice:
  "inv n \<Longrightarrow> create n k = Some (p, ev, n') \<Longrightarrow> \<exists>n''. create n' k = Some (p, None, n'')"
  using create_back [of n k p ev n' p] create_inv [of n k p ev n'] create_known [of n' p k] by simp

lemma create_keeps:
  assumes "inv n" "create n k = Some (p, ev, n')" "flow_of n q = Some k'" "ev \<noteq> Some q"
  shows "flow_of n' q = Some k'"
  using assms create_back [OF assms(1,2), of q] create_owner [OF assms(1,2)]
  by (cases "q = p") auto

lemma run_inv: "inv n \<Longrightarrow> table_run create forget n ops = Some (gone, m) \<Longrightarrow> inv m"
proof (induction ops arbitrary: n gone)
  case (Cons x ops)
  then show ?case
    by (cases x) (auto split: option.splits intro: create_inv forget_inv)
qed simp

text \<open>A port keeps its flow through any run that does not take the port away.\<close>

lemma run_keeps:
  assumes "inv n" "table_run create forget n ops = Some (gone, m)" "flow_of n q = Some k" "q \<notin> set gone"
  shows "flow_of m q = Some k"
  using assms
proof (induction ops arbitrary: n gone)
  case (Cons x ops)
  show ?case
  proof (cases x)
    case (Create k')
    then obtain p ev n' gone' where c: "create n k' = Some (p, ev, n')"
      and r: "table_run create forget n' ops = Some (gone', m)"
      and g: "gone = (case ev of None \<Rightarrow> gone' | Some q \<Rightarrow> q # gone')"
      using Cons.prems(2) by (auto split: option.splits)
    have "ev \<noteq> Some q" "q \<notin> set gone'" using g Cons.prems(4) by (auto split: option.splits)
    then show ?thesis
      using Cons.IH [OF create_inv [OF Cons.prems(1) c] r] create_keeps [OF Cons.prems(1) c Cons.prems(3)]
      by simp
  next
    case (Forget p)
    then obtain gone' where r: "table_run create forget (forget n p) ops = Some (gone', m)"
      and g: "gone = p # gone'"
      using Cons.prems(2) by auto
    then show ?thesis
      using Cons.IH [OF forget_inv [OF Cons.prems(1)] r] Cons.prems forget_back [OF Cons.prems(1), of p q]
      by simp
  qed
qed simp

end

definition nat_create :: "tun_nat \<Rightarrow> flow_key \<Rightarrow> (u16 \<times> u16 option \<times> tun_nat) option" where
  "nat_create n k =
     map_option (\<lambda>(r, n'). (lr_nat_port r, lr_evicted_nat_port r, n')) (lookup_or_create n k)"

definition nat_forget :: "tun_nat \<Rightarrow> u16 \<Rightarrow> tun_nat" where
  "nat_forget n p = nat_erase p n"

lemma nat_create_eq_Some:
  "nat_create n k = Some (p, ev, n') \<longleftrightarrow>
     (\<exists>r. lookup_or_create n k = Some (r, n') \<and> p = lr_nat_port r \<and> ev = lr_evicted_nat_port r)"
  by (auto simp: nat_create_def)

interpretation nat_table: port_table nat_inv nat_create lookup_back nat_forget
proof (unfold_locales, goal_cases)
  case (1 n k p ev n')
  then show ?case by (auto simp: nat_create_eq_Some intro: nat_inv_lookup_or_create)
next
  case (2 n k p ev n' q)
  then show ?case by (auto simp: nat_create_eq_Some lookup_back_create)
next
  case (3 n p k)
  then show ?case by (auto simp: nat_create_eq_Some lookup_or_create_known)
next
  case (4 n k p ev n')
  then show ?case using lookup_or_create_port(2) [of n k] by (auto simp: nat_create_eq_Some)
next
  case (5 n p)
  then show ?case by (simp add: nat_forget_def nat_inv_erase)
next
  case (6 n p q)
  then show ?case by (simp add: nat_forget_def lookup_back_erase)
qed

abbreviation nat_run :: "tun_nat \<Rightarrow> (flow_key, u16) table_op list \<Rightarrow> (u16 list \<times> tun_nat) option" where
  "nat_run \<equiv> table_run nat_create nat_forget"

section \<open>Properties\<close>

text \<open>
  Whatever flows are looked up and whatever ports are erased, from an empty table on, the two
  maps of the table stay inverse to each other, its deque lists the ports in use exactly once, the
  ports lie in 10000..65535, and a limited table never exceeds its limit.
\<close>

theorem nat_reachable_inv:
  "nat_run (nat_init limit) ops = Some (gone, n) \<Longrightarrow> nat_inv n"
  by (rule nat_table.run_inv [OF nat_inv_init])

definition demo_flow :: "u16 \<Rightarrow> flow_key" where
  "demo_flow p = \<lparr>fk_src_ip = 0x0100000A, fk_src_port = p, fk_dst_ip = 0x08080808, fk_dst_port = 53\<rparr>"

lemma demo_flow_inj [simp]: "demo_flow p = demo_flow q \<longleftrightarrow> p = q"
  by (simp add: demo_flow_def)

lemma allocate_port_free: "nx \<noteq> 0 \<Longrightarrow> map_of tab nx = None \<Longrightarrow> allocate_port tab nx = Some (nx, nx + 1)"
  by (subst allocate_port.simps) simp

lemmas nat_eval = nat_create_def lookup_or_create_def make_room_def evict_one_locked_def
  touch_locked_def nat_erase_def nat_forget_def nat_init_def allocate_port_free Let_def

text \<open>A table with room for one flow: the second flow evicts the first.\<close>

lemma demo_run:
  "nat_run (nat_init 1) [Create (demo_flow 1), Create (demo_flow 2), Create (demo_flow 2)] =
     Some ([10000], \<lparr>next_port = 10002, max_sessions = 1, forward = [(demo_flow 2, 10001)],
       reverse = [(10001, demo_flow 2)], lru = [10001]\<rparr>)"
  by (simp add: nat_eval)

theorem nat_reachable_inv_witness:
  "nat_inv \<lparr>next_port = 10002, max_sessions = 1, forward = [(demo_flow 2, 10001)],
     reverse = [(10001, demo_flow 2)], lru = [10001]\<rparr>"
  by (rule nat_reachable_inv [OF demo_run])

text \<open>
  C11: the table is a least-recently-used cache: a known flow keeps its port and becomes the most
  recent entry, a new flow is appended with a port that is not in use, and a full table loses
  exactly the entry whose last use is oldest.
\<close>

theorem lookup_or_create_refines_cache:
  assumes inv: "nat_inv n" and call: "lookup_or_create n key = Some (r, n')"
  shows "cache_access (max_sessions n) key (lr_nat_port r) (cache_of n)
    = (lr_nat_port r, lr_evicted_nat_port r, cache_of n')"
  using inv call
proof (cases rule: lookup_or_create_cases)
  case (known p)
  then show ?thesis
    using find_cache_known [OF inv known(1)] cache_of_touch [OF inv known(1)]
    by (simp add: cache_access_def)
next
  case (fresh p ev n1)
  have "cache_of n' = cache_of n1 @ [(p, key)]"
    unfolding fresh(6) by (rule cache_of_add) (use fresh make_room_inv(1) [OF inv] in auto)
  then show ?thesis
    using find_cache_unknown [OF inv fresh(1)] cache_of_make_room [OF inv fresh(2)] fresh(5)
    by (auto simp: cache_access_def)
qed

text \<open>Two flows in a table for two; the older one is used again, so a third flow evicts the other.\<close>

definition demo_table :: tun_nat where
  "demo_table = \<lparr>next_port = 10002, max_sessions = 2,
     forward = [(demo_flow 1, 10000), (demo_flow 2, 10001)],
     reverse = [(10000, demo_flow 1), (10001, demo_flow 2)], lru = [10001, 10000]\<rparr>"

lemma demo_table_inv: "nat_inv demo_table"
proof -
  have "nat_run (nat_init 2) [Create (demo_flow 1), Create (demo_flow 2), Create (demo_flow 1)]
      = Some ([], demo_table)"
    by (simp add: nat_eval demo_table_def)
  then show ?thesis by (rule nat_table.run_inv [OF nat_inv_init])
qed

lemma demo_table_create:
  "lookup_or_create demo_table (demo_flow 3) =
     Some (\<lparr>lr_nat_port = 10002, lr_evicted_nat_port = Some 10001\<rparr>,
       \<lparr>next_port = 10003, max_sessions = 2,
        forward = [(demo_flow 1, 10000), (demo_flow 3, 10002)],
        reverse = [(10000, demo_flow 1), (10002, demo_flow 3)], lru = [10000, 10002]\<rparr>)"
  by (simp add: nat_eval demo_table_def)

theorem lookup_or_create_refines_cache_witness:
  "cache_access 2 (demo_flow 3) 10002 [(10001, demo_flow 2), (10000, demo_flow 1)]
     = (10002, Some 10001, [(10000, demo_flow 1), (10002, demo_flow 3)])"
  using lookup_or_create_refines_cache [OF demo_table_inv demo_table_create]
  by (simp add: demo_table_def cache_of_def)

text \<open>
  Address translation is stable: a port that belongs to a flow leads back to the same flow
  after any further traffic, as long as the port itself was not evicted or erased.
\<close>

theorem flow_keeps_port:
  assumes "nat_inv n" "nat_run n ops = Some (gone, m)" "lookup_back n p = Some key" "p \<notin> set gone"
  shows "lookup_back m p = Some key \<and> (\<exists>m'. nat_create m key = Some (p, None, m'))"
  using nat_table.run_keeps [OF assms] nat_table.run_inv [OF assms(1,2)]
    nat_table.create_known by blast

theorem flow_keeps_port_witness:
  "lookup_back demo_table 10000 = Some (demo_flow 1) \<and>
   (\<exists>m gone. nat_run demo_table [Create (demo_flow 3), Forget 10002] = Some (gone, m) \<and>
      lookup_back m 10000 = Some (demo_flow 1))"
proof -
  have owner: "lookup_back demo_table 10000 = Some (demo_flow 1)"
    by (simp add: demo_table_def lookup_back_def)
  obtain m where run: "nat_run demo_table [Create (demo_flow 3), Forget 10002] = Some ([10001, 10002], m)"
    by (simp add: nat_create_def demo_table_create)
  from flow_keeps_port [OF demo_table_inv run owner] owner run show ?thesis by auto
qed

text \<open>
  Looking a flow up in the limited table of the UDP side (1024 sessions) always returns, with a
  port from 10000 on: the table can never be without a free port.
\<close>

theorem limited_lookup_returns:
  assumes inv: "nat_inv n" and limit: "max_sessions n \<noteq> 0" "max_sessions n \<le> 55536"
  shows "\<exists>r n'. lookup_or_create n key = Some (r, n') \<and> 10000 \<le> unat (lr_nat_port r)"
  using limited_returns [OF assms, of key] lookup_or_create_port(1) [OF inv] by (auto simp: usable_def)

theorem limited_lookup_returns_witness:
  "\<exists>r n'. lookup_or_create (nat_init 1024) (demo_flow 7) = Some (r, n') \<and> 10000 \<le> unat (lr_nat_port r)"
  by (rule limited_lookup_returns [OF nat_inv_init]) (simp_all add: nat_init_def)

text \<open>
  C23: the table of the TCP side has no limit. A lookup there returns exactly when the flow is known
  or fewer than 55536 flows are open: with every port from 10000 on in use, the search for a port
  never ends (the code holds the table's mutex meanwhile).
\<close>

theorem unlimited_lookup_returns_iff:
  assumes inv: "nat_inv n" and nolimit: "max_sessions n = 0"
  shows "(\<exists>res. lookup_or_create n key = Some res) \<longleftrightarrow>
    map_of (forward n) key \<noteq> None \<or> length (reverse n) < 55536"
proof (cases "map_of (forward n) key")
  case None
  have mr: "make_room n = (None, n)" using nolimit by (simp add: make_room_def)
  show ?thesis
  proof (cases "length (reverse n) < 55536")
    case True
    then show ?thesis using lookup_or_create_returns [OF inv] mr by auto
  next
    case False
    then have "allocate_port (reverse n) (next_port n) = None"
      using full_table_no_port [OF inv] by simp
    then show ?thesis using None False mr by (simp add: lookup_or_create_def)
  qed
qed (simp add: lookup_or_create_def)

theorem unlimited_lookup_returns_iff_witness:
  "\<exists>res. lookup_or_create (nat_init 0) (demo_flow 7) = Some res"
  using unlimited_lookup_returns_iff [OF nat_inv_init [of 0]] by (simp add: nat_init_def)

end
