(* ===== verification/Tun_Checksum.thy ===== *)
theory Tun_Checksum
  imports Utils
begin

text \<open>
  \<open>src/inbound/tun_checksum.cpp\<close>: the Internet checksum and the three routines that recompute
  the checksum of an IPv4 header, a TCP segment and a UDP datagram in place. The sum is a 32-bit
  word, as in the code; the in-place routines work on one buffer and offsets into it.
\<close>

section \<open>The sum and its folding\<close>

text \<open>
  The first loop adds the big-endian 16-bit words of the data, the last one padded with a zero
  byte, to a \<open>std::uint32_t\<close>.
\<close>

fun sum_words :: "u32 \<Rightarrow> bytes \<Rightarrow> u32" where
  "sum_words acc (a # b # rest) = sum_words (acc + ucast (be16 a b)) rest"
| "sum_words acc [a] = acc + ucast (be16 a 0)"
| "sum_words acc [] = acc"

text \<open>The second loop: \<open>while (sum >> 16) sum = (sum & 0xffff) + (sum >> 16)\<close>.\<close>

lemma unat_and_ffff: "unat (s AND 0xffff :: u32) = unat s mod 65536"
proof -
  have "(0xffff :: u32) = mask 16" by (simp add: mask_eq_exp_minus_1)
  then have "s AND 0xffff = s mod 2 ^ 16" by (simp only: take_bit_eq_mod flip: take_bit_eq_mask)
  then show ?thesis by (simp add: unat_mod)
qed

lemma unat_drop_16: "unat (drop_bit 16 (s :: u32)) = unat s div 65536"
  by (simp only: unat_drop_bit_eq drop_bit_eq_div [where 'a = nat]) simp

lemma drop_16_eq_0: "drop_bit 16 (s :: u32) = 0 \<longleftrightarrow> unat s div 65536 = 0"
  unfolding unat_drop_16 [symmetric] by (simp only: unat_eq_zero)

lemma unat_fold_step:
  fixes s :: u32
  shows "unat ((s AND 0xffff) + drop_bit 16 s) = unat s mod 65536 + unat s div 65536"
proof -
  have "unat s < 4294967296" using unsigned_less [of s, where ?'a = nat] by simp
  then have "unat s div 65536 < 65536" by (simp add: less_mult_imp_div_less)
  moreover have "unat s mod 65536 < 65536" by simp
  ultimately show ?thesis
    by (simp only: unat_word_ariths unat_and_ffff unat_drop_16) simp
qed

function fold_carry :: "u32 \<Rightarrow> u32" where
  "fold_carry acc =
     (if drop_bit 16 acc \<noteq> 0 then fold_carry ((acc AND 0xffff) + drop_bit 16 acc) else acc)"
  by pat_completeness auto
termination
proof (relation "measure unat")
  fix s :: u32
  assume "drop_bit 16 s \<noteq> 0"
  then have "unat s div 65536 \<noteq> 0" by (simp only: drop_16_eq_0) simp
  moreover have "unat s = 65536 * (unat s div 65536) + unat s mod 65536" by simp
  ultimately have "unat s mod 65536 + unat s div 65536 < unat s" by linarith
  then show "((s AND 0xffff) + drop_bit 16 s, s) \<in> measure unat"
    by (simp add: unat_fold_step)
qed simp

declare fold_carry.simps [simp del]

definition checksum :: "bytes \<Rightarrow> u16" where
  "checksum data = ucast (NOT (fold_carry (sum_words 0 data)))"

section \<open>The value of the checksum\<close>

text \<open>The same sum as a natural number, which does not wrap around.\<close>

fun nat_sum :: "bytes \<Rightarrow> nat" where
  "nat_sum (a # b # rest) = unat (be16 a b) + nat_sum rest"
| "nat_sum [a] = unat (be16 a 0)"
| "nat_sum [] = 0"

lemma u16_less: "unat (v :: u16) < 65536"
  using unsigned_less [of v, where ?'a = nat] by simp

lemma nat_sum_bound: "nat_sum data \<le> 65535 * ((length data + 1) div 2)"
proof (induction data rule: nat_sum.induct)
  case (1 a b rest)
  then show ?case using u16_less [of "be16 a b"] by simp
next
  case (2 a)
  then show ?case using u16_less [of "be16 a 0"] by simp
qed simp

lemma nat_sum_append: "even (length xs) \<Longrightarrow> nat_sum (xs @ ys) = nat_sum xs + nat_sum ys"
  by (induction xs rule: nat_sum.induct) auto

lemma unat_sum_words:
  "unat acc + nat_sum data < 2 ^ 32 \<Longrightarrow> unat (sum_words acc data) = unat acc + nat_sum data"
proof (induction acc data rule: sum_words.induct)
  case (1 acc a b rest)
  have "unat (acc + ucast (be16 a b)) = unat acc + unat (be16 a b)"
    using "1.prems" u16_less [of "be16 a b"]
    by (simp add: unat_word_ariths unsigned_ucast_eq take_bit_eq_mod)
  with 1 show ?case by simp
next
  case (2 acc a)
  then show ?case
    using u16_less [of "be16 a 0"] by (simp add: unat_word_ariths unsigned_ucast_eq take_bit_eq_mod)
qed simp

text \<open>
  Folding the carries computes the residue of the sum modulo 65535, with 65535 standing for a
  non-zero multiple.
\<close>

definition ones_residue :: "nat \<Rightarrow> nat" where
  "ones_residue s = (if s = 0 then 0 else (s - 1) mod 65535 + 1)"

lemma ones_residue_less: "ones_residue s \<le> 65535"
  by (simp add: ones_residue_def Suc_le_eq)

lemma ones_residue_small: "s < 65536 \<Longrightarrow> ones_residue s = s"
  by (auto simp: ones_residue_def)

lemma ones_residue_step: "ones_residue (s mod 65536 + s div 65536) = ones_residue s"
proof (cases "s = 0")
  case False
  define q r where "q = s div 65536" and "r = s mod 65536"
  have s: "s = 65536 * q + r" by (simp add: q_def r_def)
  have pos: "0 < r + q" using False s by auto
  have "s - 1 = (r + q - 1) + 65535 * q" using s pos by simp
  then have "(s - 1) mod 65535 = (r + q - 1) mod 65535" by simp
  with False pos show ?thesis by (simp add: ones_residue_def q_def r_def)
qed simp

lemma unat_fold_carry: "unat (fold_carry s) = ones_residue (unat s)"
proof (induction s rule: fold_carry.induct)
  case (1 s)
  show ?case
  proof (cases "drop_bit 16 s = 0")
    case True
    then have "unat s < 65536" by (simp only: drop_16_eq_0 div_eq_0_iff) simp
    with True show ?thesis by (subst fold_carry.simps) (simp add: ones_residue_small)
  next
    case False
    with 1 show ?thesis
      by (subst fold_carry.simps) (simp add: unat_fold_step ones_residue_step)
  qed
qed

lemma unat_checksum:
  assumes "length data \<le> 131072"
  shows "unat (checksum data) = 65535 - ones_residue (nat_sum data)"
proof -
  have "(length data + 1) div 2 \<le> 65536" using assms by simp
  then have "nat_sum data < 2 ^ 32" using nat_sum_bound [of data] by simp
  then have sum: "unat (sum_words 0 data) = nat_sum data" by (simp add: unat_sum_words)
  define f where "f = fold_carry (sum_words 0 data)"
  have f: "unat f = ones_residue (nat_sum data)" by (simp add: f_def unat_fold_carry sum)
  then have "unat f < 65536" using ones_residue_less [of "nat_sum data"] by simp
  then have "unat (ucast f :: u16) = unat f" by (simp add: unsigned_ucast_eq take_bit_eq_mod)
  moreover have "checksum data = NOT (ucast f)"
    unfolding checksum_def f_def by (rule bit_word_eqI) (simp add: bit_simps)
  moreover have "unat (NOT w) = 65535 - unat w" for w :: u16
  proof -
    have "NOT w = 65535 - w" by (simp add: not_eq_complement)
    moreover have "w \<le> 65535" using u16_less [of w] by (simp add: word_le_nat_alt)
    ultimately show ?thesis by (simp add: unat_sub)
  qed
  ultimately show ?thesis using f by simp
qed

section \<open>The routines that write the checksum\<close>

text \<open>The number of bytes of an IPv4 header: \<open>(ip[0] & 0x0f) * 4\<close>, at most 60.\<close>

definition ihl_bytes :: "byte \<Rightarrow> nat" where
  "ihl_bytes b = unat ((b AND 0x0f) * 4)"

definition recalc_ipv4_checksum :: "bytes \<Rightarrow> nat \<Rightarrow> bytes res" where
  "recalc_ipv4_checksum buf ip =
     bindE (poke8 buf (ip + 10) 0) (\<lambda>buf.
     bindE (poke8 buf (ip + 11) 0) (\<lambda>buf.
     bindE (peek8 buf ip) (\<lambda>b0.
     bindE (span_at buf ip (ihl_bytes b0)) (\<lambda>header.
     let v = checksum header
     in bindE (poke8 buf (ip + 10) (hi8 v)) (\<lambda>buf.
        poke8 buf (ip + 11) (lo8 v))))))"

text \<open>The pseudo header: the two addresses, a zero byte, the protocol and the length.\<close>

definition pseudo_packet :: "bytes \<Rightarrow> nat \<Rightarrow> byte \<Rightarrow> nat \<Rightarrow> nat \<Rightarrow> bytes res" where
  "pseudo_packet buf ip proto p len =
     bindE (span_at buf (ip + 12) 8) (\<lambda>addresses.
     bindE (span_at buf p len) (\<lambda>segment.
     Inr (addresses @ [0] @ [proto] @ [word_of_nat (drop_bit 8 len)] @ [word_of_nat len] @ segment)))"

definition recalc_tcp_checksum :: "bytes \<Rightarrow> nat \<Rightarrow> nat \<Rightarrow> nat \<Rightarrow> bytes res" where
  "recalc_tcp_checksum buf ip tcp tcp_len =
     bindE (poke8 buf (tcp + 16) 0) (\<lambda>buf.
     bindE (poke8 buf (tcp + 17) 0) (\<lambda>buf.
     bindE (pseudo_packet buf ip 6 tcp tcp_len) (\<lambda>pseudo.
     let v = checksum pseudo
     in bindE (poke8 buf (tcp + 16) (hi8 v)) (\<lambda>buf.
        poke8 buf (tcp + 17) (lo8 v)))))"

definition recalc_udp_checksum :: "bytes \<Rightarrow> nat \<Rightarrow> nat \<Rightarrow> nat \<Rightarrow> bytes res" where
  "recalc_udp_checksum buf ip udp udp_len =
     bindE (poke8 buf (udp + 6) 0) (\<lambda>buf.
     bindE (poke8 buf (udp + 7) 0) (\<lambda>buf.
     bindE (pseudo_packet buf ip 17 udp udp_len) (\<lambda>pseudo.
     let v = checksum pseudo;
         v = (if v = 0 then 0xffff else v)
     in bindE (poke8 buf (udp + 6) (hi8 v)) (\<lambda>buf.
        poke8 buf (udp + 7) (lo8 v)))))"

section \<open>A patched field makes the checksum zero\<close>

text \<open>\<open>put16 d p v\<close> is the buffer \<open>d\<close> with the word \<open>v\<close> at \<open>p\<close>.\<close>

definition put16 :: "bytes \<Rightarrow> nat \<Rightarrow> u16 \<Rightarrow> bytes" where
  "put16 d p v = d[p := hi8 v, Suc p := lo8 v]"

lemma length_put16 [simp]: "length (put16 d p v) = length d"
  by (simp add: put16_def)

lemma put16_eq_Nil [simp]: "put16 d p v = [] \<longleftrightarrow> d = []"
  by (simp add: put16_def)

lemma nth_put16: "i < length d \<Longrightarrow>
    put16 d p v ! i = (if i = p then hi8 v else if i = Suc p then lo8 v else d ! i)"
  by (simp add: put16_def nth_list_update)

lemma put16_put16 [simp]: "put16 (put16 d p v) p w = put16 d p w"
  by (rule nth_equalityI) (auto simp: nth_put16)

lemma split_word: "Suc p < length d \<Longrightarrow> d = take p d @ d ! p # d ! Suc p # drop (p + 2) d"
  by (metis Cons_nth_drop_Suc Suc_lessD add_2_eq_Suc' append_take_drop_id)

lemma put16_split: "Suc p < length d \<Longrightarrow> put16 d p v = take p d @ hi8 v # lo8 v # drop (p + 2) d"
  by (subst split_word [of p d], simp)
    (simp add: put16_def list_update_append min_def nat_less_le)

lemma nat_sum_put16:
  assumes "even p" "Suc p < length d"
  shows "nat_sum (put16 d p v) = nat_sum (put16 d p 0) + unat v"
  using assms by (simp add: put16_split nat_sum_append min_def)

lemma ones_residue_complement: "ones_residue (s + (65535 - ones_residue s)) = 65535"
proof (cases "s = 0")
  case False
  define k where "k = (s - 1) div 65535"
  have "s = 65535 * k + ones_residue s" using False by (simp add: ones_residue_def k_def)
  then have "s + (65535 - ones_residue s) = 65535 * (k + 1)" using ones_residue_less [of s] by simp
  then have "s + (65535 - ones_residue s) - 1 = 65534 + 65535 * k" by simp
  then have "(s + (65535 - ones_residue s) - 1) mod 65535 = 65534" by simp
  with False show ?thesis by (simp add: ones_residue_def)
qed (simp add: ones_residue_def)

lemma ones_residue_multiple: "ones_residue s = 65535 \<Longrightarrow> ones_residue (s + 65535) = 65535"
proof -
  assume r: "ones_residue s = 65535"
  then have s: "s \<noteq> 0" "(s - 1) mod 65535 = 65534" by (auto simp: ones_residue_def split: if_splits)
  then have "s + 65535 - 1 = (s - 1) + 65535" by simp
  then have "(s + 65535 - 1) mod 65535 = 65534" using s(2) by (metis mod_add_self2)
  then show ?thesis by (simp add: ones_residue_def)
qed

lemma checksum_zero_iff:
  "length d \<le> 131072 \<Longrightarrow> checksum d = 0 \<longleftrightarrow> ones_residue (nat_sum d) = 65535"
  using unat_checksum [of d] ones_residue_less [of "nat_sum d"]
  by (auto simp: unat_eq_zero [symmetric])

lemma checksum_patch:
  assumes "even p" "Suc p < length d" "length d \<le> 131072"
  shows "checksum (put16 d p (checksum (put16 d p 0))) = 0"
  using assms ones_residue_complement
  by (simp add: checksum_zero_iff nat_sum_put16 [of p d "checksum (put16 d p 0)"] unat_checksum)

lemma checksum_patch_nonzero:
  assumes "even p" "Suc p < length d" "length d \<le> 131072"
  shows "checksum (put16 d p (if checksum (put16 d p 0) = 0 then 0xffff else checksum (put16 d p 0))) = 0"
proof (cases "checksum (put16 d p 0) = 0")
  case True
  then show ?thesis
    using assms ones_residue_multiple
    by (simp add: checksum_zero_iff nat_sum_put16 [of p d "0xffff"])
next
  case False
  then show ?thesis using checksum_patch [OF assms] by simp
qed

section \<open>What the routines do\<close>

lemma hi8_lo8_0 [simp]: "hi8 0 = 0" "lo8 0 = 0"
  by (simp_all add: hi8_def lo8_def)

lemma take_put16: "take n (put16 d p v) = put16 (take n d) p v"
  by (simp add: put16_def take_update_swap)

lemma poke_pair:
  "q = Suc p \<Longrightarrow> q < length d \<Longrightarrow>
     bindE (poke8 d p (hi8 v)) (\<lambda>d. poke8 d q (lo8 v)) = Inr (put16 d p v)"
  by (simp add: poke8_def put16_def)

lemma poke_zeros:
  "q = Suc p \<Longrightarrow> q < length d \<Longrightarrow>
     bindE (poke8 d p 0) (\<lambda>d. bindE (poke8 d q 0) f) = f (put16 d p 0)"
  by (simp add: poke8_def put16_def)

lemma recalc_ipv4_eq:
  assumes "12 \<le> ihl_bytes (buf ! 0)" "ihl_bytes (buf ! 0) \<le> length buf"
  shows "recalc_ipv4_checksum buf 0
    = Inr (put16 buf 10 (checksum (put16 (take (ihl_bytes (buf ! 0)) buf) 10 0)))"
proof -
  have "12 \<le> length buf" using assms by linarith
  then have "buf \<noteq> []" "put16 buf 10 0 ! 0 = buf ! 0" by (auto simp: put16_def)
  then show ?thesis
    using assms \<open>12 \<le> length buf\<close>
    by (simp add: poke_zeros poke_pair recalc_ipv4_checksum_def peek8_def span_at_def Let_def take_put16)
qed

text \<open>The pseudo packet of a segment that lies inside the buffer.\<close>

definition pseudo_of :: "bytes \<Rightarrow> byte \<Rightarrow> nat \<Rightarrow> nat \<Rightarrow> bytes" where
  "pseudo_of buf proto p len =
     take 8 (drop 12 buf) @ [0, proto, word_of_nat (drop_bit 8 len), word_of_nat len] @ take len (drop p buf)"

lemma length_pseudo_of:
  "20 \<le> length buf \<Longrightarrow> p + len \<le> length buf \<Longrightarrow> length (pseudo_of buf proto p len) = 12 + len"
  by (simp add: pseudo_of_def)

lemma pseudo_packet_eq:
  "20 \<le> length buf \<Longrightarrow> p + len \<le> length buf \<Longrightarrow>
     pseudo_packet buf 0 proto p len = Inr (pseudo_of buf proto p len)"
  by (simp add: pseudo_packet_def span_at_def pseudo_of_def)

lemma pseudo_of_put16:
  assumes "Suc f < len" "p + len \<le> length buf" "20 \<le> p + f"
  shows "pseudo_of (put16 buf (p + f) v) proto p len = put16 (pseudo_of buf proto p len) (12 + f) v"
proof -
  have "take 8 (drop 12 (put16 buf (p + f) v)) = take 8 (drop 12 buf)"
    using assms by (simp add: put16_def drop_update_swap)
  moreover have "take len (drop p (put16 buf (p + f) v)) = put16 (take len (drop p buf)) f v"
    using assms by (simp add: put16_def drop_update_swap take_update_swap)
  moreover have "length (take 8 (drop 12 buf)) = 8" using assms by simp
  ultimately show ?thesis
    by (simp add: pseudo_of_def put16_def list_update_append)
qed

lemma recalc_tcp_eq:
  assumes "18 \<le> len" "p + len \<le> length buf" "4 \<le> p"
  shows "recalc_tcp_checksum buf 0 p len
    = Inr (put16 buf (p + 16) (checksum (put16 (pseudo_of buf 6 p len) 28 0)))"
  using assms pseudo_of_put16 [of 16 len p buf 0 6]
  by (simp add: poke_zeros poke_pair recalc_tcp_checksum_def pseudo_packet_eq Let_def)

lemma recalc_udp_eq:
  assumes "8 \<le> len" "p + len \<le> length buf" "14 \<le> p"
  shows "recalc_udp_checksum buf 0 p len
    = Inr (put16 buf (p + 6)
        (let v = checksum (put16 (pseudo_of buf 17 p len) 18 0) in if v = 0 then 0xffff else v))"
  using assms pseudo_of_put16 [of 6 len p buf 0 17]
  by (simp add: poke_zeros poke_pair recalc_udp_checksum_def pseudo_packet_eq Let_def)

lemma recalc_ipv4_verifies:
  assumes "12 \<le> ihl_bytes (buf ! 0)" "ihl_bytes (buf ! 0) \<le> length buf"
  shows "\<exists>buf'. recalc_ipv4_checksum buf 0 = Inr buf' \<and>
    checksum (take (ihl_bytes (buf' ! 0)) buf') = 0 \<and> length buf' = length buf \<and>
    (\<forall>i. i \<noteq> 10 \<and> i \<noteq> 11 \<longrightarrow> buf' ! i = buf ! i)"
proof -
  let ?h = "take (ihl_bytes (buf ! 0)) buf"
  let ?buf = "put16 buf 10 (checksum (put16 ?h 10 0))"
  have "ihl_bytes (buf ! 0) < 256"
    using byte_less [of "(buf ! 0 AND 0x0f) * 4"] by (simp add: ihl_bytes_def)
  then have "checksum (put16 ?h 10 (checksum (put16 ?h 10 0))) = 0"
    using assms by (intro checksum_patch) auto
  moreover have "?buf ! 0 = buf ! 0" by (simp add: put16_def)
  moreover have "\<forall>i. i \<noteq> 10 \<and> i \<noteq> 11 \<longrightarrow> ?buf ! i = buf ! i" by (simp add: put16_def)
  ultimately show ?thesis using recalc_ipv4_eq [OF assms] by (simp add: take_put16)
qed

lemma recalc_tcp_verifies:
  assumes "18 \<le> len" "len < 65536" "tcp + len \<le> length buf" "4 \<le> tcp"
  shows "\<exists>buf'. recalc_tcp_checksum buf 0 tcp len = Inr buf' \<and>
    pseudo_packet buf' 0 6 tcp len = Inr (pseudo_of buf' 6 tcp len) \<and>
    checksum (pseudo_of buf' 6 tcp len) = 0 \<and> length buf' = length buf \<and>
    (\<forall>i. i \<noteq> tcp + 16 \<and> i \<noteq> tcp + 17 \<longrightarrow> buf' ! i = buf ! i)"
proof -
  let ?d = "pseudo_of buf 6 tcp len"
  let ?v = "checksum (put16 ?d 28 0)"
  let ?buf = "put16 buf (tcp + 16) ?v"
  have "checksum (put16 ?d 28 ?v) = 0"
    using assms by (intro checksum_patch) (auto simp: length_pseudo_of)
  then have "checksum (pseudo_of ?buf 6 tcp len) = 0"
    using assms pseudo_of_put16 [of 16 len tcp buf ?v 6] by simp
  moreover have "\<forall>i. i \<noteq> tcp + 16 \<and> i \<noteq> tcp + 17 \<longrightarrow> ?buf ! i = buf ! i" by (simp add: put16_def)
  ultimately show ?thesis
    using assms recalc_tcp_eq [of len tcp buf] by (simp add: pseudo_packet_eq)
qed

lemma recalc_udp_verifies:
  assumes "8 \<le> len" "len < 65536" "udp + len \<le> length buf" "14 \<le> udp"
  shows "\<exists>buf'. recalc_udp_checksum buf 0 udp len = Inr buf' \<and>
    checksum (pseudo_of buf' 17 udp len) = 0 \<and> be16 (buf' ! (udp + 6)) (buf' ! (udp + 7)) \<noteq> 0 \<and>
    length buf' = length buf \<and> (\<forall>i. i \<noteq> udp + 6 \<and> i \<noteq> udp + 7 \<longrightarrow> buf' ! i = buf ! i)"
proof -
  let ?d = "pseudo_of buf 17 udp len"
  let ?v = "if checksum (put16 ?d 18 0) = 0 then 0xffff else checksum (put16 ?d 18 0)"
  let ?buf = "put16 buf (udp + 6) ?v"
  have "checksum (put16 ?d 18 ?v) = 0"
    using assms by (intro checksum_patch_nonzero) (auto simp: length_pseudo_of)
  then have "checksum (pseudo_of ?buf 17 udp len) = 0"
    using assms pseudo_of_put16 [of 6 len udp buf ?v 17] by simp
  moreover have "be16 (?buf ! (udp + 6)) (?buf ! (udp + 7)) = ?v"
    using assms by (simp add: nth_put16)
  moreover have "?v \<noteq> 0" by simp
  moreover have "\<forall>i. i \<noteq> udp + 6 \<and> i \<noteq> udp + 7 \<longrightarrow> ?buf ! i = buf ! i" by (simp add: put16_def)
  ultimately show ?thesis
    using assms recalc_udp_eq [of len udp buf] by (simp add: Let_def)
qed

section \<open>Properties\<close>

text \<open>
  C24: the one's complement checksum: on any packet the program can hold (up to 128 KiB) the
  32-bit accumulator does not wrap around, and the result is 65535 minus the residue of the sum of
  the 16-bit words modulo 65535.
\<close>

theorem checksum_ones_complement:
  "length data \<le> 131072 \<Longrightarrow>
     unat (checksum data) = (if nat_sum data = 0 then 65535 else 65534 - (nat_sum data - 1) mod 65535)"
  by (simp add: unat_checksum ones_residue_def)

theorem checksum_ones_complement_witness: "unat (checksum [0x45, 0x00, 0xff, 0xff, 0x01]) = 47615"
  using checksum_ones_complement [of "[0x45, 0x00, 0xff, 0xff, 0x01]"] by (simp add: unat_be16)

text \<open>
  After \<open>recalc_ipv4_checksum\<close> the header verifies (its checksum over the header length
  it states is 0), and no byte outside the checksum field has changed.
\<close>

theorem ipv4_checksum_verifies:
  assumes "12 \<le> ihl_bytes (buf ! 0)" "ihl_bytes (buf ! 0) \<le> length buf"
  shows "\<exists>buf'. recalc_ipv4_checksum buf 0 = Inr buf' \<and>
    checksum (take (ihl_bytes (buf' ! 0)) buf') = 0 \<and> length buf' = length buf \<and>
    (\<forall>i. i \<noteq> 10 \<and> i \<noteq> 11 \<longrightarrow> buf' ! i = buf ! i)"
  by (rule recalc_ipv4_verifies [OF assms])

definition demo_header :: bytes where
  "demo_header = [0x45, 0, 0, 20, 0, 0, 0, 0, 64, 6, 0xab, 0xcd, 10, 0, 0, 1, 8, 8, 8, 8]"

lemma demo_header_ihl: "ihl_bytes (demo_header ! 0) = 20"
  by (simp add: ihl_bytes_def demo_header_def)

theorem ipv4_checksum_verifies_witness:
  "\<exists>buf'. recalc_ipv4_checksum demo_header 0 = Inr buf' \<and> checksum (take 20 buf') = 0"
proof -
  obtain buf' where "recalc_ipv4_checksum demo_header 0 = Inr buf'"
    "checksum (take (ihl_bytes (buf' ! 0)) buf') = 0" "\<forall>i. i \<noteq> 10 \<and> i \<noteq> 11 \<longrightarrow> buf' ! i = demo_header ! i"
    using ipv4_checksum_verifies [of demo_header] demo_header_ihl by (auto simp: demo_header_def)
  then show ?thesis using demo_header_ihl by simp
qed

text \<open>
  After \<open>recalc_tcp_checksum\<close> the segment verifies against the pseudo header of the packet it
  is in, as long as the segment does not overlap the addresses, and nothing else has changed.
\<close>

theorem tcp_checksum_verifies:
  assumes "18 \<le> len" "len < 65536" "tcp + len \<le> length buf" "4 \<le> tcp"
  shows "\<exists>buf'. recalc_tcp_checksum buf 0 tcp len = Inr buf' \<and>
    pseudo_packet buf' 0 6 tcp len = Inr (pseudo_of buf' 6 tcp len) \<and>
    checksum (pseudo_of buf' 6 tcp len) = 0 \<and> length buf' = length buf \<and>
    (\<forall>i. i \<noteq> tcp + 16 \<and> i \<noteq> tcp + 17 \<longrightarrow> buf' ! i = buf ! i)"
  by (rule recalc_tcp_verifies [OF assms])

theorem tcp_checksum_verifies_witness:
  "\<exists>buf'. recalc_tcp_checksum (demo_header @ replicate 20 7) 0 20 20 = Inr buf' \<and>
     checksum (pseudo_of buf' 6 20 20) = 0"
  using tcp_checksum_verifies [of 20 20 "demo_header @ replicate 20 7"] by (auto simp: demo_header_def)

text \<open>
  After \<open>recalc_udp_checksum\<close> the datagram verifies too, and its checksum field is never 0,
  the value that would say "no checksum".
\<close>

theorem udp_checksum_verifies:
  assumes "8 \<le> len" "len < 65536" "udp + len \<le> length buf" "14 \<le> udp"
  shows "\<exists>buf'. recalc_udp_checksum buf 0 udp len = Inr buf' \<and>
    checksum (pseudo_of buf' 17 udp len) = 0 \<and> be16 (buf' ! (udp + 6)) (buf' ! (udp + 7)) \<noteq> 0 \<and>
    length buf' = length buf \<and> (\<forall>i. i \<noteq> udp + 6 \<and> i \<noteq> udp + 7 \<longrightarrow> buf' ! i = buf ! i)"
  by (rule recalc_udp_verifies [OF assms])

theorem udp_checksum_verifies_witness:
  "\<exists>buf'. recalc_udp_checksum (demo_header @ replicate 12 7) 0 20 12 = Inr buf' \<and>
     checksum (pseudo_of buf' 17 20 12) = 0 \<and> be16 (buf' ! 26) (buf' ! 27) \<noteq> 0"
  using udp_checksum_verifies [of 12 20 "demo_header @ replicate 12 7"] by (auto simp: demo_header_def)

end
