(* ===== verification/Dns_Message.thy ===== *)
theory Dns_Message
  imports Utils Cstring
begin

text \<open>
  \<open>src/dns/dns_message.hpp\<close> and \<open>dns_message.cpp\<close>: reading compressed names, building a query,
  parsing a question and a response. An offset passed by reference is an argument and a component
  of the result; a size fits in \<open>std::size_t\<close>, so no sum of an offset and a length wraps around.
\<close>

section \<open>Types\<close>

text \<open>
  \<open>enum class QueryType : std::uint16_t\<close>: the code casts any 16-bit number to it, so a value of
  the type is a number, of which three have a name.
\<close>

type_synonym query_type = u16

abbreviation QT_A :: query_type where "QT_A \<equiv> 1"
abbreviation QT_CNAME :: query_type where "QT_CNAME \<equiv> 5"
abbreviation QT_AAAA :: query_type where "QT_AAAA \<equiv> 28"

record dns_record =
  rec_name :: string
  rec_type :: query_type
  rec_value :: string
  rec_ttl :: u32

record dns_question =
  q_name :: string
  q_type :: query_type

text \<open>The default message of the bounds-checked readers in \<open>src/core/utils.hpp\<close>.\<close>

abbreviation truncated :: string where
  "truncated \<equiv> ''truncated packet''"

section \<open>Names\<close>

text \<open>
  The loop of \<open>read_name\<close>. The recursive call it makes at a compression pointer is the argument
  \<open>jump\<close>, from the pointer to the suffix.
\<close>

function name_loop :: "(nat \<Rightarrow> string res) \<Rightarrow> bytes \<Rightarrow> nat \<Rightarrow> string \<Rightarrow> (string \<times> nat) res" where
  "name_loop jump data offset name =
     (if length data \<le> offset then Inl (RuntimeError ''truncated dns packet'')
      else
        let len = data ! offset; offset1 = offset + 1
        in if len = 0 then Inr (name, offset1)
           else if len AND 0xc0 = 0xc0 then
             (if length data \<le> offset1 then Inl (RuntimeError ''truncated dns compression pointer'')
              else
                let pointer = unat (be16 (len AND 0x3f) (data ! offset1)); offset2 = offset1 + 1
                in bindE (jump pointer) (\<lambda>suffix.
                   let name1 = (if name \<noteq> [] \<and> suffix \<noteq> [] then name @ ''.'' else name)
                   in Inr (name1 @ suffix, offset2)))
           else if len AND 0xc0 \<noteq> 0 then Inl (RuntimeError ''unsupported dns label type'')
           else if length data < offset1 + unat len then Inl (RuntimeError ''truncated dns label'')
           else
             let name1 = (if name \<noteq> [] then name @ ''.'' else name);
                 name2 = name1 @ map chr (take (unat len) (drop offset1 data))
             in name_loop jump data (offset1 + unat len) name2)"
  by pat_completeness auto
termination
  by (relation "measure (\<lambda>(jump, data, offset, name). length data - offset)") auto

declare name_loop.simps [simp del]

function read_name :: "bytes \<Rightarrow> nat \<Rightarrow> nat \<Rightarrow> (string \<times> nat) res" where
  "read_name data offset depth =
     (if 16 < depth then Inl (RuntimeError ''dns name compression loop'')
      else name_loop (\<lambda>p. bindE (read_name data p (depth + 1)) (\<lambda>(suffix, _). Inr suffix))
             data offset [])"
  by pat_completeness auto
termination
  by (relation "measure (\<lambda>(data, offset, depth). 17 - depth)") auto

declare read_name.simps [simp del]

definition skip_question :: "bytes \<Rightarrow> nat \<Rightarrow> nat res" where
  "skip_question data offset =
     bindE (read_name data offset 0) (\<lambda>(_, offset).
     if length data < offset + 4 then Inl (RuntimeError ''truncated dns question'')
     else Inr (offset + 4))"

section \<open>Addresses in records\<close>

definition ipv4_text :: "bytes \<Rightarrow> string res" where
  "ipv4_text rdata =
     (if length rdata \<noteq> 4 then Inl (RuntimeError ''invalid A record length'')
      else Inr (show_dec (unat (rdata ! 0)) @ ''.'' @ show_dec (unat (rdata ! 1)) @ ''.'' @
                show_dec (unat (rdata ! 2)) @ ''.'' @ show_dec (unat (rdata ! 3))))"

text \<open>The loop \<open>for (i = 0; i < 16; i += 2)\<close>; \<open>fuel\<close> counts the rounds that are left.\<close>

fun ipv6_groups :: "bytes \<Rightarrow> nat \<Rightarrow> nat \<Rightarrow> string \<Rightarrow> string" where
  "ipv6_groups rdata 0 i result = result"
| "ipv6_groups rdata (Suc fuel) i result =
     (let result1 = (if i \<noteq> 0 then result @ '':'' else result);
          part = be16 (rdata ! i) (rdata ! (i + 1))
      in ipv6_groups rdata fuel (i + 2) (result1 @ show_hex (unat part)))"

definition ipv6_text :: "bytes \<Rightarrow> string res" where
  "ipv6_text rdata =
     (if length rdata \<noteq> 16 then Inl (RuntimeError ''invalid AAAA record length'')
      else Inr (ipv6_groups rdata 8 0 []))"

section \<open>Query types\<close>

definition parse_query_type :: "string \<Rightarrow> query_type res" where
  "parse_query_type text =
     (if text = ''a'' \<or> text = ''A'' then Inr QT_A
      else if text = ''aaaa'' \<or> text = ''AAAA'' then Inr QT_AAAA
      else if text = ''cname'' \<or> text = ''CNAME'' then Inr QT_CNAME
      else Inl (RuntimeError ''query type must be A, AAAA, or CNAME''))"

definition query_type_name :: "query_type \<Rightarrow> string" where
  "query_type_name t =
     (if t = QT_A then ''A'' else if t = QT_AAAA then ''AAAA''
      else if t = QT_CNAME then ''CNAME'' else show_dec (unat t))"

section \<open>Questions and queries\<close>

definition parse_question :: "bytes \<Rightarrow> dns_question res" where
  "parse_question packet =
     (if length packet < 12 then Inl (RuntimeError ''dns request too short'')
      else bindE (read_be16 packet 4 truncated) (\<lambda>qdcount.
        if qdcount = 0 then Inl (RuntimeError ''dns request has no question'')
        else bindE (read_name packet 12 0) (\<lambda>(name, offset).
          if length packet < offset + 4 then Inl (RuntimeError ''truncated dns question'')
          else bindE (read_be16 packet offset truncated) (\<lambda>type_raw.
            Inr \<lparr>q_name = name, q_type = type_raw\<rparr>))))"

lemma find_char_ge: "find_char s c start = Some d \<Longrightarrow> start \<le> d \<and> d < length s"
  by (auto simp: find_char_def dest: index_of_split)

text \<open>The loop of \<open>build_query\<close> over the labels of the domain.\<close>

function query_labels :: "string \<Rightarrow> nat \<Rightarrow> bytes \<Rightarrow> bytes res" where
  "query_labels domain start packet =
     (if start < length domain then
        let dot = find_char domain (CHR ''.'') start;
            stop = (case dot of None \<Rightarrow> length domain | Some d \<Rightarrow> d);
            len = stop - start
        in if len = 0 \<or> 63 < len then Inl (RuntimeError ''invalid domain label'')
           else
             let packet1 = packet @ [word_of_nat len] @ map ord (take len (drop start domain))
             in case dot of None \<Rightarrow> Inr packet1 | Some d \<Rightarrow> query_labels domain (d + 1) packet1
      else Inr packet)"
  by pat_completeness auto
termination
  by (relation "measure (\<lambda>(domain, start, packet). length domain - start)")
    (auto dest!: find_char_ge [OF sym])

declare query_labels.simps [simp del]

definition build_query :: "string \<Rightarrow> query_type \<Rightarrow> bytes res" where
  "build_query domain type =
     (let packet = push_be16 [] 0x1234;
          packet = push_be16 packet 0x0100;
          packet = push_be16 packet 1;
          packet = push_be16 packet 0;
          packet = push_be16 packet 0;
          packet = push_be16 packet 0
      in bindE (query_labels domain 0 packet) (\<lambda>packet.
         Inr (push_be16 (push_be16 (packet @ [0]) type) 1)))"

section \<open>Responses\<close>

fun skip_questions :: "nat \<Rightarrow> bytes \<Rightarrow> nat \<Rightarrow> nat res" where
  "skip_questions 0 packet offset = Inr offset"
| "skip_questions (Suc n) packet offset =
     bindE (skip_question packet offset) (\<lambda>offset. skip_questions n packet offset)"

text \<open>One round of the loop over the answers: the record it adds, if any, and the new offset.\<close>

definition read_record :: "bytes \<Rightarrow> nat \<Rightarrow> (dns_record option \<times> nat) res" where
  "read_record packet offset =
     bindE (read_name packet offset 0) (\<lambda>(name, offset).
     bindE (read_be16 packet offset truncated) (\<lambda>type_raw.
     bindE (read_be16 packet (offset + 2) truncated) (\<lambda>klass.
     bindE (read_be32 packet (offset + 4) truncated) (\<lambda>ttl.
     bindE (read_be16 packet (offset + 8) truncated) (\<lambda>rdlength.
     let offset = offset + 10; rdlen = unat rdlength
     in if length packet < offset + rdlen then Inl (RuntimeError ''truncated dns rdata'')
        else
          let rdata = take rdlen (drop offset packet);
              add = (\<lambda>t v. Inr (Some \<lparr>rec_name = name, rec_type = t, rec_value = v, rec_ttl = ttl\<rparr>,
                               offset + rdlen))
          in if klass = 1 \<and> type_raw = QT_A then bindE (ipv4_text rdata) (add QT_A)
             else if klass = 1 \<and> type_raw = QT_AAAA then bindE (ipv6_text rdata) (add QT_AAAA)
             else if klass = 1 \<and> type_raw = QT_CNAME then
               bindE (read_name packet offset 0) (\<lambda>(cname, _). add QT_CNAME cname)
             else Inr (None, offset + rdlen))))))"

fun read_records :: "nat \<Rightarrow> bytes \<Rightarrow> nat \<Rightarrow> dns_record list \<Rightarrow> dns_record list res" where
  "read_records 0 packet offset records = Inr records"
| "read_records (Suc n) packet offset records =
     bindE (read_record packet offset) (\<lambda>(r, offset).
     read_records n packet offset
       (case r of None \<Rightarrow> records | Some r \<Rightarrow> records @ [r]))"

definition parse_response :: "bytes \<Rightarrow> dns_record list res" where
  "parse_response packet =
     (if length packet < 12 then Inl (RuntimeError ''dns response too short'')
      else bindE (read_be16 packet 4 truncated) (\<lambda>qdcount.
           bindE (read_be16 packet 6 truncated) (\<lambda>ancount.
           bindE (skip_questions (unat qdcount) packet 12) (\<lambda>offset.
           read_records (unat ancount) packet offset []))))"

section \<open>Names and labels\<close>

text \<open>The textual form of a list of labels, and its concatenation with another one.\<close>

definition dotted :: "string list \<Rightarrow> string" where
  "dotted ls = join_with (CHR ''.'') ls"

definition dot_app :: "string \<Rightarrow> string \<Rightarrow> string" where
  "dot_app a b = (if a \<noteq> [] \<and> b \<noteq> [] then a @ ''.'' @ b else a @ b)"

lemma dot_app_Nil [simp]: "dot_app [] b = b" "dot_app a [] = a"
  by (simp_all add: dot_app_def)

lemma dot_app_assoc: "dot_app (dot_app a b) c = dot_app a (dot_app b c)"
  by (simp add: dot_app_def)

lemma dotted_Nil [simp]: "dotted [] = []"
  by (simp add: dotted_def)

lemma dotted_eq_Nil: "[] \<notin> set ls \<Longrightarrow> dotted ls = [] \<longleftrightarrow> ls = []"
  by (cases ls; cases "tl ls") (auto simp: dotted_def)

lemma dotted_Cons: "l \<noteq> [] \<Longrightarrow> [] \<notin> set ls \<Longrightarrow> dotted (l # ls) = dot_app l (dotted ls)"
  using dotted_eq_Nil [of ls] by (cases ls) (auto simp: dotted_def dot_app_def)

text \<open>
  The wire form of a name (RFC 1035, section 4.1.4): \<open>name_at data off jumps ls stop\<close> says that
  the bytes at \<open>off\<close> spell the labels \<open>ls\<close>, following \<open>jumps\<close> compression pointers, and that the
  field ends before \<open>stop\<close>.
\<close>

inductive name_at :: "bytes \<Rightarrow> nat \<Rightarrow> nat \<Rightarrow> string list \<Rightarrow> nat \<Rightarrow> bool" for data :: bytes where
  Root: "off < length data \<Longrightarrow> data ! off = 0 \<Longrightarrow> name_at data off 0 [] (off + 1)"
| Label: "off < length data \<Longrightarrow> 0 < unat (data ! off) \<Longrightarrow> unat (data ! off) < 64 \<Longrightarrow>
    off + 1 + unat (data ! off) \<le> length data \<Longrightarrow>
    name_at data (off + 1 + unat (data ! off)) n ls stop \<Longrightarrow>
    name_at data off n (map chr (take (unat (data ! off)) (drop (off + 1) data)) # ls) stop"
| Pointer: "off + 1 < length data \<Longrightarrow> 192 \<le> unat (data ! off) \<Longrightarrow>
    name_at data (256 * (unat (data ! off) mod 64) + unat (data ! (off + 1))) n ls e \<Longrightarrow>
    name_at data off (n + 1) ls (off + 2)"

inductive_cases name_at_cases: "name_at data off n ls stop"

lemma name_at_labels: "name_at data off n ls stop \<Longrightarrow> [] \<notin> set ls"
  by (induction rule: name_at.induct) auto

lemma name_at_bounds: "name_at data off n ls stop \<Longrightarrow> off < stop \<and> stop \<le> length data"
  by (induction rule: name_at.induct) auto

section \<open>\<open>read_name\<close> reads the wire form\<close>

lemma and_3f: "unat (b AND 0x3f :: byte) = unat b mod 64"
proof -
  have "(0x3f :: byte) = mask 6" by (simp add: mask_eq_exp_minus_1)
  then have "b AND 0x3f = take_bit 6 b" by (simp only: take_bit_eq_mask)
  then show ?thesis by (simp only: unsigned_take_bit_eq) (simp add: take_bit_eq_mod)
qed

lemma and_c0: "unat (b AND 0xc0 :: byte) = 64 * (unat b div 64)"
proof -
  have "b AND NOT (mask 6) = push_bit 6 (drop_bit 6 b)"
    by (rule bit_word_eqI) (auto simp: bit_simps)
  moreover have "(0xc0 :: byte) = NOT (mask 6)" by (simp add: mask_eq_exp_minus_1)
  ultimately have eq: "b AND 0xc0 = push_bit 6 (drop_bit 6 b)"
    by (simp only:)
  have "unat (drop_bit 6 b) = unat b div 64"
    by (simp only: unat_drop_bit_eq drop_bit_eq_div [where 'a = nat]) simp
  then show ?thesis
    using byte_less [of b] unfolding eq
    by (simp only: unsigned_push_bit_eq push_bit_eq_mult [where 'a = nat] take_bit_eq_mod) simp
qed

lemma label_kind:
  "(b AND 0xc0 :: byte) = 0xc0 \<longleftrightarrow> 192 \<le> unat b" "(b AND 0xc0 :: byte) = 0 \<longleftrightarrow> unat b < 64"
  unfolding word_unat_eq_iff and_c0 using byte_less [of b] by auto

lemma append_dot: "name2 \<noteq> [] \<Longrightarrow> (if name \<noteq> [] then name @ ''.'' else name) @ name2 = dot_app name name2"
  by (simp add: dot_app_def)

lemma suffix_dot: "(if name \<noteq> [] \<and> s \<noteq> [] then name @ ''.'' else name) @ s = dot_app name s"
  by (simp add: dot_app_def)

text \<open>One round of the loop, with the tests on the length byte as comparisons.\<close>

lemma name_loop_step:
  "name_loop jump data off name =
     (if length data \<le> off then Inl (RuntimeError ''truncated dns packet'')
      else
        let len = unat (data ! off)
        in if len = 0 then Inr (name, off + 1)
           else if 192 \<le> len then
             (if length data \<le> off + 1 then Inl (RuntimeError ''truncated dns compression pointer'')
              else bindE (jump (256 * (len mod 64) + unat (data ! (off + 1)))) (\<lambda>suffix.
                   Inr (dot_app name suffix, off + 2)))
           else if 64 \<le> len then Inl (RuntimeError ''unsupported dns label type'')
           else if length data < off + 1 + len then Inl (RuntimeError ''truncated dns label'')
           else name_loop jump data (off + 1 + len)
                  (dot_app name (map chr (take len (drop (off + 1) data)))))"
proof (cases "off < length data")
  case True
  let ?b = "data ! off"
  have zero: "?b = 0 \<longleftrightarrow> unat ?b = 0" by (simp add: unat_eq_zero)
  consider "unat ?b = 0" | "0 < unat ?b" "unat ?b < 64" | "64 \<le> unat ?b" "unat ?b < 192" | "192 \<le> unat ?b"
    by linarith
  then show ?thesis
  proof cases
    case 2
    then have "map chr (take (unat ?b) (drop (off + 1) data)) \<noteq> [] \<or> length data < off + 1 + unat ?b"
      by auto
    then show ?thesis
      using True 2 unfolding name_loop.simps [of jump data off name]
      by (simp add: Let_def label_kind zero append_dot)
  qed (use True in \<open>simp_all add: name_loop.simps [of jump data off name] Let_def label_kind zero
       unat_be16 and_3f suffix_dot\<close>)
qed (simp add: name_loop.simps)

lemma name_loop_sound:
  assumes jump: "\<And>p s. jump p = Inr s \<Longrightarrow> \<exists>n ls e. n < k \<and> name_at data p n ls e \<and> s = dotted ls"
    and "name_loop jump data off acc = Inr (s, e)"
  shows "\<exists>n ls. n \<le> k \<and> name_at data off n ls e \<and> s = dot_app acc (dotted ls)"
  using assms(2)
proof (induction "length data - off" arbitrary: off acc rule: less_induct)
  case less
  let ?len = "unat (data ! off)"
  note run = less.prems [unfolded name_loop_step [of jump data off acc] Let_def]
  from run have off: "off < length data" by (auto split: if_splits)
  consider "?len = 0" | "192 \<le> ?len" | "0 < ?len" "?len < 64" | "64 \<le> ?len" "?len < 192"
    by linarith
  then show ?case
  proof cases
    case 1
    then have "name_at data off 0 [] (off + 1)"
      using off by (intro name_at.Root) (simp_all add: unat_eq_zero)
    then show ?thesis using run 1 off by fastforce
  next
    case 2
    then obtain t where t: "jump (256 * (?len mod 64) + unat (data ! (off + 1))) = Inr t"
      and s: "s = dot_app acc t" and e: "e = off + 2" and off1: "off + 1 < length data"
      using run off by (auto simp: bindE_eq_Inr split: if_splits)
    from jump [OF t] obtain n ls e' where "n < k"
      and "name_at data (256 * (?len mod 64) + unat (data ! (off + 1))) n ls e'" "t = dotted ls"
      by blast
    then show ?thesis using name_at.Pointer [OF off1 2] s e Suc_leI by (metis Suc_eq_plus1)
  next
    case 3
    let ?l = "map chr (take ?len (drop (off + 1) data))"
    from run 3 off have fits: "off + 1 + ?len \<le> length data"
      and rest: "name_loop jump data (off + 1 + ?len) (dot_app acc ?l) = Inr (s, e)"
      by (auto split: if_splits)
    from less.hyps [OF _ rest] off obtain n ls where n: "n \<le> k"
      and ls: "name_at data (off + 1 + ?len) n ls e" and s: "s = dot_app (dot_app acc ?l) (dotted ls)"
      by fastforce
    from 3 fits have "?l \<noteq> []" by auto
    then have "dot_app ?l (dotted ls) = dotted (?l # ls)"
      using dotted_Cons name_at_labels [OF ls] by simp
    moreover have "name_at data off n (?l # ls) e"
      using name_at.Label [OF off 3 fits ls] .
    ultimately show ?thesis using s n by (auto simp: dot_app_assoc)
  qed (use run off in auto)
qed

lemma read_name_sound:
  "read_name data off depth = Inr (s, e) \<Longrightarrow>
     \<exists>n ls. depth + n \<le> 16 \<and> name_at data off n ls e \<and> s = dotted ls"
proof (induction "17 - depth" arbitrary: depth off s e)
  case 0
  then show ?case by (simp add: read_name.simps [of data off depth])
next
  case (Suc m)
  let ?jump = "\<lambda>p. bindE (read_name data p (depth + 1)) (\<lambda>(suffix, _). Inr suffix)"
  from Suc have d: "depth \<le> 16" and run: "name_loop ?jump data off [] = Inr (s, e)"
    by (simp_all only: read_name.simps [of data off depth] split: if_splits)
  have jump: "\<exists>n ls e. n < 17 - depth - 1 \<and> name_at data p n ls e \<and> t = dotted ls" if "?jump p = Inr t" for p t
  proof -
    from that obtain e' where "read_name data p (depth + 1) = Inr (t, e')"
      by (auto simp: bindE_eq_Inr)
    moreover have "m = 17 - (depth + 1)" using Suc.hyps(2) by simp
    ultimately obtain n ls where "depth + 1 + n \<le> 16" "name_at data p n ls e'" "t = dotted ls"
      using Suc.hyps(1) by blast
    moreover from this have "n < 17 - depth - 1" by simp
    ultimately show ?thesis by blast
  qed
  have "\<exists>n ls. n \<le> 17 - depth - 1 \<and> name_at data off n ls e \<and> s = dot_app [] (dotted ls)"
    by (rule name_loop_sound [OF _ run]) (rule jump)
  then obtain n ls where "n \<le> 17 - depth - 1" "name_at data off n ls e" "s = dotted ls"
    by auto
  moreover from this d have "depth + n \<le> 16" by simp
  ultimately show ?case by blast
qed

lemma name_loop_complete:
  assumes "name_at data off n ls e"
    and "depth + n \<le> 16"
  shows "name_loop (\<lambda>p. bindE (read_name data p (depth + 1)) (\<lambda>(suffix, _). Inr suffix)) data off acc
    = Inr (dot_app acc (dotted ls), e)"
  using assms
proof (induction arbitrary: depth acc rule: name_at.induct)
  case (Root off)
  then show ?case by (simp add: name_loop_step [of _ _ off] Let_def)
next
  case (Label off n ls stop)
  let ?l = "map chr (take (unat (data ! off)) (drop (off + 1) data))"
  have "?l \<noteq> []" using Label by auto
  then have "dotted (?l # ls) = dot_app ?l (dotted ls)"
    using dotted_Cons name_at_labels [OF Label.hyps(5)] by simp
  then show ?case
    using Label by (simp add: name_loop_step [of _ _ off] Let_def dot_app_assoc)
next
  case (Pointer off n ls e)
  then have "read_name data (256 * (unat (data ! off) mod 64) + unat (data ! (off + 1))) (depth + 1)
      = Inr (dotted ls, e)"
    by (subst read_name.simps) simp
  with Pointer show ?case
    by (simp add: name_loop_step [of _ _ off] Let_def)
qed

lemma read_name_iff:
  "read_name data off depth = Inr (s, e) \<longleftrightarrow>
     (\<exists>n ls. depth + n \<le> 16 \<and> name_at data off n ls e \<and> s = dotted ls)"
proof
  assume "\<exists>n ls. depth + n \<le> 16 \<and> name_at data off n ls e \<and> s = dotted ls"
  then show "read_name data off depth = Inr (s, e)"
    using name_loop_complete [of data off _ _ e depth "[]"] by (subst read_name.simps) auto
qed (rule read_name_sound)

section \<open>Queries\<close>

text \<open>The labels of a domain name, one trailing dot ignored, and their wire form.\<close>

definition labels_of :: "string \<Rightarrow> string list" where
  "labels_of domain =
     (let ls = split_on (CHR ''.'') domain in if last ls = [] then butlast ls else ls)"

definition good_label :: "string \<Rightarrow> bool" where
  "good_label l \<longleftrightarrow> l \<noteq> [] \<and> length l \<le> 63"

definition encode_label :: "string \<Rightarrow> bytes" where
  "encode_label l = word_of_nat (length l) # map ord l"

definition encode_labels :: "string list \<Rightarrow> bytes" where
  "encode_labels ls = concat (map encode_label ls)"

lemma encode_labels_simps [simp]:
  "encode_labels [] = []" "encode_labels (l # ls) = encode_label l @ encode_labels ls"
  by (simp_all add: encode_labels_def)

lemma labels_of_Nil [simp]: "labels_of [] = []"
  by (simp add: labels_of_def)

lemma labels_of_Cons: "c \<notin> set p \<Longrightarrow> c = CHR ''.'' \<Longrightarrow> labels_of (p @ c # s) = p # labels_of s"
  by (simp add: labels_of_def split_on_append Let_def)

lemma labels_of_single: "CHR ''.'' \<notin> set p \<Longrightarrow> p \<noteq> [] \<Longrightarrow> labels_of p = [p]"
  by (simp add: labels_of_def split_on_notin)

lemma query_labels_eq:
  "query_labels domain start packet =
     (if list_all good_label (labels_of (drop start domain))
      then Inr (packet @ encode_labels (labels_of (drop start domain)))
      else Inl (RuntimeError ''invalid domain label''))"
proof (induction domain start packet rule: query_labels.induct)
  case (1 domain start packet)
  show ?case
  proof (cases "start < length domain")
    case True
    let ?t = "drop start domain"
    show ?thesis
    proof (cases "index_of (CHR ''.'') ?t")
      case None
      with True have "labels_of ?t = [?t]"
        by (intro labels_of_single) (auto simp: index_of_None)
      with True None show ?thesis
        by (subst query_labels.simps) (auto simp: find_char_def Let_def good_label_def encode_label_def)
    next
      case (Some i)
      let ?l = "take i ?t"
      from index_of_split [OF Some] have i: "i < length ?t" "CHR ''.'' \<notin> set ?l"
        and t: "?t = ?l @ CHR ''.'' # drop (start + i + 1) domain" by (auto simp: add.commute)
      have "labels_of ?t = ?l # labels_of (drop (start + i + 1) domain)"
        using labels_of_Cons [OF i(2) refl] t by metis
      moreover have "find_char domain (CHR ''.'') start = Some (start + i)"
        using Some by (simp add: find_char_def)
      moreover have len: "length ?l = i" using i by simp
      moreover have "good_label ?l \<longleftrightarrow> i \<noteq> 0 \<and> i \<le> 63"
        using len by (auto simp: good_label_def)
      ultimately show ?thesis
        using True 1 by (subst query_labels.simps) (auto simp: Let_def encode_label_def)
    qed
  qed (simp add: query_labels.simps)
qed

definition query_header :: bytes where
  "query_header = [0x12, 0x34, 1, 0, 0, 1, 0, 0, 0, 0, 0, 0]"

lemma query_header_bytes:
  "hi8 0x1234 = 0x12" "lo8 0x1234 = 0x34" "hi8 0x0100 = 1" "lo8 0x0100 = 0"
  "hi8 1 = 0" "lo8 1 = 1" "hi8 0 = 0" "lo8 0 = 0"
  by code_simp+

lemma build_query_eq:
  "build_query domain type =
     (if list_all good_label (labels_of domain)
      then Inr (query_header @ encode_labels (labels_of domain) @ [0, hi8 type, lo8 type, 0, 1])
      else Inl (RuntimeError ''invalid domain label''))"
  by (simp add: build_query_def query_header_bytes query_header_def query_labels_eq push_be16_def Let_def)

lemma name_at_encode:
  "list_all good_label ls \<Longrightarrow>
     name_at (pre @ encode_labels ls @ 0 # post) (length pre) 0 ls (length pre + length (encode_labels ls) + 1)"
proof (induction ls arbitrary: pre)
  case Nil
  then show ?case using name_at.Root [of "length pre" "pre @ 0 # post"] by simp
next
  case (Cons l ls)
  let ?data = "pre @ encode_labels (l # ls) @ 0 # post"
  from Cons.prems have l: "l \<noteq> []" "length l \<le> 63" by (simp_all add: good_label_def)
  then have len: "unat (?data ! length pre) = length l"
    by (simp add: nth_append encode_label_def unat_of_nat take_bit_nat_eq_self_iff flip: take_bit_eq_mod)
  have "map chr (take (length l) (drop (length pre + 1) ?data)) = l"
    by (simp add: encode_label_def)
  moreover have "name_at ?data (length pre + 1 + length l) 0 ls
      (length pre + length (encode_labels (l # ls)) + 1)"
    using Cons.IH [of "pre @ encode_label l"] Cons.prems by (simp add: encode_label_def algebra_simps)
  ultimately have "name_at ?data (length pre) 0
      (map chr (take (unat (?data ! length pre)) (drop (length pre + 1) ?data)) # ls)
      (length pre + length (encode_labels (l # ls)) + 1)"
    using l by - (rule name_at.Label, unfold len, auto simp: encode_label_def)
  then show ?case using len by (simp add: encode_label_def)
qed

lemma read_name_field:
  assumes "list_all good_label ls" "drop off data = encode_labels ls @ 0 # rest"
  shows "read_name data off 0 = Inr (dotted ls, off + length (encode_labels ls) + 1)"
proof -
  have "data = take off data @ encode_labels ls @ 0 # rest"
    using assms(2) append_take_drop_id by metis
  moreover have "length (take off data) = off"
    using field_length [OF assms(2)] by simp
  ultimately have "name_at data off 0 ls (off + length (encode_labels ls) + 1)"
    using name_at_encode [OF assms(1), of "take off data" rest] by simp
  then show ?thesis by (subst read_name_iff) auto
qed

lemma length_encode_labels: "length (encode_labels (split_on (CHR ''.'') d)) = length d + 1"
proof (induction d)
  case (Cons x d)
  obtain p ps where "split_on (CHR ''.'') d = p # ps"
    using split_on_nonempty by (cases "split_on (CHR ''.'') d") auto
  with Cons show ?case by (simp add: encode_label_def)
qed (simp add: encode_label_def)

lemma length_encode_butlast: "length (encode_labels (butlast ls)) \<le> length (encode_labels ls)"
  by (induction ls) auto

lemma length_query: "build_query domain type = Inr packet \<Longrightarrow> length packet \<le> length domain + 18"
  using length_encode_labels [of domain] length_encode_butlast [of "split_on (CHR ''.'') domain"]
  by (auto simp: build_query_eq query_header_def labels_of_def Let_def split: if_split_asm)

lemma query_of_root: "build_query domain type = Inr packet \<Longrightarrow> domain \<noteq> [] \<Longrightarrow> hd domain \<noteq> CHR ''.''"
  by (cases domain) (auto simp: build_query_eq labels_of_def Let_def good_label_def split: if_split_asm)

lemma dotted_labels_of: "dotted (labels_of d) = (if d \<noteq> [] \<and> last d = CHR ''.'' then butlast d else d)"
  using join_split_on [of "CHR ''.''" d]
  by (cases d rule: rev_cases)
    (auto simp: labels_of_def dotted_def Let_def last_split_on split_on_snoc join_split_on)

lemma query_parses:
  assumes "build_query domain type = Inr packet"
  shows "parse_question packet = Inr \<lparr>q_name =
    (if domain \<noteq> [] \<and> last domain = CHR ''.'' then butlast domain else domain), q_type = type\<rparr>"
proof -
  let ?ls = "labels_of domain"
  from assms have good: "list_all good_label ?ls"
    and packet: "packet = query_header @ encode_labels ?ls @ [0, hi8 type, lo8 type, 0, 1]"
    by (auto simp: build_query_eq split: if_splits)
  let ?o = "12 + length (encode_labels ?ls) + 1"
  have d: "drop 12 packet = (encode_labels ?ls @ [0]) @ [hi8 type, lo8 type, 0, 1]"
    by (simp add: packet query_header_def)
  have "length packet = ?o + 4" by (simp add: packet query_header_def)
  moreover have "read_name packet 12 0 = Inr (dotted ?ls, ?o)"
    using read_name_field [OF good] d by simp
  moreover have "read_be16 packet ?o truncated = Inr type"
    using read_be16_field [OF drop_field [OF d], of 0] by (simp add: add.assoc)
  moreover have "read_be16 packet 4 truncated = Inr 1"
    using read_be16_field [of 0 packet packet 4 truncated]
    by (simp add: packet query_header_def be16_def)
  ultimately show ?thesis
    by (simp add: parse_question_def dotted_labels_of)
qed

section \<open>Responses\<close>

text \<open>
  An encoder for responses, as specification: the data of a record as the three types the program
  reads and any other one, the record it becomes, and its bytes.
\<close>

datatype rdata =
    AddrV4 bytes
  | AddrV6 bytes
  | Canonical "string list"
  | OtherData query_type u16 bytes

record answer =
  an_name :: "string list"
  an_ttl :: u32
  an_data :: rdata

fun rdata_bytes :: "rdata \<Rightarrow> bytes" where
  "rdata_bytes (AddrV4 bs) = bs"
| "rdata_bytes (AddrV6 bs) = bs"
| "rdata_bytes (Canonical ls) = encode_labels ls @ [0]"
| "rdata_bytes (OtherData t k bs) = bs"

fun rdata_type :: "rdata \<Rightarrow> query_type \<times> u16" where
  "rdata_type (AddrV4 bs) = (QT_A, 1)"
| "rdata_type (AddrV6 bs) = (QT_AAAA, 1)"
| "rdata_type (Canonical ls) = (QT_CNAME, 1)"
| "rdata_type (OtherData t k bs) = (t, k)"

fun wf_rdata :: "rdata \<Rightarrow> bool" where
  "wf_rdata (AddrV4 bs) \<longleftrightarrow> length bs = 4"
| "wf_rdata (AddrV6 bs) \<longleftrightarrow> length bs = 16"
| "wf_rdata (Canonical ls) \<longleftrightarrow> list_all good_label ls \<and> length (encode_labels ls) < 65535"
| "wf_rdata (OtherData t k bs) \<longleftrightarrow>
     (k \<noteq> 1 \<or> t \<noteq> QT_A \<and> t \<noteq> QT_AAAA \<and> t \<noteq> QT_CNAME) \<and> length bs < 65536"

text \<open>Dotted decimal, and the eight groups of hexadecimal digits.\<close>

fun rdata_text :: "rdata \<Rightarrow> string option" where
  "rdata_text (AddrV4 bs) = Some (join_with (CHR ''.'') (map (show_dec \<circ> unat) bs))"
| "rdata_text (AddrV6 bs) = Some (join_with (CHR '':'')
     (map (\<lambda>i. show_hex (unat (be16 (bs ! (2 * i)) (bs ! (2 * i + 1))))) [0..<8]))"
| "rdata_text (Canonical ls) = Some (dotted ls)"
| "rdata_text (OtherData t k bs) = None"

definition wf_answer :: "answer \<Rightarrow> bool" where
  "wf_answer a \<longleftrightarrow> list_all good_label (an_name a) \<and> wf_rdata (an_data a)"

definition answer_record :: "answer \<Rightarrow> dns_record option" where
  "answer_record a =
     map_option (\<lambda>v. \<lparr>rec_name = dotted (an_name a), rec_type = fst (rdata_type (an_data a)),
       rec_value = v, rec_ttl = an_ttl a\<rparr>) (rdata_text (an_data a))"

definition fixed_fields :: "answer \<Rightarrow> bytes" where
  "fixed_fields a =
     be16_bytes (fst (rdata_type (an_data a))) @ be16_bytes (snd (rdata_type (an_data a))) @
     be32_bytes (an_ttl a) @ be16_bytes (word_of_nat (length (rdata_bytes (an_data a))))"

definition encode_answer :: "answer \<Rightarrow> bytes" where
  "encode_answer a = encode_labels (an_name a) @ 0 # fixed_fields a @ rdata_bytes (an_data a)"

definition encode_question :: "string list \<times> bytes \<Rightarrow> bytes" where
  "encode_question q = encode_labels (fst q) @ 0 # snd q"

definition wf_question :: "string list \<times> bytes \<Rightarrow> bool" where
  "wf_question q \<longleftrightarrow> list_all good_label (fst q) \<and> length (snd q) = 4"

definition encode_response :: "u32 \<Rightarrow> u32 \<Rightarrow> (string list \<times> bytes) list \<Rightarrow> answer list \<Rightarrow> bytes \<Rightarrow> bytes" where
  "encode_response start counts qs as rest =
     be32_bytes start @ be16_bytes (word_of_nat (length qs)) @ be16_bytes (word_of_nat (length as)) @
     be32_bytes counts @ concat (map encode_question qs) @ concat (map encode_answer as) @ rest"

lemma wf_rdata_size: "wf_rdata d \<Longrightarrow> length (rdata_bytes d) < 65536"
  by (cases d) auto

lemma skip_questions_encode:
  "list_all wf_question qs \<Longrightarrow> drop off packet = concat (map encode_question qs) @ rest \<Longrightarrow>
     skip_questions (length qs) packet off = Inr (off + length (concat (map encode_question qs)))"
proof (induction qs arbitrary: off)
  case (Cons q qs)
  let ?o = "off + length (encode_labels (fst q)) + 1"
  have q: "list_all good_label (fst q)" "length (snd q) = 4"
    using Cons.prems(1) by (simp_all add: wf_question_def)
  have d: "drop off packet = (encode_labels (fst q) @ [0]) @ snd q @ concat (map encode_question qs) @ rest"
    using Cons.prems(2) by (simp add: encode_question_def [of q])
  from drop_field [OF d] have d1: "drop ?o packet = snd q @ concat (map encode_question qs) @ rest"
    by (simp add: add.assoc)
  from drop_field [OF d1] q(2) have d2: "drop (?o + 4) packet = concat (map encode_question qs) @ rest"
    by simp
  have "length packet = ?o + length (snd q @ concat (map encode_question qs) @ rest)"
    using q(2) by (intro field_length [OF d1]) auto
  then have "skip_question packet off = Inr (?o + 4)"
    using read_name_field [OF q(1)] d q(2) by (simp add: skip_question_def)
  then show ?case
    using Cons.IH [OF _ d2] Cons.prems(1) q(2) by (simp add: encode_question_def [of q] add.assoc)
qed simp

lemma ipv4_text_eq:
  "length bs = 4 \<Longrightarrow> ipv4_text bs = Inr (join_with (CHR ''.'') (map (show_dec \<circ> unat) bs))"
  by (auto simp: ipv4_text_def length_Suc_conv eval_nat_numeral)

lemma ipv6_text_eq:
  "length bs = 16 \<Longrightarrow> ipv6_text bs = Inr (join_with (CHR '':'')
     (map (\<lambda>i. show_hex (unat (be16 (bs ! (2 * i)) (bs ! (2 * i + 1))))) [0..<8]))"
  by (simp add: ipv6_text_def upt_rec eval_nat_numeral Let_def)

lemma unat_16_length: "n < 65536 \<Longrightarrow> unat (word_of_nat n :: u16) = n"
  by (simp add: unat_of_nat take_bit_nat_eq_self_iff flip: take_bit_eq_mod)

lemma fixed_fields_nth:
  fixes rest :: bytes and a :: answer
  defines "xs \<equiv> fixed_fields a @ rest"
  shows "be16 (xs ! 0) (xs ! 1) = fst (rdata_type (an_data a))"
    and "be16 (xs ! 2) (xs ! 3) = snd (rdata_type (an_data a))"
    and "be32 (xs ! 4) (xs ! 5) (xs ! 6) (xs ! 7) = an_ttl a"
    and "be16 (xs ! 8) (xs ! 9) = word_of_nat (length (rdata_bytes (an_data a)))"
  by (simp_all add: xs_def fixed_fields_def be16_bytes_def be32_bytes_def nth_append nth_Cons')

lemma length_fixed_fields [simp]: "length (fixed_fields a) = 10"
  by (simp add: fixed_fields_def)

lemma read_record_encode:
  assumes wf: "wf_answer a" and d: "drop off packet = encode_answer a @ rest"
  shows "read_record packet off = Inr (answer_record a, off + length (encode_answer a))"
proof -
  let ?o = "off + length (encode_labels (an_name a)) + 1"
  let ?data = "rdata_bytes (an_data a)"
  let ?xs = "fixed_fields a @ ?data @ rest"
  have name: "list_all good_label (an_name a)" and data: "wf_rdata (an_data a)"
    using wf by (simp_all add: wf_answer_def)
  have d0: "drop off packet = (encode_labels (an_name a) @ [0]) @ ?xs"
    using d by (simp add: encode_answer_def)
  from drop_field [OF d0] have d1: "drop ?o packet = ?xs" by (simp add: add.assoc)
  from drop_field [OF d1] have d2: "drop (?o + 10) packet = ?data @ rest" by simp
  have len: "length packet = ?o + 10 + length (?data @ rest)"
    using field_length [OF d1] by (simp add: append_eq_Cons_conv fixed_fields_def be16_bytes_def)
  have fields: "read_be16 packet ?o truncated = Inr (fst (rdata_type (an_data a)))"
    "read_be16 packet (?o + 2) truncated = Inr (snd (rdata_type (an_data a)))"
    "read_be32 packet (?o + 4) truncated = Inr (an_ttl a)"
    "read_be16 packet (?o + 8) truncated = Inr (word_of_nat (length ?data))"
    using read_be16_field [OF d1, of 0] read_be16_field [OF d1, of 2] read_be32_field [OF d1, of 4]
      read_be16_field [OF d1, of 8] fixed_fields_nth [of a "?data @ rest"]
    by simp_all
  have "read_name packet off 0 = Inr (dotted (an_name a), ?o)"
    using read_name_field [OF name] d0 by simp
  moreover have "unat (word_of_nat (length ?data) :: u16) = length ?data"
    by (rule unat_16_length [OF wf_rdata_size [OF data]])
  moreover have "take (length ?data) (drop (?o + 10) packet) = ?data"
    using d2 by simp
  moreover have "length (encode_answer a) = length (encode_labels (an_name a)) + 11 + length ?data"
    by (simp add: encode_answer_def)
  ultimately have step: "read_record packet off = (let e = off + length (encode_answer a);
      add = (\<lambda>t v. Inr (Some \<lparr>rec_name = dotted (an_name a), rec_type = t, rec_value = v, rec_ttl = an_ttl a\<rparr>, e));
      t = fst (rdata_type (an_data a)); k = snd (rdata_type (an_data a))
    in if k = 1 \<and> t = QT_A then bindE (ipv4_text ?data) (add QT_A)
       else if k = 1 \<and> t = QT_AAAA then bindE (ipv6_text ?data) (add QT_AAAA)
       else if k = 1 \<and> t = QT_CNAME then bindE (read_name packet (?o + 10) 0) (\<lambda>(cname, _). add QT_CNAME cname)
       else Inr (None, e))"
    using len fields by (simp add: read_record_def Let_def ac_simps)
  show ?thesis
  proof (cases "an_data a")
    case (Canonical ls)
    then have "read_name packet (?o + 10) 0 = Inr (dotted ls, ?o + 10 + length (encode_labels ls) + 1)"
      using data d2 by (intro read_name_field [of _ _ _ rest]) simp_all
    with Canonical show ?thesis by (simp add: step Let_def answer_record_def)
  qed (use data in \<open>auto simp: step Let_def answer_record_def ipv4_text_eq ipv6_text_eq\<close>)
qed

lemma read_records_encode:
  "list_all wf_answer as \<Longrightarrow> drop off packet = concat (map encode_answer as) @ rest \<Longrightarrow>
     read_records (length as) packet off records = Inr (records @ List.map_filter answer_record as)"
proof (induction as arbitrary: off records)
  case (Cons a as)
  have d: "drop off packet = encode_answer a @ concat (map encode_answer as) @ rest"
    using Cons.prems(2) by simp
  show ?case
    using Cons.IH [OF _ drop_field [OF d]] read_record_encode [OF _ d] Cons.prems(1)
    by (auto simp: map_filter_simps split: option.split)
qed (simp add: map_filter_simps)

lemma parse_response_encode_eq:
  assumes qs: "list_all wf_question qs" "length qs < 65536" and "as": "list_all wf_answer as" "length as < 65536"
  shows "parse_response (encode_response start counts qs as rest) = Inr (List.map_filter answer_record as)"
proof -
  let ?p = "encode_response start counts qs as rest"
  let ?qs = "concat (map encode_question qs)" and ?as = "concat (map encode_answer as)"
  have head: "drop 0 ?p = ?p" by simp
  have "?p ! 4 = hi8 (word_of_nat (length qs))" "?p ! 5 = lo8 (word_of_nat (length qs))"
    "?p ! 6 = hi8 (word_of_nat (length as))" "?p ! 7 = lo8 (word_of_nat (length as))"
    by (simp_all add: encode_response_def be16_bytes_def be32_bytes_def nth_append nth_Cons')
  moreover have len: "12 \<le> length ?p" by (simp add: encode_response_def)
  ultimately have counts: "read_be16 ?p 4 truncated = Inr (word_of_nat (length qs))"
    "read_be16 ?p 6 truncated = Inr (word_of_nat (length as))"
    using read_be16_field [OF head, of 4] read_be16_field [OF head, of 6] by simp_all
  have q: "drop 12 ?p = ?qs @ ?as @ rest"
    by (simp add: encode_response_def be16_bytes_def be32_bytes_def)
  from skip_questions_encode [OF qs(1) q] read_records_encode [OF "as"(1) drop_field [OF q]]
  show ?thesis
    using counts len qs(2) "as"(2) by (simp add: parse_response_def unat_16_length)
qed

lemma self_pointer:
  "off + 1 < length data \<Longrightarrow> 192 \<le> unat (data ! off) \<Longrightarrow>
   256 * (unat (data ! off) mod 64) + unat (data ! (off + 1)) = off \<Longrightarrow>
   read_name data off depth = Inl (RuntimeError ''dns name compression loop'')"
proof (induction "17 - depth" arbitrary: depth)
  case 0
  then show ?case by (subst read_name.simps) simp
next
  case (Suc m)
  have "m = 17 - (depth + 1)" using Suc.hyps(2) by simp
  from Suc.hyps(1) [OF this Suc.prems]
  have next_call: "read_name data off (depth + 1) = Inl (RuntimeError ''dns name compression loop'')" .
  have "\<not> 16 < depth" using Suc.hyps(2) by simp
  then have "read_name data off depth
      = name_loop (\<lambda>p. bindE (read_name data p (depth + 1)) (\<lambda>(suffix, _). Inr suffix)) data off []"
    by (subst read_name.simps) (simp only: if_False)
  then show ?case
    using Suc.prems next_call by (simp add: name_loop_step [of _ data off "[]"] Let_def)
qed

section \<open>Properties\<close>

text \<open>
  C26: \<open>read_name\<close> implements the wire form of RFC 1035: from the top level it returns a text and
  the offset after the field exactly when the field spells the labels of this text through at most
  16 compression pointers. Every other input, in particular every loop of pointers, is rejected.
\<close>

theorem read_name_wire_form:
  "read_name data off 0 = Inr (s, e) \<longleftrightarrow> (\<exists>n ls. n \<le> 16 \<and> name_at data off n ls e \<and> s = dotted ls)"
  using read_name_iff [of data off 0] by simp

text \<open>
  A query built for a domain parses back to this domain, one trailing dot dropped, and to the
  query type.
\<close>

theorem query_round_trip:
  assumes "build_query domain type = Inr packet"
  shows "parse_question packet = Inr \<lparr>q_name =
    (if domain \<noteq> [] \<and> last domain = CHR ''.'' then butlast domain else domain), q_type = type\<rparr>"
  by (rule query_parses [OF assms])

theorem query_round_trip_witness:
  "\<exists>packet. build_query ''www.example.org.'' QT_AAAA = Inr packet \<and>
    parse_question packet = Inr \<lparr>q_name = ''www.example.org'', q_type = 28\<rparr>"
proof -
  obtain packet where p: "build_query ''www.example.org.'' QT_AAAA = Inr packet"
    by (simp add: build_query_eq labels_of_def good_label_def)
  with query_round_trip [OF p] show ?thesis by simp
qed

text \<open>
  C18: \<open>parse_response\<close> inverts an encoder of responses: it skips the questions, and the answers
  it returns, in order, are the A, AAAA and CNAME records of class IN with their names, times to
  live and values in text form; all other records are skipped over by their length.
\<close>

theorem parse_response_encode:
  assumes "list_all wf_question qs" "length qs < 65536" "list_all wf_answer as" "length as < 65536"
  shows "parse_response (encode_response start counts qs as rest) = Inr (List.map_filter answer_record as)"
  by (rule parse_response_encode_eq [OF assms])

definition demo_answers :: "answer list" where
  "demo_answers =
     [\<lparr>an_name = [''www'', ''a'', ''org''], an_ttl = 300, an_data = Canonical [''a'', ''org'']\<rparr>,
      \<lparr>an_name = [''a'', ''org''], an_ttl = 60, an_data = OtherData 16 1 [1, 65]\<rparr>,
      \<lparr>an_name = [''a'', ''org''], an_ttl = 60, an_data = AddrV4 [192, 0, 2, 1]\<rparr>]"

theorem parse_response_encode_witness:
  "parse_response (encode_response 0 0 [([''www'', ''a'', ''org''], [0, 1, 0, 1])] demo_answers []) =
    Inr [\<lparr>rec_name = ''www.a.org'', rec_type = 5, rec_value = ''a.org'', rec_ttl = 300\<rparr>,
         \<lparr>rec_name = ''a.org'', rec_type = 1, rec_value = ''192.0.2.1'', rec_ttl = 60\<rparr>]"
proof -
  have "list_all wf_question [([''www'', ''a'', ''org''], [0, 1, 0, 1])]" "list_all wf_answer demo_answers"
    by (simp_all add: wf_question_def demo_answers_def wf_answer_def good_label_def encode_label_def)
  moreover have "List.map_filter answer_record demo_answers =
      [\<lparr>rec_name = ''www.a.org'', rec_type = 5, rec_value = ''a.org'', rec_ttl = 300\<rparr>,
       \<lparr>rec_name = ''a.org'', rec_type = 1, rec_value = ''192.0.2.1'', rec_ttl = 60\<rparr>]"
  proof -
    have "show_dec 192 = ''192''" "show_dec 0 = ''0''" "show_dec 2 = ''2''" "show_dec 1 = ''1''"
      by code_simp+
    then show ?thesis
      by (simp add: demo_answers_def map_filter_simps answer_record_def dotted_def)
  qed
  moreover have "length demo_answers = 3" by (simp add: demo_answers_def)
  ultimately show ?thesis
    using parse_response_encode [of "[([''www'', ''a'', ''org''], [0, 1, 0, 1])]" demo_answers 0 0 "[]"]
    by simp
qed

text \<open>
  A compression pointer that points at itself is reported as a loop, whatever the rest of the
  packet holds.
\<close>

theorem compression_loop_rejected:
  assumes "off + 1 < length data" "192 \<le> unat (data ! off)"
    and "256 * (unat (data ! off) mod 64) + unat (data ! (off + 1)) = off"
  shows "read_name data off 0 = Inl (RuntimeError ''dns name compression loop'')"
  by (rule self_pointer [OF assms])

theorem compression_loop_rejected_witness:
  "read_name [0, 0, 0xc0, 2] 2 0 = Inl (RuntimeError ''dns name compression loop'')"
  using compression_loop_rejected [of 2 "[0, 0, 0xc0, 2]"] by simp

end
