(* ===== verification/Tls_Sniffer.thy ===== *)
theory Tls_Sniffer
  imports Utils Cstring
begin

text \<open>
  \<open>src/protocol/tls_sniffer.cpp\<close>: the server name that a TLS ClientHello carries. A raw
  \<open>data[pos]\<close> is \<open>peek8\<close> and the construction of a string from a pointer and a length is
  \<open>span_at\<close>: an access outside the buffer would be the exception \<open>Undefined\<close>.
\<close>

definition has_bytes :: "bytes \<Rightarrow> nat \<Rightarrow> nat \<Rightarrow> bool" where
  "has_bytes data pos n \<longleftrightarrow> pos \<le> length data \<and> n \<le> length data - pos"

abbreviation read16 :: "bytes \<Rightarrow> nat \<Rightarrow> u16 res" where
  "read16 data pos \<equiv> read_be16 data pos ''truncated packet''"

text \<open>
  The inner loop, over the names of one list. \<open>Some r\<close>: the function returns \<open>r\<close>; \<open>None\<close>: the
  loop ends and the function goes on.
\<close>

function sniff_names :: "bytes \<Rightarrow> nat \<Rightarrow> nat \<Rightarrow> string option option res" where
  "sniff_names data name_pos name_list_end =
     (if name_pos < name_list_end then
        if \<not> has_bytes data name_pos 3 then Inr (Some None)
        else
          bindE (peek8 data name_pos) (\<lambda>name_type.
          bindE (read16 data (name_pos + 1)) (\<lambda>name_len.
          if \<not> has_bytes data (name_pos + 3) (unat name_len) then Inr (Some None)
          else if name_type = 0 then
            bindE (span_at data (name_pos + 3) (unat name_len)) (\<lambda>name. Inr (Some (Some (map chr name))))
          else sniff_names data (name_pos + 3 + unat name_len) name_list_end))
      else Inr None)"
  by pat_completeness auto
termination
  by (relation "measure (\<lambda>(data, name_pos, name_list_end). name_list_end - name_pos)") auto

declare sniff_names.simps [simp del]

text \<open>The outer loop, over the extensions.\<close>

function sniff_extensions :: "bytes \<Rightarrow> nat \<Rightarrow> nat \<Rightarrow> string option res" where
  "sniff_extensions data pos extensions_end =
     (if pos < extensions_end then
        if \<not> has_bytes data pos 4 then Inr None
        else
          bindE (read16 data pos) (\<lambda>extension_type.
          bindE (read16 data (pos + 2)) (\<lambda>extension_len.
          if \<not> has_bytes data (pos + 4) (unat extension_len) then Inr None
          else if extension_type = 0 then
            if \<not> has_bytes data (pos + 4) 2 then Inr None
            else
              bindE (read16 data (pos + 4)) (\<lambda>name_list_len.
              if \<not> has_bytes data (pos + 6) (unat name_list_len) then Inr None
              else
                bindE (sniff_names data (pos + 6) (pos + 6 + unat name_list_len)) (\<lambda>r.
                case r of
                  Some result \<Rightarrow> Inr result
                | None \<Rightarrow> sniff_extensions data (pos + 4 + unat extension_len) extensions_end))
          else sniff_extensions data (pos + 4 + unat extension_len) extensions_end))
      else Inr None)"
  by pat_completeness auto
termination
  by (relation "measure (\<lambda>(data, pos, extensions_end). extensions_end - pos)") auto

declare sniff_extensions.simps [simp del]

text \<open>
  The body of the ClientHello from the session id on. The 24-bit length is the number whose most
  significant of four bytes is zero.
\<close>

definition sniff_body :: "bytes \<Rightarrow> nat \<Rightarrow> string option res" where
  "sniff_body data pos =
     (if \<not> has_bytes data pos 1 then Inr None else
      bindE (peek8 data pos) (\<lambda>session_id_len.
      let pos = pos + 1 in
      if \<not> has_bytes data pos (unat session_id_len) then Inr None else
      let pos = pos + unat session_id_len in
      if \<not> has_bytes data pos 2 then Inr None else
      bindE (read16 data pos) (\<lambda>cipher_suites_len.
      let pos = pos + 2 in
      if \<not> has_bytes data pos (unat cipher_suites_len) then Inr None else
      let pos = pos + unat cipher_suites_len in
      if \<not> has_bytes data pos 1 then Inr None else
      bindE (peek8 data pos) (\<lambda>compression_methods_len.
      let pos = pos + 1 in
      if \<not> has_bytes data pos (unat compression_methods_len) then Inr None else
      let pos = pos + unat compression_methods_len in
      if \<not> has_bytes data pos 2 then Inr None else
      bindE (read16 data pos) (\<lambda>extensions_len.
      let pos = pos + 2 in
      if \<not> has_bytes data pos (unat extensions_len) then Inr None else
      sniff_extensions data pos (pos + unat extensions_len))))))"

definition sniff_tls_sni :: "bytes \<Rightarrow> string option res" where
  "sniff_tls_sni data =
     (if \<not> has_bytes data 0 5 then Inr None else
      bindE (peek8 data 0) (\<lambda>content_type.
      if content_type \<noteq> 0x16 then Inr None else
      bindE (read16 data 3) (\<lambda>record_len.
      if \<not> has_bytes data 5 (unat record_len) then Inr None else
      if \<not> has_bytes data 5 4 then Inr None else
      bindE (peek8 data 5) (\<lambda>handshake_type.
      if handshake_type \<noteq> 1 then Inr None else
      bindE (peek8 data 6) (\<lambda>l1.
      bindE (peek8 data 7) (\<lambda>l2.
      bindE (peek8 data 8) (\<lambda>l3.
      let handshake_len = unat (be32 0 l1 l2 l3) in
      if \<not> has_bytes data 9 handshake_len then Inr None else
      if \<not> has_bytes data 9 (2 + 32) then Inr None else
      sniff_body data (9 + 2 + 32))))))))"

section \<open>Memory safety\<close>

lemma has_bytes_reads:
  "has_bytes data pos n \<Longrightarrow> 0 < n \<Longrightarrow> peek8 data pos = Inr (data ! pos)"
  "has_bytes data pos n \<Longrightarrow> k + 2 \<le> n \<Longrightarrow> read16 data (pos + k) = Inr (be16 (data ! (pos + k)) (data ! (pos + k + 1)))"
  "has_bytes data pos n \<Longrightarrow> span_at data pos n = Inr (take n (drop pos data))"
  by (auto simp: has_bytes_def peek8_def read_be16_def require_def span_at_def)

text \<open>The outcome is normal, and a name that is found is a piece of the input.\<close>

definition sniffed :: "bytes \<Rightarrow> string option res \<Rightarrow> bool" where
  "sniffed data r \<longleftrightarrow>
     (\<exists>n. r = Inr n \<and> (\<forall>s. n = Some s \<longrightarrow> (\<exists>i len. s = map chr (take len (drop i data)) \<and> i + len \<le> length data)))"

lemma sniffed_None [simp]: "sniffed data (Inr None)"
  by (simp add: sniffed_def)

lemma sniff_names_sniffed:
  "\<exists>r. sniff_names data p stop = Inr r \<and> (\<forall>n. r = Some n \<longrightarrow> sniffed data (Inr n))"
proof (induction data p stop rule: sniff_names.induct)
  case (1 data p stop)
  show ?case
  proof (cases "p < stop \<and> has_bytes data p 3")
    case True
    then have h: "has_bytes data p 3" and p: "p < stop" by simp_all
    let ?len = "be16 (data ! (p + 1)) (data ! (p + 1 + 1))"
    have reads: "peek8 data p = Inr (data ! p)" "read16 data (p + 1) = Inr ?len"
      using has_bytes_reads [OF h] by (simp_all only:)
    show ?thesis
    proof (cases "has_bytes data (p + 3) (unat ?len)")
      case h2: True
      then have span: "span_at data (p + 3) (unat ?len) = Inr (take (unat ?len) (drop (p + 3) data))"
        by (rule has_bytes_reads)
      have "sniffed data (Inr (Some (map chr (take (unat ?len) (drop (p + 3) data)))))"
        using h2 unfolding sniffed_def has_bytes_def by fastforce
      then show ?thesis
        using p h h2 reads span 1 by (subst (1) sniff_names.simps) simp
    qed (use p h reads in \<open>subst sniff_names.simps; simp\<close>)
  qed (subst sniff_names.simps; simp)
qed

lemma sniffed_guard:
  "(has_bytes data pos n \<Longrightarrow> sniffed data r) \<Longrightarrow> sniffed data (if \<not> has_bytes data pos n then Inr None else r)"
  by simp

lemma sniffed_test: "(\<not> b \<Longrightarrow> sniffed data r) \<Longrightarrow> sniffed data (if b then Inr None else r)"
  by simp

lemma sniffed_peek8:
  "has_bytes data p n \<Longrightarrow> p \<le> i \<Longrightarrow> i < p + n \<Longrightarrow> (\<And>x. sniffed data (f x)) \<Longrightarrow>
     sniffed data (bindE (peek8 data i) f)"
  unfolding peek8_def has_bytes_def by (subst if_P) auto

lemma sniffed_read16:
  "has_bytes data p n \<Longrightarrow> p \<le> i \<Longrightarrow> i + 2 \<le> p + n \<Longrightarrow> (\<And>x. read16 data i = Inr x \<Longrightarrow> sniffed data (f x)) \<Longrightarrow>
     sniffed data (bindE (read16 data i) f)"
  using has_bytes_reads(2) [of data p n "i - p"] by (fastforce simp: le_imp_diff_is_add)

lemma sniff_extensions_sniffed: "sniffed data (sniff_extensions data pos stop)"
proof (induction data pos stop rule: sniff_extensions.induct)
  case (1 data pos stop)
  show ?case
  proof (cases "pos < stop \<and> has_bytes data pos 4")
    case True
    then have h: "has_bytes data pos 4" and pos: "pos < stop" by simp_all
    obtain type len where reads: "read16 data pos = Inr type" "read16 data (pos + 2) = Inr len"
      using has_bytes_reads(2) [OF h, of 0] has_bytes_reads(2) [OF h, of 2] by fastforce
    let ?rest = "sniff_extensions data (pos + 4 + unat len) stop"
    have names: "sniffed data (bindE (sniff_names data i k) (\<lambda>r. case r of Some s \<Rightarrow> Inr s | None \<Rightarrow> ?rest))"
      if "sniff_names data i k = Inr None \<Longrightarrow> sniffed data ?rest" for i k
      using sniff_names_sniffed [of data i k] that by (auto split: option.split)
    show ?thesis
      unfolding sniff_extensions.simps [of data pos stop] using pos h reads 1
      by (auto intro!: sniffed_read16 [of data "pos + 4" 2] names)
  qed (subst sniff_extensions.simps; auto)
qed

lemmas sniffed_rules = sniffed_guard sniffed_peek8 sniffed_read16 sniff_extensions_sniffed sniffed_test

lemma sniff_body_sniffed: "sniffed data (sniff_body data pos)"
  unfolding sniff_body_def Let_def
  by (rule sniffed_rules | assumption | simp only: order.refl less_add_same_cancel1 zero_less_one
    zero_less_numeral add_left_mono)+

lemma sniff_tls_sni_sniffed: "sniffed data (sniff_tls_sni data)"
  unfolding sniff_tls_sni_def Let_def
  apply (rule sniffed_guard)
  apply (rule sniffed_peek8, assumption, simp, simp)
  apply (rule sniffed_test)
  apply (rule sniffed_read16, assumption, simp, simp)
  apply (rule sniffed_guard)
  apply (rule sniffed_guard)
  apply (rule sniffed_peek8 [where p = 5 and n = 4], assumption, simp, simp)
  apply (rule sniffed_test)
  apply (rule sniffed_peek8 [where p = 5 and n = 4], assumption, simp, simp)+
  apply (rule sniffed_guard)
  apply (rule sniffed_guard)
  by (rule sniff_body_sniffed)

section \<open>An encoder of ClientHello records\<close>

text \<open>
  The specification of what is sniffed (RFC 8446, section 4.1.2 and RFC 6066, section 3): a
  ClientHello in one record, whose extensions are server name lists or others.
\<close>

datatype hello_ext =
    Server_names "(byte \<times> bytes) list"
  | Other_ext u16 bytes

record client_hello =
  ch_fixed :: bytes
  ch_session_id :: bytes
  ch_ciphers :: bytes
  ch_compression :: bytes
  ch_exts :: "hello_ext list"

definition len16 :: "bytes \<Rightarrow> bytes" where
  "len16 bs = be16_bytes (word_of_nat (length bs))"

definition name_bytes :: "byte \<times> bytes \<Rightarrow> bytes" where
  "name_bytes n = fst n # len16 (snd n) @ snd n"

definition names_bytes :: "(byte \<times> bytes) list \<Rightarrow> bytes" where
  "names_bytes ns = concat (map name_bytes ns)"

definition ext_header :: "u16 \<Rightarrow> bytes \<Rightarrow> bytes" where
  "ext_header t body = be16_bytes t @ len16 body @ body"

fun ext_bytes :: "hello_ext \<Rightarrow> bytes" where
  "ext_bytes (Server_names ns) = ext_header 0 (len16 (names_bytes ns) @ names_bytes ns)"
| "ext_bytes (Other_ext t body) = ext_header t body"

definition exts_bytes :: "hello_ext list \<Rightarrow> bytes" where
  "exts_bytes es = concat (map ext_bytes es)"

definition hello_tail :: "client_hello \<Rightarrow> bytes" where
  "hello_tail h =
     word_of_nat (length (ch_session_id h)) # ch_session_id h @
     len16 (ch_ciphers h) @ ch_ciphers h @
     word_of_nat (length (ch_compression h)) # ch_compression h @
     len16 (exts_bytes (ch_exts h)) @ exts_bytes (ch_exts h)"

definition hello_bytes :: "client_hello \<Rightarrow> bytes" where
  "hello_bytes h = (let b = ch_fixed h @ hello_tail h in 1 # 0 # len16 b @ b)"

definition hello_record :: "byte \<Rightarrow> byte \<Rightarrow> client_hello \<Rightarrow> bytes" where
  "hello_record v1 v2 h = 0x16 # v1 # v2 # len16 (hello_bytes h) @ hello_bytes h"

text \<open>The first host name (type 0) of a list, and of the extensions in their order.\<close>

definition host_of_names :: "(byte \<times> bytes) list \<Rightarrow> string option" where
  "host_of_names ns = map_option (\<lambda>n. map chr (snd n)) (find (\<lambda>n. fst n = 0) ns)"

fun host_of_exts :: "hello_ext list \<Rightarrow> string option" where
  "host_of_exts [] = None"
| "host_of_exts (Server_names ns # es) =
     (case host_of_names ns of Some h \<Rightarrow> Some h | None \<Rightarrow> host_of_exts es)"
| "host_of_exts (Other_ext t body # es) = host_of_exts es"

fun wf_ext :: "hello_ext \<Rightarrow> bool" where
  "wf_ext (Server_names ns) \<longleftrightarrow> length (names_bytes ns) + 2 < 65536"
| "wf_ext (Other_ext t body) \<longleftrightarrow> t \<noteq> 0 \<and> length body < 65536"

definition wf_hello :: "client_hello \<Rightarrow> bool" where
  "wf_hello h \<longleftrightarrow> length (ch_fixed h) = 34 \<and> length (ch_session_id h) < 256 \<and>
     length (ch_compression h) < 256 \<and> list_all wf_ext (ch_exts h) \<and> length (hello_bytes h) < 65536"

lemma unat16_length: "length bs < 65536 \<Longrightarrow> unat (word_of_nat (length bs) :: u16) = length bs"
  and unat8_length: "length bs < 256 \<Longrightarrow> unat (word_of_nat (length bs) :: byte) = length bs"
  by (simp_all add: unat_of_nat take_bit_nat_eq_self_iff flip: take_bit_eq_mod)

lemma length_len16 [simp]: "length (len16 bs) = 2"
  by (simp add: len16_def)

lemma at_pos_has_bytes: "at_pos data pos xs \<Longrightarrow> has_bytes data pos n \<longleftrightarrow> n \<le> length xs"
  by (auto simp: has_bytes_def dest: at_pos_length)

lemma at_pos_len16:
  assumes "at_pos data pos (len16 bs @ xs)"
  shows "read16 data pos = Inr (word_of_nat (length bs))" and "at_pos data (pos + 2) xs"
  using at_pos_read_be16_bytes [of data pos "word_of_nat (length bs)" xs] at_pos_append [of data pos "len16 bs" xs]
    assms by (simp_all add: len16_def)

lemma names_bytes_simps [simp]:
  "names_bytes [] = []" "names_bytes (n # ns) = fst n # len16 (snd n) @ snd n @ names_bytes ns"
  by (simp_all add: names_bytes_def name_bytes_def)

lemma sniff_names_encode:
  "at_pos data pos (names_bytes ns @ rest) \<Longrightarrow> length (names_bytes ns) < 65536 \<Longrightarrow>
     sniff_names data pos (pos + length (names_bytes ns)) = Inr (map_option Some (host_of_names ns))"
proof (induction ns arbitrary: pos)
  case Nil
  then show ?case by (subst sniff_names.simps) (simp add: host_of_names_def)
next
  case (Cons n ns)
  from Cons.prems(1) have a0: "at_pos data pos (fst n # len16 (snd n) @ snd n @ names_bytes ns @ rest)"
    by simp
  note a1 = at_pos_Cons [OF a0]
  note len = at_pos_len16 [OF a1]
  from len(2) have a3: "at_pos data (pos + 3) (snd n @ names_bytes ns @ rest)" by (simp add: eval_nat_numeral)
  note a4 = at_pos_append [OF a3]
  from Cons.prems(2) have small: "unat (word_of_nat (length (snd n)) :: u16) = length (snd n)"
    by (intro unat16_length) simp
  have stop: "pos + length (names_bytes (n # ns)) = pos + 3 + length (snd n) + length (names_bytes ns)"
    by simp
  show ?case
    unfolding stop
    using at_pos_has_bytes [OF a0, of 3] at_pos_has_bytes [OF a3, of "length (snd n)"] at_pos_peek8 [OF a0]
      len(1) at_pos_span [OF a3] small Cons.IH [OF a4] Cons.prems(2)
    by (subst sniff_names.simps) (simp add: host_of_names_def)
qed

lemma exts_bytes_simps [simp]:
  "exts_bytes [] = []" "exts_bytes (e # es) = ext_bytes e @ exts_bytes es"
  by (simp_all add: exts_bytes_def)

lemma at_pos_ext_header:
  assumes "at_pos data pos (ext_header t body @ rest)" "length body < 65536"
  shows "has_bytes data pos 4" and "read16 data pos = Inr t"
    and "read16 data (pos + 2) = Inr (word_of_nat (length body))"
    and "has_bytes data (pos + 4) (length body)" and "at_pos data (pos + 4) (body @ rest)"
    and "at_pos data (pos + 4 + length body) rest"
proof -
  have a: "at_pos data pos (be16_bytes t @ len16 body @ body @ rest)"
    using assms(1) by (simp add: ext_header_def)
  from at_pos_append [OF a] have b: "at_pos data (pos + 2) (len16 body @ body @ rest)" by simp
  from at_pos_len16 [OF b] show "read16 data (pos + 2) = Inr (word_of_nat (length body))"
    and c: "at_pos data (pos + 4) (body @ rest)" by (simp_all add: eval_nat_numeral)
  show "has_bytes data pos 4" and "has_bytes data (pos + 4) (length body)"
    using at_pos_has_bytes [OF a] at_pos_has_bytes [OF c] by simp_all
  show "read16 data pos = Inr t" by (rule at_pos_read_be16_bytes [OF a])
  show "at_pos data (pos + 4 + length body) rest" by (rule at_pos_append [OF c])
qed

lemma sniff_extensions_encode:
  "at_pos data pos (exts_bytes es @ rest) \<Longrightarrow> list_all wf_ext es \<Longrightarrow>
     sniff_extensions data pos (pos + length (exts_bytes es)) = Inr (host_of_exts es)"
proof (induction es arbitrary: pos)
  case Nil
  then show ?case by (subst sniff_extensions.simps) simp
next
  case (Cons e es)
  obtain t body where e: "ext_bytes e = ext_header t body" and body: "length body < 65536"
    and kind: "(\<exists>ns. e = Server_names ns \<and> t = 0 \<and> body = len16 (names_bytes ns) @ names_bytes ns) \<or>
      e = Other_ext t body \<and> t \<noteq> 0"
    using Cons.prems(2) by (cases e) auto
  from Cons.prems(1) e have a: "at_pos data pos (ext_header t body @ exts_bytes es @ rest)" by simp
  note h = at_pos_ext_header [OF a body]
  note small = unat16_length [OF body]
  have stop: "pos + length (exts_bytes (e # es)) = pos + 4 + length body + length (exts_bytes es)"
    by (simp add: e ext_header_def)
  have later: "pos < pos + 4 + length body + length (exts_bytes es)" by simp
  have rest: "sniff_extensions data (pos + 4 + length body) (pos + 4 + length body + length (exts_bytes es))
      = Inr (host_of_exts es)"
    using Cons.IH [OF h(6)] Cons.prems(2) by simp
  note step = sniff_extensions.simps [of data pos "pos + 4 + length body + length (exts_bytes es)"]
  from kind show ?case
  proof (elim disjE exE conjE)
    assume "e = Other_ext t body" "t \<noteq> 0"
    then show ?thesis
      unfolding stop step using later h small rest by simp
  next
    fix ns
    assume e: "e = Server_names ns" and t: "t = 0" and b: "body = len16 (names_bytes ns) @ names_bytes ns"
    from h(5) b have l: "at_pos data (pos + 4) (len16 (names_bytes ns) @ names_bytes ns @ exts_bytes es @ rest)"
      by simp
    note len = at_pos_len16 [OF l]
    from len(2) have n: "at_pos data (pos + 6) (names_bytes ns @ exts_bytes es @ rest)"
      by (simp add: eval_nat_numeral)
    have ns: "length (names_bytes ns) < 65536" using body b by simp
    have "has_bytes data (pos + 4) 2" "has_bytes data (pos + 6) (length (names_bytes ns))"
      using at_pos_has_bytes [OF l] at_pos_has_bytes [OF n] by simp_all
    then show ?thesis
      unfolding stop step
      using later h(1-4) small rest len(1) unat16_length [OF ns] sniff_names_encode [OF n ns] e t
      by (cases "host_of_names ns") simp_all
  qed
qed

lemma sniff_body_encode:
  assumes a: "at_pos data pos (hello_tail h @ rest)" and wf: "wf_hello h"
  shows "sniff_body data pos = Inr (host_of_exts (ch_exts h))"
proof -
  let ?s = "ch_session_id h" and ?c = "ch_ciphers h" and ?m = "ch_compression h" and ?e = "exts_bytes (ch_exts h)"
  let ?p = "pos + 1 + length ?s" let ?q = "?p + 2 + length ?c" let ?r = "?q + 1 + length ?m"
  have sizes: "length ?s < 256" "length ?m < 256" "length ?c < 65536" "length ?e < 65536"
    using wf by (auto simp: wf_hello_def hello_bytes_def hello_tail_def Let_def)
  have a0: "at_pos data pos (word_of_nat (length ?s) # ?s @ len16 ?c @ ?c @ word_of_nat (length ?m) # ?m @
      len16 ?e @ ?e @ rest)"
    using a by (simp add: hello_tail_def)
  note a1 = at_pos_Cons [OF a0] note a2 = at_pos_append [OF a1] note l2 = at_pos_len16 [OF a2]
  note a3 = at_pos_append [OF l2(2)] note a4 = at_pos_Cons [OF a3] note a5 = at_pos_append [OF a4]
  note l5 = at_pos_len16 [OF a5]
  have "has_bytes data pos 1" "has_bytes data (pos + 1) (length ?s)" "has_bytes data ?p 2"
    "has_bytes data (?p + 2) (length ?c)" "has_bytes data ?q 1" "has_bytes data (?q + 1) (length ?m)"
    "has_bytes data ?r 2" "has_bytes data (?r + 2) (length ?e)"
    using at_pos_has_bytes [OF a0] at_pos_has_bytes [OF a1] at_pos_has_bytes [OF a2] at_pos_has_bytes [OF l2(2)]
      at_pos_has_bytes [OF a3] at_pos_has_bytes [OF a4] at_pos_has_bytes [OF a5] at_pos_has_bytes [OF l5(2)]
    by simp_all
  moreover have "list_all wf_ext (ch_exts h)" using wf by (simp add: wf_hello_def)
  ultimately show ?thesis
    using at_pos_peek8 [OF a0] l2(1) at_pos_peek8 [OF a3] l5(1) sizes sniff_extensions_encode [OF l5(2)]
    by (simp only: sniff_body_def unat8_length unat16_length Let_def bindE.simps if_False not_True_eq_False)
qed

lemma sniff_encode:
  assumes wf: "wf_hello h"
  shows "sniff_tls_sni (hello_record v1 v2 h @ rest) = Inr (host_of_exts (ch_exts h))"
proof -
  let ?b = "ch_fixed h @ hello_tail h" let ?d = "hello_record v1 v2 h @ rest"
  have hb: "hello_bytes h = 1 # 0 # len16 ?b @ ?b" by (simp add: hello_bytes_def Let_def)
  have sizes: "length (hello_bytes h) < 65536" "length (ch_fixed h) = 34" "length ?b < 65536"
    using wf hb by (simp_all add: wf_hello_def)
  have d: "?d = [0x16, v1, v2] @ len16 (hello_bytes h) @ hello_bytes h @ rest"
    by (simp add: hello_record_def)
  have a0: "at_pos ?d 0 ([0x16, v1, v2] @ len16 (hello_bytes h) @ hello_bytes h @ rest)"
    using at_pos_0 [of ?d] by (simp only: d)
  from at_pos_append [OF a0] have a3: "at_pos ?d 3 (len16 (hello_bytes h) @ hello_bytes h @ rest)"
    by (simp add: eval_nat_numeral)
  note l3 = at_pos_len16 [OF a3]
  from l3(2) hb have a5: "at_pos ?d 5 (1 # 0 # len16 ?b @ ?b @ rest)" by simp
  from at_pos_Cons [OF a5] have a6: "at_pos ?d 6 (0 # len16 ?b @ ?b @ rest)" by simp
  from at_pos_Cons [OF a6] have a7: "at_pos ?d 7 (hi8 (word_of_nat (length ?b)) # lo8 (word_of_nat (length ?b)) # ?b @ rest)"
    by (simp add: len16_def be16_bytes_def)
  from at_pos_Cons [OF a7] have a8: "at_pos ?d 8 (lo8 (word_of_nat (length ?b)) # ?b @ rest)" by simp
  from at_pos_Cons [OF a8] have a9: "at_pos ?d 9 (ch_fixed h @ hello_tail h @ rest)" by simp
  from at_pos_append [OF a9] sizes(2) have a43: "at_pos ?d 43 (hello_tail h @ rest)" by simp
  have len: "unat (be32 0 0 (hi8 (word_of_nat (length ?b))) (lo8 (word_of_nat (length ?b)))) = length ?b"
    using unat_be16 [of "hi8 (word_of_nat (length ?b))" "lo8 (word_of_nat (length ?b))"] unat16_length [OF sizes(3)]
    by (simp add: unat_be32)
  have "has_bytes ?d 0 5" "has_bytes ?d 5 (length (hello_bytes h))" "has_bytes ?d 5 4"
    "has_bytes ?d 9 (length ?b)" "has_bytes ?d 9 34"
    using at_pos_has_bytes [OF a0] at_pos_has_bytes [OF l3(2)] at_pos_has_bytes [OF a9] sizes(2) hb
    by simp_all
  then show ?thesis
    using at_pos_peek8 [OF a0 [simplified]] l3(1) at_pos_peek8 [OF a5] at_pos_peek8 [OF a6] at_pos_peek8 [OF a7]
      at_pos_peek8 [OF a8] len sniff_body_encode [OF a43 wf] unat16_length [OF sizes(1)]
    by (simp add: sniff_tls_sni_def Let_def)
qed

section \<open>Properties\<close>

text \<open>
  C27: sniffing is memory safe and total on arbitrary bytes: it never raises and never reads
  outside the buffer, and a name it returns is a contiguous piece of the input.
\<close>

theorem sniff_is_safe:
  "(case sniff_tls_sni data of
      Inl e \<Rightarrow> False
    | Inr None \<Rightarrow> True
    | Inr (Some name) \<Rightarrow> sublist (map ord name) data)"
proof -
  have "sublist (take len (drop i data)) data" for i len
    by (metis sublist_take sublist_drop sublist_order.order.trans)
  then show ?thesis
    using sniff_tls_sni_sniffed [of data] by (auto simp: sniffed_def split: option.split)
qed

text \<open>
  C28: from a well-formed ClientHello in one record, whatever follows it in the buffer, the sniffer
  returns exactly the first host name of its server name extensions, and no name when there is none.
\<close>

theorem sniff_finds_host_name:
  assumes "wf_hello h"
  shows "sniff_tls_sni (hello_record v1 v2 h @ rest) = Inr (host_of_exts (ch_exts h))"
  by (rule sniff_encode [OF assms])

definition demo_hello :: client_hello where
  "demo_hello =
     \<lparr>ch_fixed = 3 # 3 # replicate 32 7, ch_session_id = [9, 9], ch_ciphers = [0x13, 1],
      ch_compression = [0],
      ch_exts = [Other_ext 43 [2, 3, 4], Server_names [(1, [5]), (0, map ord ''a.org'')]]\<rparr>"

theorem sniff_finds_host_name_witness:
  "sniff_tls_sni (hello_record 3 1 demo_hello @ [1, 2, 3]) = Inr (Some ''a.org'')"
proof -
  have "wf_hello demo_hello"
    by (simp add: wf_hello_def demo_hello_def hello_bytes_def hello_tail_def ext_header_def Let_def)
  moreover have "host_of_exts (ch_exts demo_hello) = Some ''a.org''"
    by (simp add: demo_hello_def host_of_names_def)
  ultimately show ?thesis
    using sniff_finds_host_name [of demo_hello 3 1 "[1, 2, 3]"] by simp
qed

text \<open>
  As long as a record is not complete in the buffer, no name is returned: a name is never read
  from a partial ClientHello.
\<close>

theorem partial_record_not_sniffed:
  assumes "n < length (hello_record v1 v2 h)" "length (hello_bytes h) < 65536"
  shows "sniff_tls_sni (take n (hello_record v1 v2 h)) = Inr None"
proof (cases "n < 5")
  case False
  let ?d = "take n (hello_record v1 v2 h)"
  have len: "length ?d = n" using assms by simp
  have d: "?d = [0x16, v1, v2] @ len16 (hello_bytes h) @ take (n - 5) (hello_bytes h)"
    using False by (simp add: hello_record_def take_Cons' len16_def be16_bytes_def eval_nat_numeral)
  have "at_pos ?d 0 ([0x16, v1, v2] @ len16 (hello_bytes h) @ take (n - 5) (hello_bytes h))"
    using at_pos_0 [of ?d] by (simp only: d)
  from at_pos_len16(1) [OF at_pos_append [OF this]] have "read16 ?d 3 = Inr (word_of_nat (length (hello_bytes h)))"
    by (simp add: eval_nat_numeral)
  moreover have "\<not> has_bytes ?d 5 (length (hello_bytes h))"
    using assms(1) len by (auto simp: has_bytes_def hello_record_def)
  moreover have "peek8 ?d 0 = Inr 0x16" "has_bytes ?d 0 5"
    using len False by (simp_all add: d peek8_def has_bytes_def)
  ultimately show ?thesis
    using unat16_length [OF assms(2)] by (simp add: sniff_tls_sni_def Let_def)
qed (simp add: sniff_tls_sni_def has_bytes_def)

theorem partial_record_not_sniffed_witness:
  "sniff_tls_sni (take 40 (hello_record 3 1 demo_hello)) = Inr None"
proof -
  have "length (hello_bytes demo_hello) < 65536" "40 < length (hello_record 3 1 demo_hello)"
    by (simp_all add: demo_hello_def hello_bytes_def hello_tail_def ext_header_def hello_record_def Let_def)
  then show ?thesis using partial_record_not_sniffed [of 40 3 1 demo_hello] by simp
qed

end
