(* ===== verification/Vless.thy ===== *)
theory Vless
  imports Address Uuid
begin

text \<open>
  \<open>src/protocol/vless.hpp\<close> and \<open>vless.cpp\<close>: the header of a VLESS request and the removal of the
  header of the response.
\<close>

section \<open>The protocol\<close>

record vless_config =
  vc_uuid :: string

definition build_request :: "vless_config \<Rightarrow> destination \<Rightarrow> bytes res" where
  "build_request config dst =
     (let out = [] @ [0] in
      bindE (parse_uuid (vc_uuid config)) (\<lambda>uuid_bytes.
      let out = out @ uuid_bytes;
          out = out @ [0];
          out = out @ [1];
          out = push_be16 out (dst_port dst)
      in case dst_host dst of
           IPv4Address a \<Rightarrow> Inr (out @ [1] @ v4_to_bytes a)
         | IPv6Address a \<Rightarrow> Inr (out @ [3] @ v6_to_bytes a)
         | DomainName domain \<Rightarrow>
             bindE (require (length domain \<le> 255) ''vless domain too long'') (\<lambda>_.
             Inr (out @ [2] @ [word_of_nat (length domain)] @ map ord domain))))"

definition strip_response_header :: "bytes \<Rightarrow> bytes res" where
  "strip_response_header bytes =
     bindE (require (2 \<le> length bytes) ''short vless response header'') (\<lambda>_.
     let header_len = 2 + unat (bytes ! 1) in
     bindE (require (header_len \<le> length bytes) ''incomplete vless header'') (\<lambda>_.
     Inr (drop header_len bytes)))"

section \<open>A reader of requests\<close>

text \<open>
  The other end, as specification: how a server reads the header. It returns the user id, the
  command, the destination and what follows the header.
\<close>

record vless_request =
  vr_uuid :: bytes
  vr_command :: byte
  vr_port :: u16
  vr_host :: host

fun read_wire_host :: "bytes \<Rightarrow> (host \<times> bytes) option" where
  "read_wire_host (t # rest) =
     (if t = 1 \<and> 4 \<le> length rest then Some (IPv4Address (v4_of_bytes (take 4 rest)), drop 4 rest)
      else if t = 3 \<and> 16 \<le> length rest then Some (IPv6Address (v6_of_bytes (take 16 rest)), drop 16 rest)
      else if t = 2 \<and> rest \<noteq> [] \<and> unat (hd rest) < length rest then
        Some (DomainName (map chr (take (unat (hd rest)) (tl rest))), drop (unat (hd rest)) (tl rest))
      else None)"
| "read_wire_host [] = None"

definition read_request :: "bytes \<Rightarrow> (vless_request \<times> bytes) option" where
  "read_request bs =
     (if length bs < 22 \<or> bs ! 0 \<noteq> 0 \<or> bs ! 17 \<noteq> 0 then None
      else map_option (\<lambda>(h, rest).
        (\<lparr>vr_uuid = take 16 (drop 1 bs), vr_command = bs ! 18, vr_port = be16 (bs ! 19) (bs ! 20),
          vr_host = h\<rparr>, rest)) (read_wire_host (drop 21 bs)))"

text \<open>What the wire cannot carry: the scope of an IPv6 address.\<close>

fun wire_host :: "host \<Rightarrow> host" where
  "wire_host (IPv6Address a) = IPv6Address (a\<lparr>v6_scope := 0\<rparr>)"
| "wire_host h = h"

definition host_field :: "host \<Rightarrow> bytes" where
  "host_field h =
     (case h of
        IPv4Address a \<Rightarrow> 1 # v4_to_bytes a
      | IPv6Address a \<Rightarrow> 3 # v6_to_bytes a
      | DomainName d \<Rightarrow> 2 # word_of_nat (length d) # map ord d)"

lemma build_request_eq:
  assumes "wf_host (dst_host dst)"
  shows "build_request config dst =
    bindE (parse_uuid (vc_uuid config)) (\<lambda>u.
      Inr ([0] @ u @ [0, 1] @ be16_bytes (dst_port dst) @ host_field (dst_host dst)))"
  using assms
  by (cases "dst_host dst")
    (simp_all add: build_request_def Let_def push_be16_def be16_bytes_def host_field_def require_def)

lemma unat_byte_length: "n \<le> 255 \<Longrightarrow> unat (word_of_nat n :: byte) = n"
  by (simp add: unat_of_nat take_bit_nat_eq_self_iff flip: take_bit_eq_mod)

lemma read_host_field: "wf_host h \<Longrightarrow> read_wire_host (host_field h @ rest) = Some (wire_host h, rest)"
  by (cases h) (simp_all add: host_field_def unat_byte_length)

lemma host_field_nonempty [simp]: "host_field h \<noteq> []"
  by (cases h) (simp_all add: host_field_def)

lemma read_request_build:
  assumes u: "length u = 16" and h: "wf_host h"
  shows "read_request ([0] @ u @ [0, 1] @ be16_bytes port @ host_field h @ rest)
    = Some (\<lparr>vr_uuid = u, vr_command = 1, vr_port = port, vr_host = wire_host h\<rparr>, rest)"
proof -
  let ?b = "[0] @ u @ [0, 1] @ be16_bytes port @ host_field h @ rest"
  have d17: "drop 17 ?b = [0, 1] @ be16_bytes port @ host_field h @ rest" using u by simp
  have d21: "drop 21 ?b = host_field h @ rest" using u by (simp add: be16_bytes_def)
  have "?b ! 17 = 0" "?b ! 18 = 1" "?b ! 19 = hi8 port" "?b ! 20 = lo8 port"
    using nth_field [OF d17, of 0] nth_field [OF d17, of 1] nth_field [OF d17, of 2] nth_field [OF d17, of 3]
    by (simp_all add: be16_bytes_def nth_Cons')
  moreover have "\<not> length ?b < 22"
    using u by (cases "host_field h") simp_all
  moreover have "take 16 (drop 1 ?b) = u" "?b ! 0 = 0" using u by simp_all
  ultimately show ?thesis
    using read_host_field [OF h, of rest] unfolding read_request_def d21 by simp
qed

section \<open>Properties\<close>

text \<open>
  C19: a request is built exactly when the configured user id is valid, and the server that reads it
  gets the user id, the TCP command, the port and the destination (an IPv6 scope aside), and after
  them the payload that the client sends next.
\<close>

theorem vless_request_round_trip:
  assumes "wf_host (dst_host dst)"
  shows "case parse_uuid (vc_uuid config) of
      Inl e \<Rightarrow> build_request config dst = Inl e
    | Inr uuid \<Rightarrow> (case build_request config dst of
        Inl e \<Rightarrow> False
      | Inr out \<Rightarrow> read_request (out @ payload) =
          Some (\<lparr>vr_uuid = uuid, vr_command = 1, vr_port = dst_port dst, vr_host = wire_host (dst_host dst)\<rparr>, payload))"
  using assms
  by (auto simp: build_request_eq read_request_build parse_uuid_length simp del: append.simps split: sum.split)

theorem vless_request_round_trip_witness:
  "\<exists>out. build_request \<lparr>vc_uuid = ''550e8400-e29b-41d4-a716-4466554400ff''\<rparr>
       \<lparr>dst_host = DomainName ''a.org'', dst_port = 443\<rparr> = Inr out \<and>
     read_request (out @ [22, 3, 1]) =
       Some (\<lparr>vr_uuid = demo_uuid, vr_command = 1, vr_port = 443, vr_host = DomainName ''a.org''\<rparr>, [22, 3, 1])"
proof -
  have "parse_uuid ''550e8400-e29b-41d4-a716-4466554400ff'' = Inr demo_uuid"
    by code_simp
  then show ?thesis
    using vless_request_round_trip [of "\<lparr>dst_host = DomainName ''a.org'', dst_port = 443\<rparr>"
        "\<lparr>vc_uuid = ''550e8400-e29b-41d4-a716-4466554400ff''\<rparr>" "[22, 3, 1]"]
    by (auto split: sum.splits)
qed

text \<open>
  The response header is a version byte, a length and so many bytes of add-ons; exactly when all
  of it is there, it is removed and the payload is left; otherwise the two errors tell which part
  is missing.
\<close>

lemma strip_response_header_spec:
  "strip_response_header bytes =
     (case bytes of
        version # n # rest \<Rightarrow>
          if unat n \<le> length rest then Inr (drop (unat n) rest)
          else Inl (RuntimeError ''incomplete vless header'')
      | _ \<Rightarrow> Inl (RuntimeError ''short vless response header''))"
  by (cases bytes rule: remdups_adj.cases) (simp_all add: strip_response_header_def require_def)
end
