(* ===== verification/State_Machine.thy ===== *)
theory State_Machine
  imports Main
begin

text \<open>
  Two interfaces for the parts of the program that run as coroutines and threads next to each
  other. A \<open>state_machine\<close> is a step relation with its initial states and an invariant that every
  step keeps. An \<open>observed_machine\<close> moreover has a view of its states that every step moves along a
  given order: what has been observed stays observed.
\<close>

locale state_machine =
  fixes initial :: "'s \<Rightarrow> bool" and step :: "'s \<Rightarrow> 's \<Rightarrow> bool" and inv :: "'s \<Rightarrow> bool"
  assumes inv_initial: "initial s \<Longrightarrow> inv s"
    and inv_step: "inv s \<Longrightarrow> step s t \<Longrightarrow> inv t"
begin

lemma inv_run: "inv s \<Longrightarrow> step\<^sup>*\<^sup>* s t \<Longrightarrow> inv t"
  by (rotate_tac, induction rule: rtranclp_induct) (auto intro: inv_step)

lemma inv_reachable: "initial s \<Longrightarrow> step\<^sup>*\<^sup>* s t \<Longrightarrow> inv t"
  by (rule inv_run [OF inv_initial])

end

locale observed_machine = state_machine initial step inv
  for initial :: "'s \<Rightarrow> bool" and step :: "'s \<Rightarrow> 's \<Rightarrow> bool" and inv :: "'s \<Rightarrow> bool" +
  fixes view :: "'s \<Rightarrow> 'v" and ahead :: "'v \<Rightarrow> 'v \<Rightarrow> bool"
  assumes ahead_refl: "ahead v v"
    and ahead_trans: "ahead u v \<Longrightarrow> ahead v w \<Longrightarrow> ahead u w"
    and view_step: "inv s \<Longrightarrow> step s t \<Longrightarrow> ahead (view s) (view t)"
begin

lemma view_run: "step\<^sup>*\<^sup>* s t \<Longrightarrow> inv s \<Longrightarrow> ahead (view s) (view t)"
proof (induction rule: rtranclp_induct)
  case (step t u)
  have "inv t" by (rule inv_run [OF step.prems step.hyps(1)])
  from ahead_trans [OF step.IH [OF step.prems] view_step [OF this step.hyps(2)]] show ?case .
qed (rule ahead_refl)

end

end
