(* ===== verification/Udp_Flow.thy ===== *)
theory Udp_Flow
  imports Tun_Nat State_Machine "HOL-Library.Multiset" "HOL-Library.Sublist"
begin

text \<open>
  \<open>struct TunInbound::TunUdpFlow\<close> of \<open>src/inbound/tun_inbound.cpp\<close>: the queue of datagrams of one
  UDP flow and the coroutines that connect its socket, send and receive. Every critical section
  under the flow's mutex is one function; the interleavings of the packet thread with the
  coroutines are the steps of a relation.
\<close>

section \<open>The critical sections\<close>

record udp_flow =
  fl_nat_port :: u16
  fl_session :: flow_key
  fl_pending :: "bytes list"
  fl_connecting :: bool
  fl_connected :: bool
  fl_sending :: bool

definition new_flow :: "u16 \<Rightarrow> flow_key \<Rightarrow> udp_flow" where
  "new_flow port key =
     \<lparr>fl_nat_port = port, fl_session = key, fl_pending = [],
      fl_connecting = False, fl_connected = False, fl_sending = False\<rparr>"

text \<open>The coroutines that are handed to \<open>asio::co_spawn\<close>.\<close>

datatype spawn = Spawn_start | Spawn_send_loop | Spawn_recv_loop

definition enqueue :: "bytes \<Rightarrow> udp_flow \<Rightarrow> spawn option \<times> udp_flow" where
  "enqueue payload f =
     (let f1 = f\<lparr>fl_pending := fl_pending f @ [payload]\<rparr>
      in if \<not> fl_connecting f1 \<and> \<not> fl_connected f1 then (Some Spawn_start, f1\<lparr>fl_connecting := True\<rparr>)
         else if fl_connected f1 \<and> \<not> fl_sending f1 then (Some Spawn_send_loop, f1\<lparr>fl_sending := True\<rparr>)
         else (None, f1))"

text \<open>What \<open>start\<close> does once the socket is connected.\<close>

definition start_connected :: "udp_flow \<Rightarrow> spawn list \<times> udp_flow" where
  "start_connected f =
     (let f1 = f\<lparr>fl_connected := True, fl_connecting := False\<rparr>
      in if \<not> fl_sending f1 then ([Spawn_send_loop, Spawn_recv_loop], f1\<lparr>fl_sending := True\<rparr>)
         else ([Spawn_recv_loop], f1))"

text \<open>The head of one round of \<open>send_loop\<close>: a payload to send, or \<open>None\<close> to return.\<close>

definition send_take :: "udp_flow \<Rightarrow> bytes option \<times> udp_flow" where
  "send_take f =
     (case fl_pending f of
        [] \<Rightarrow> (None, f\<lparr>fl_sending := False\<rparr>)
      | payload # rest \<Rightarrow> (Some payload, f\<lparr>fl_pending := rest\<rparr>))"

section \<open>The flow and its coroutines\<close>

text \<open>
  Where a coroutine stands: \<open>start\<close> awaiting the connection, \<open>send_loop\<close> before its critical
  section or awaiting the transmission of a payload, \<open>recv_loop\<close> awaiting a datagram. The system
  keeps the multiset of live coroutines, what the socket has taken, whether the flow has been
  erased from its owner, and, for the statements, everything that was ever enqueued.
\<close>

datatype coroutine = Starting | Send_top | Send_wait bytes | Receiving

record flow_sys =
  fs_flow :: udp_flow
  fs_tasks :: "coroutine multiset"
  fs_sent :: "bytes list"
  fs_erased :: bool
  fs_queued :: "bytes list"

fun coroutine_of :: "spawn \<Rightarrow> coroutine" where
  "coroutine_of Spawn_start = Starting"
| "coroutine_of Spawn_send_loop = Send_top"
| "coroutine_of Spawn_recv_loop = Receiving"

definition flow_sys_init :: "u16 \<Rightarrow> flow_key \<Rightarrow> flow_sys" where
  "flow_sys_init port key =
     \<lparr>fs_flow = new_flow port key, fs_tasks = {#}, fs_sent = [], fs_erased = False, fs_queued = []\<rparr>"

inductive flow_step :: "flow_sys \<Rightarrow> flow_sys \<Rightarrow> bool" where
  Enqueue: "enqueue payload (fs_flow s) = (sp, f) \<Longrightarrow>
    flow_step s (s\<lparr>fs_flow := f, fs_tasks := fs_tasks s + mset (map coroutine_of (case sp of None \<Rightarrow> [] | Some c \<Rightarrow> [c])),
      fs_queued := fs_queued s @ [payload]\<rparr>)"
| Connected: "Starting \<in># fs_tasks s \<Longrightarrow> start_connected (fs_flow s) = (sps, f) \<Longrightarrow>
    flow_step s (s\<lparr>fs_flow := f, fs_tasks := fs_tasks s - {#Starting#} + mset (map coroutine_of sps)\<rparr>)"
| Connect_failed: "Starting \<in># fs_tasks s \<Longrightarrow>
    flow_step s (s\<lparr>fs_tasks := fs_tasks s - {#Starting#}, fs_erased := True\<rparr>)"
| Send_idle: "Send_top \<in># fs_tasks s \<Longrightarrow> send_take (fs_flow s) = (None, f) \<Longrightarrow>
    flow_step s (s\<lparr>fs_flow := f, fs_tasks := fs_tasks s - {#Send_top#}\<rparr>)"
| Send_next: "Send_top \<in># fs_tasks s \<Longrightarrow> send_take (fs_flow s) = (Some payload, f) \<Longrightarrow>
    flow_step s (s\<lparr>fs_flow := f, fs_tasks := fs_tasks s - {#Send_top#} + {#Send_wait payload#}\<rparr>)"
| Send_done: "Send_wait payload \<in># fs_tasks s \<Longrightarrow>
    flow_step s (s\<lparr>fs_tasks := fs_tasks s - {#Send_wait payload#} + {#Send_top#}, fs_sent := fs_sent s @ [payload]\<rparr>)"
| Send_failed: "Send_wait payload \<in># fs_tasks s \<Longrightarrow>
    flow_step s (s\<lparr>fs_tasks := fs_tasks s - {#Send_wait payload#}, fs_erased := True\<rparr>)"
| Received: "Receiving \<in># fs_tasks s \<Longrightarrow> flow_step s s"
| Receive_failed: "Receiving \<in># fs_tasks s \<Longrightarrow>
    flow_step s (s\<lparr>fs_tasks := fs_tasks s - {#Receiving#}, fs_erased := True\<rparr>)"

inductive_cases flow_step_cases: "flow_step s t"

abbreviation flow_run :: "flow_sys \<Rightarrow> flow_sys \<Rightarrow> bool" where
  "flow_run \<equiv> flow_step\<^sup>*\<^sup>*"

section \<open>The invariant\<close>

fun is_send :: "coroutine \<Rightarrow> bool" where
  "is_send Send_top = True"
| "is_send (Send_wait p) = True"
| "is_send _ = False"

definition senders :: "flow_sys \<Rightarrow> coroutine multiset" where
  "senders s = filter_mset is_send (fs_tasks s)"

definition starters :: "flow_sys \<Rightarrow> nat" where
  "starters s = count (fs_tasks s) Starting"

text \<open>
  The four phases of a flow: untouched, connecting, connected with a sender, connected and idle. In
  the second and third the coroutine may be gone for good after an error, which also erases the flow.
\<close>

definition flow_inv :: "flow_sys \<Rightarrow> bool" where
  "flow_inv s \<longleftrightarrow>
     (let f = fs_flow s in
      if \<not> fl_connected f then
        \<not> fl_sending f \<and> senders s = {#} \<and> fs_sent s = [] \<and> fs_queued s = fl_pending f \<and>
        (if fl_connecting f then starters s = 1 \<or> starters s = 0 \<and> fs_erased s
         else starters s = 0 \<and> fl_pending f = [])
      else
        \<not> fl_connecting f \<and> starters s = 0 \<and>
        (if \<not> fl_sending f then senders s = {#} \<and> fl_pending f = [] \<and> fs_queued s = fs_sent s
         else senders s = {#Send_top#} \<and> fs_queued s = fs_sent s @ fl_pending f \<or>
           (\<exists>p. (senders s = {#Send_wait p#} \<or> senders s = {#} \<and> fs_erased s) \<and>
              fs_queued s = fs_sent s @ p # fl_pending f)))"

lemma flow_inv_init: "flow_inv (flow_sys_init port key)"
  by (simp add: flow_inv_def flow_sys_init_def new_flow_def senders_def starters_def)

lemma flow_inv_sender:
  assumes "flow_inv s" "c \<in># fs_tasks s" "is_send c"
  shows "fl_connected (fs_flow s)" "\<not> fl_connecting (fs_flow s)" "fl_sending (fs_flow s)" "starters s = 0"
    and "senders s = {#c#}"
    and "c = Send_top \<Longrightarrow> fs_queued s = fs_sent s @ fl_pending (fs_flow s)"
    and "c = Send_wait p \<Longrightarrow> fs_queued s = fs_sent s @ p # fl_pending (fs_flow s)"
proof -
  have "c \<in># senders s" using assms by (simp add: senders_def)
  with assms(1) show "fl_connected (fs_flow s)" "\<not> fl_connecting (fs_flow s)" "fl_sending (fs_flow s)"
    "starters s = 0" "senders s = {#c#}"
    "c = Send_top \<Longrightarrow> fs_queued s = fs_sent s @ fl_pending (fs_flow s)"
    "c = Send_wait p \<Longrightarrow> fs_queued s = fs_sent s @ p # fl_pending (fs_flow s)"
    by (auto simp: flow_inv_def Let_def split: if_splits)
qed

lemma flow_inv_starter:
  assumes "flow_inv s" "Starting \<in># fs_tasks s"
  shows "\<not> fl_connected (fs_flow s)" "fl_connecting (fs_flow s)" "\<not> fl_sending (fs_flow s)" "starters s = 1"
    and "senders s = {#}" "fs_sent s = []" "fs_queued s = fl_pending (fs_flow s)"
proof -
  have "starters s \<noteq> 0" using assms(2) by (simp add: starters_def)
  with assms(1) show "\<not> fl_connected (fs_flow s)" "fl_connecting (fs_flow s)" "\<not> fl_sending (fs_flow s)"
    "starters s = 1" "senders s = {#}" "fs_sent s = []" "fs_queued s = fl_pending (fs_flow s)"
    by (auto simp: flow_inv_def Let_def split: if_splits)
qed

lemmas flow_sys_simps = senders_def starters_def flow_inv_def enqueue_def start_connected_def send_take_def

lemma flow_inv_enqueue:
  assumes "flow_inv s" "enqueue payload (fs_flow s) = (sp, f)"
  shows "flow_inv (s\<lparr>fs_flow := f,
    fs_tasks := fs_tasks s + mset (map coroutine_of (case sp of None \<Rightarrow> [] | Some c \<Rightarrow> [c])),
    fs_queued := fs_queued s @ [payload]\<rparr>)"
  using assms by (auto simp: flow_sys_simps Let_def split: if_splits)

lemma flow_inv_erase:
  assumes "flow_inv s" "fs_flow t = fs_flow s" "senders t = senders s" "starters t = starters s"
    and "fs_sent t = fs_sent s" "fs_queued t = fs_queued s" "fs_erased t"
  shows "flow_inv t"
  using assms(1) unfolding flow_inv_def Let_def assms(2-6) using assms(7)
  by (simp split: if_splits) (metis, metis)

lemma flow_inv_step:
  assumes "flow_step s t" "flow_inv s"
  shows "flow_inv t"
  using assms
proof cases
  case (Enqueue payload sp f)
  then show ?thesis using flow_inv_enqueue assms(2) by simp
next
  case (Connected sps f)
  then show ?thesis
    using flow_inv_starter [OF assms(2)]
    by (auto simp: flow_inv_def start_connected_def senders_def starters_def Let_def)
next
  case Connect_failed
  then show ?thesis
    using flow_inv_starter [OF assms(2)] by (auto simp: flow_inv_def senders_def starters_def Let_def)
next
  case (Send_idle f)
  then show ?thesis
    using flow_inv_sender [OF assms(2) Send_idle(2)]
    by (auto simp: flow_inv_def senders_def starters_def send_take_def Let_def split: list.splits)
next
  case (Send_next payload f)
  then show ?thesis
    using flow_inv_sender [OF assms(2) Send_next(2)]
    by (auto simp: flow_inv_def senders_def starters_def send_take_def Let_def split: list.splits)
next
  case (Send_done payload)
  then show ?thesis
    using flow_inv_sender [OF assms(2) Send_done(2)]
    by (auto simp: flow_inv_def senders_def starters_def Let_def)
next
  case (Send_failed payload)
  then show ?thesis
    using flow_inv_sender [OF assms(2) Send_failed(2)]
    by (auto simp: flow_inv_def senders_def starters_def Let_def)
next
  case Receive_failed
  then show ?thesis
    by (intro flow_inv_erase [OF assms(2)]) (simp_all add: senders_def starters_def)
qed simp

text \<open>What a socket has been given stays given.\<close>

interpretation flow: observed_machine "\<lambda>s. \<exists>port key. s = flow_sys_init port key" flow_step flow_inv fs_sent prefix
proof (unfold_locales, goal_cases)
  case (5 s t)
  then show ?case by (auto elim: flow_step_cases)
qed (auto intro: flow_inv_init flow_inv_step elim: prefix_order.trans)

section \<open>Draining the queue\<close>

definition drained_from :: "flow_sys \<Rightarrow> flow_sys \<Rightarrow> bool" where
  "drained_from s t \<longleftrightarrow> flow_run s t \<and> fs_sent t = fs_queued s \<and> fs_queued t = fs_queued s \<and>
     fl_pending (fs_flow t) = [] \<and> fs_erased t = fs_erased s"

lemma drained_step:
  "flow_step s t \<Longrightarrow> fs_queued t = fs_queued s \<Longrightarrow> fs_erased t = fs_erased s \<Longrightarrow> drained_from t u \<Longrightarrow> drained_from s u"
  by (auto simp: drained_from_def intro: converse_rtranclp_into_rtranclp)

lemma drain_top:
  "flow_inv s \<Longrightarrow> Send_top \<in># fs_tasks s \<Longrightarrow> \<exists>t. drained_from s t"
proof (induction "length (fl_pending (fs_flow s))" arbitrary: s)
  case 0
  then have "drained_from s s"
    using flow_inv_sender(6) [OF 0(2,3)] by (simp add: drained_from_def)
  then show ?case by blast
next
  case (Suc n)
  then obtain p rest where p: "fl_pending (fs_flow s) = p # rest" by (cases "fl_pending (fs_flow s)") auto
  let ?f = "(fs_flow s)\<lparr>fl_pending := rest\<rparr>"
  let ?s1 = "s\<lparr>fs_flow := ?f, fs_tasks := fs_tasks s - {#Send_top#} + {#Send_wait p#}\<rparr>"
  let ?s2 = "?s1\<lparr>fs_tasks := fs_tasks ?s1 - {#Send_wait p#} + {#Send_top#}, fs_sent := fs_sent ?s1 @ [p]\<rparr>"
  have 1: "flow_step s ?s1"
    using p by (intro flow_step.Send_next [OF Suc(4)]) (simp add: send_take_def)
  have 2: "flow_step ?s1 ?s2" by (rule flow_step.Send_done) simp
  have "flow_inv ?s2" using 1 2 Suc(3) flow_inv_step by blast
  moreover have "n = length (fl_pending (fs_flow ?s2))" "Send_top \<in># fs_tasks ?s2"
    using Suc(2) p by simp_all
  ultimately obtain t where "drained_from ?s2 t" using Suc(1) by blast
  then have "drained_from ?s1 t" using drained_step [OF 2] by simp
  then have "drained_from s t" using drained_step [OF 1] by simp
  then show ?case by blast
qed

lemma drain_wait:
  assumes inv: "flow_inv s" and "Send_wait p \<in># fs_tasks s"
  shows "\<exists>t. drained_from s t"
proof -
  let ?s1 = "s\<lparr>fs_tasks := fs_tasks s - {#Send_wait p#} + {#Send_top#}, fs_sent := fs_sent s @ [p]\<rparr>"
  have step: "flow_step s ?s1" using assms(2) by (rule flow_step.Send_done)
  from drain_top [OF flow_inv_step [OF this inv]] obtain t where "drained_from ?s1 t" by auto
  then show ?thesis using drained_step [OF step] by auto
qed

lemma drain_starting:
  assumes inv: "flow_inv s" and st: "Starting \<in># fs_tasks s"
  shows "\<exists>t. drained_from s t"
proof -
  obtain sps f where sc: "start_connected (fs_flow s) = (sps, f)" by fastforce
  let ?s1 = "s\<lparr>fs_flow := f, fs_tasks := fs_tasks s - {#Starting#} + mset (map coroutine_of sps)\<rparr>"
  have step: "flow_step s ?s1" by (rule flow_step.Connected [OF st sc])
  have "Send_top \<in># fs_tasks ?s1"
    using sc flow_inv_starter [OF inv st] by (auto simp: start_connected_def Let_def)
  from drain_top [OF flow_inv_step [OF step inv] this] obtain t where "drained_from ?s1 t" by auto
  then show ?thesis using drained_step [OF step] by auto
qed

lemma flow_inv_active:
  assumes "flow_inv s" "\<not> fs_erased s"
  obtains (idle) "fs_sent s = fs_queued s" "fl_pending (fs_flow s) = []" | (starting) "Starting \<in># fs_tasks s"
    | (top) "Send_top \<in># fs_tasks s" | (wait) p where "Send_wait p \<in># fs_tasks s"
proof -
  have sub: "c \<in># senders s \<Longrightarrow> c \<in># fs_tasks s" for c by (simp add: senders_def)
  have "starters s = 1 \<Longrightarrow> Starting \<in># fs_tasks s"
    by (simp add: starters_def flip: count_greater_zero_iff)
  then show thesis
    using assms that sub [of Send_top] sub [of "Send_wait _"]
    by (auto simp: flow_inv_def Let_def split: if_splits)
qed

section \<open>Properties\<close>

text \<open>
  C21: under every interleaving of the packet thread with the coroutines of a flow, the socket is
  given the datagrams of the flow in the order they arrived, none twice; at most one coroutine
  connects and at most one sends; and no wake-up is lost: while datagrams wait and the flow has not
  been erased, a coroutine is there that will send them.
\<close>

theorem udp_flow_order:
  assumes "flow_run (flow_sys_init port key) s"
  shows "prefix (fs_sent s) (fs_queued s) \<and> size (senders s) \<le> 1 \<and> starters s \<le> 1 \<and>
    (\<not> fs_erased s \<and> fl_pending (fs_flow s) \<noteq> [] \<longrightarrow> starters s = 1 \<or> size (senders s) = 1)"
  using flow.inv_run [OF flow_inv_init assms]
  by (auto simp: flow_inv_def Let_def prefix_def split: if_splits)

text \<open>Two datagrams; the second one arrives while the socket is still being connected.\<close>

lemma demo_flow_run:
  "flow_run (flow_sys_init 10000 (demo_flow 1))
     \<lparr>fs_flow = \<lparr>fl_nat_port = 10000, fl_session = demo_flow 1, fl_pending = [[2]], fl_connecting = False,
        fl_connected = True, fl_sending = True\<rparr>,
      fs_tasks = {#Receiving, Send_wait [1]#}, fs_sent = [], fs_erased = False, fs_queued = [[1], [2]]\<rparr>"
proof -
  let ?f = "\<lambda>q c d e. \<lparr>fl_nat_port = 10000, fl_session = demo_flow 1, fl_pending = q, fl_connecting = c,
    fl_connected = d, fl_sending = e\<rparr>"
  let ?s = "\<lambda>f t q. \<lparr>fs_flow = f, fs_tasks = t, fs_sent = [], fs_erased = False, fs_queued = q\<rparr>"
  have "flow_step (flow_sys_init 10000 (demo_flow 1)) (?s (?f [[1]] True False False) {#Starting#} [[1]])"
    using flow_step.Enqueue [of "[1]" "flow_sys_init 10000 (demo_flow 1)"]
    by (simp add: flow_sys_init_def new_flow_def enqueue_def)
  moreover have "flow_step (?s (?f [[1]] True False False) {#Starting#} [[1]])
      (?s (?f [[1], [2]] True False False) {#Starting#} [[1], [2]])"
    using flow_step.Enqueue [of "[2]" "?s (?f [[1]] True False False) {#Starting#} [[1]]"]
    by (simp add: enqueue_def)
  moreover have "flow_step (?s (?f [[1], [2]] True False False) {#Starting#} [[1], [2]])
      (?s (?f [[1], [2]] False True True) {#Receiving, Send_top#} [[1], [2]])"
    using flow_step.Connected [of "?s (?f [[1], [2]] True False False) {#Starting#} [[1], [2]]"]
    by (simp add: start_connected_def add_mset_commute)
  moreover have "flow_step (?s (?f [[1], [2]] False True True) {#Receiving, Send_top#} [[1], [2]])
      (?s (?f [[2]] False True True) {#Receiving, Send_wait [1]#} [[1], [2]])"
    using flow_step.Send_next [of "?s (?f [[1], [2]] False True True) {#Receiving, Send_top#} [[1], [2]]"]
    by (simp add: send_take_def add_mset_commute)
  ultimately show ?thesis by (meson converse_rtranclp_into_rtranclp r_into_rtranclp)
qed

theorem udp_flow_order_witness:
  "prefix [] [[1], [2 :: byte]] \<and> size {#Send_wait [1]#} \<le> 1"
  using udp_flow_order [OF demo_flow_run] by (simp add: senders_def)



end
