(* ===== verification/Text_IP.thy ===== *)
theory Text_IP
  imports Address Uuid
begin

text \<open>
  A concrete instance of \<open>asio_ip\<close> that satisfies the hypotheses stated about Boost.Asio:
  dotted decimal for IPv4 and eight groups of hexadecimal digits for IPv6 (the uncompressed form of
  RFC 4291). It shows that the hypotheses can hold and evaluates the witnesses.
\<close>

section \<open>Dotted decimal\<close>

definition dotted_quad :: "bytes \<Rightarrow> string" where
  "dotted_quad bs = join_with (CHR ''.'') (map (\<lambda>b. show_dec (unat b)) bs)"

definition parse_octet :: "string \<Rightarrow> byte option" where
  "parse_octet s =
     (if s \<noteq> [] \<and> list_all is_digit s \<and> dec_val s < 256 then Some (word_of_nat (dec_val s)) else None)"

definition parse_quad :: "string \<Rightarrow> address_v4 option" where
  "parse_quad t =
     (let ps = map parse_octet (split_on (CHR ''.'') t)
      in if length ps = 4 \<and> None \<notin> set ps then Some (v4_of_bytes (map the ps)) else None)"

lemma parse_octet_show: "parse_octet (show_dec (unat b)) = Some b"
  using byte_less [of b] by (simp add: parse_octet_def show_dec_digits)

lemma not_digit_sep: "\<not> is_digit (CHR ''.'')" "\<not> is_digit (CHR '':'')"
  by (simp_all add: is_digit_def)

lemma show_dec_no_sep: "\<not> is_digit c \<Longrightarrow> c \<notin> set (show_dec n)"
  using show_dec_digits [of n] by (auto simp: list_all_iff)

lemma parse_quad_dotted: "length bs = 4 \<Longrightarrow> parse_quad (dotted_quad bs) = Some (v4_of_bytes bs)"
proof -
  assume bs: "length bs = 4"
  let ?ps = "map (\<lambda>b. show_dec (unat b)) bs"
  have "split_on (CHR ''.'') (dotted_quad bs) = ?ps"
    unfolding dotted_quad_def using bs show_dec_no_sep [OF not_digit_sep(1)]
    by (intro split_on_join) auto
  then have "map parse_octet (split_on (CHR ''.'') (dotted_quad bs)) = map Some bs"
    by (simp add: parse_octet_show comp_def)
  then show ?thesis using bs by (simp add: parse_quad_def comp_def)
qed

lemma set_join_with: "set (join_with c ps) \<subseteq> insert c (\<Union> (set (map set ps)))"
  by (induction c ps rule: join_with.induct) auto

lemma parse_quad_no_colon: "parse_quad t \<noteq> None \<Longrightarrow> CHR '':'' \<notin> set t"
proof -
  assume "parse_quad t \<noteq> None"
  then have "None \<notin> parse_octet ` set (split_on (CHR ''.'') t)"
    by (auto simp: parse_quad_def Let_def split: if_splits)
  then have "\<forall>p \<in> set (split_on (CHR ''.'') t). list_all is_digit p"
    by (force simp: parse_octet_def image_iff split: if_splits)
  then have "CHR '':'' \<notin> set (join_with (CHR ''.'') (split_on (CHR ''.'') t))"
    using set_join_with [of "CHR ''.''" "split_on (CHR ''.'') t"] not_digit_sep(2)
    by (auto simp: list_all_iff)
  then show ?thesis by (simp add: join_split_on)
qed

section \<open>Groups of hexadecimal digits\<close>

definition hex_val :: "string \<Rightarrow> nat" where
  "hex_val s = foldl (\<lambda>n c. 16 * n + nat (hex_value c)) 0 s"

lemma hex_val_show: "hex_val (show_hex n) = n"
  unfolding show_hex_def
proof (induction "16 :: nat" n rule: show_radix.induct)
  case (1 n)
  then show ?case by (subst show_radix.simps) (auto simp: hex_val_def hex_value_digit)
qed

lemma show_hex_hex: "list_all is_hex (show_hex n)"
  using show_radix_chars [of 16 n] by (auto simp: show_hex_def list_all_iff is_hex_digit)

lemma show_hex_nonempty [simp]: "show_hex n \<noteq> []"
  unfolding show_hex_def by (subst show_radix.simps) simp

definition groups :: "bytes \<Rightarrow> u16 list" where
  "groups bs = map (\<lambda>i. be16 (bs ! (2 * i)) (bs ! (2 * i + 1))) [0..<8]"

definition group_text :: "bytes \<Rightarrow> string" where
  "group_text bs = join_with (CHR '':'') (map (\<lambda>g. show_hex (unat g)) (groups bs))"

definition parse_group :: "string \<Rightarrow> u16 option" where
  "parse_group s =
     (if s \<noteq> [] \<and> list_all is_hex s \<and> hex_val s < 65536 then Some (word_of_nat (hex_val s)) else None)"

definition parse_groups :: "string \<Rightarrow> address_v6 option" where
  "parse_groups t =
     (let gs = map parse_group (split_on (CHR '':'') t)
      in if length gs = 8 \<and> None \<notin> set gs
         then Some (v6_of_bytes (concat (map (be16_bytes \<circ> the) gs))) else None)"

lemma parse_group_show: "parse_group (show_hex (unat g)) = Some g"
  using unsigned_less [of g, where ?'a = nat] by (simp add: parse_group_def hex_val_show show_hex_hex)

lemma show_hex_no_colon: "CHR '':'' \<notin> set (show_hex n)"
  using show_hex_hex [of n] by (auto simp: list_all_iff is_hex_def hex_value_def tolower_def Let_def)

lemma groups_bytes: "length bs = 16 \<Longrightarrow> concat (map be16_bytes (groups bs)) = bs"
  by (auto simp: groups_def be16_bytes_def upt_rec length_Suc_conv eval_nat_numeral)

lemma parse_groups_text: "length bs = 16 \<Longrightarrow> parse_groups (group_text bs) = Some (v6_of_bytes bs)"
proof -
  assume bs: "length bs = 16"
  let ?ps = "map (\<lambda>g. show_hex (unat g)) (groups bs)"
  have len: "length (groups bs) = 8" by (simp add: groups_def)
  then have "?ps \<noteq> []" by auto
  then have "split_on (CHR '':'') (group_text bs) = ?ps"
    unfolding group_text_def using show_hex_no_colon by (intro split_on_join) auto
  then have "map parse_group (split_on (CHR '':'') (group_text bs)) = map Some (groups bs)"
    by (simp add: parse_group_show comp_def)
  moreover have "be16_bytes \<circ> the \<circ> Some = be16_bytes" by auto
  ultimately show ?thesis
    using len groups_bytes [OF bs] by (simp add: parse_groups_def)
qed

section \<open>The instance\<close>

definition ref_ip :: asio_ip where
  "ref_ip =
     \<lparr>make_address_v4 = parse_quad, make_address_v6 = parse_groups,
      make_address = (\<lambda>t. case parse_groups t of Some a \<Rightarrow> Some (V6 a) | None \<Rightarrow> map_option V4 (parse_quad t)),
      v4_to_string = (\<lambda>a. dotted_quad (v4_to_bytes a)), v6_to_string = (\<lambda>a. group_text (v6_to_bytes a))\<rparr>"

lemma ref_ip_simps [simp]:
  "make_address_v4 ref_ip = parse_quad" "make_address_v6 ref_ip = parse_groups"
  "make_address ref_ip t = (case parse_groups t of Some a \<Rightarrow> Some (V6 a) | None \<Rightarrow> map_option V4 (parse_quad t))"
  "v4_to_string ref_ip a = dotted_quad (v4_to_bytes a)" "v6_to_string ref_ip b = group_text (v6_to_bytes b)"
  by (simp_all add: ref_ip_def)

lemma asio_text_ref: "asio_text ref_ip"
proof -
  have "parse_groups t = None" if "parse_quad t \<noteq> None" for t
  proof -
    have "split_on (CHR '':'') t = [t]" using parse_quad_no_colon [OF that] by (rule split_on_notin)
    then show ?thesis by (simp add: parse_groups_def)
  qed
  moreover have "v6_scope a = 0 \<Longrightarrow> a\<lparr>v6_scope := 0\<rparr> = a" for a :: address_v6 by simp
  ultimately show ?thesis
    by (simp add: asio_text_def parse_quad_dotted parse_groups_text cong: option.case_cong)
qed

section \<open>Properties of hosts\<close>

text \<open>
  A host is read back from its text: for an address without a scope always, and for a domain
  name exactly when its text is not the text of an address (then the address wins).
\<close>

theorem host_text_round_trip:
  assumes "asio_text I" "wf_host h"
  shows "host_parse I (host_to_string I h) =
    (case h of
       IPv4Address a \<Rightarrow> Inr h
     | IPv6Address a \<Rightarrow> if v6_scope a = 0 then Inr h else host_parse I (v6_to_string I a)
     | DomainName d \<Rightarrow>
         (case make_address I d of
            None \<Rightarrow> Inr h
          | Some (V4 a) \<Rightarrow> Inr (IPv4Address a)
          | Some (V6 a) \<Rightarrow> Inr (IPv6Address a)))"
proof (cases h)
  case (IPv6Address a)
  have "v6_scope a = 0 \<Longrightarrow> make_address_v6 I (v6_to_string I a) = Some a"
    using assms(1) by (simp add: asio_text_def)
  moreover have "v6_scope a = 0 \<Longrightarrow> make_address_v4 I (v6_to_string I a) = None"
    using assms(1) calculation unfolding asio_text_def by (metis option.distinct(1))
  ultimately show ?thesis by (simp add: IPv6Address host_parse_eq)
next
  case (DomainName d)
  have "make_address_v4 I d \<noteq> None \<Longrightarrow> make_address_v6 I d = None"
    using assms(1) by (simp add: asio_text_def)
  moreover have "make_address I d = (case make_address_v6 I d of Some a \<Rightarrow> Some (V6 a)
      | None \<Rightarrow> map_option V4 (make_address_v4 I d))"
    using assms(1) by (simp add: asio_text_def)
  ultimately show ?thesis
    using assms(2) by (cases "make_address_v4 I d") (auto simp: DomainName host_parse_eq domain_name_def split: option.split)
qed (use assms(1) in \<open>simp add: host_parse_eq asio_text_def\<close>)

theorem host_text_round_trip_witness:
  "host_parse ref_ip (host_to_string ref_ip (IPv4Address 0x0A000001)) = Inr (IPv4Address 0x0A000001) \<and>
   host_parse ref_ip (host_to_string ref_ip (DomainName ''a.org'')) = Inr (DomainName ''a.org'')"
proof -
  have "parse_quad ''a.org'' = None" "parse_groups ''a.org'' = None"
    by (simp_all add: parse_quad_def parse_groups_def)
  then show ?thesis
    using host_text_round_trip [OF asio_text_ref, of "IPv4Address 0x0A000001"]
      host_text_round_trip [OF asio_text_ref, of "DomainName ''a.org''"]
    by simp
qed

end
