(* ===== verification/Packet_Fields.thy ===== *)
theory Packet_Fields
  imports Tun_Checksum Tun_Nat
begin

text \<open>
  The fields of a packet as pairs of a reader and a writer, with the laws that the packet handlers
  rely on, and their instances for the 16-bit and the 32-bit fields of \<open>utils.cpp\<close>.
\<close>

section \<open>The contract of a field\<close>

locale field =
  fixes pos len :: nat
    and get :: "bytes \<Rightarrow> 'v"
    and put :: "bytes \<Rightarrow> 'v \<Rightarrow> bytes"
  assumes length_put: "length (put b v) = length b"
    and get_put: "pos + len \<le> length b \<Longrightarrow> get (put b v) = v"
    and put_outside: "i < pos \<or> pos + len \<le> i \<Longrightarrow> put b v ! i = b ! i"
    and get_local: "(\<And>i. pos \<le> i \<Longrightarrow> i < pos + len \<Longrightarrow> a ! i = b ! i) \<Longrightarrow> get a = get b"
begin

text \<open>A region outside the field keeps its contents.\<close>

lemma take_put: "n \<le> pos \<Longrightarrow> take n (put b v) = take n b"
  by (rule nth_equalityI) (auto simp: length_put put_outside)

lemma drop_put: "pos + len \<le> n \<Longrightarrow> drop n (put b v) = drop n b"
  by (rule nth_equalityI) (auto simp: length_put put_outside)

end

text \<open>Two fields that do not overlap do not see each other.\<close>

locale two_fields = f: field pos len get put + g: field pos' len' get' put'
  for pos len get put pos' len' get' put' +
  assumes apart: "pos + len \<le> pos' \<or> pos' + len' \<le> pos"
begin

lemma get_put_other: "get (put' b v) = get b"
  using apart by (intro f.get_local g.put_outside) auto

lemma get_put_other': "get' (put b v) = get' b"
  using apart by (intro g.get_local f.put_outside) auto

lemma both:
  "pos + len \<le> length b \<Longrightarrow> pos' + len' \<le> length b \<Longrightarrow>
     get (put' (put b v) w) = v \<and> get' (put' (put b v) w) = w"
  by (simp add: get_put_other f.get_put g.get_put f.length_put)

end

section \<open>16-bit and 32-bit fields\<close>

definition get16 :: "nat \<Rightarrow> bytes \<Rightarrow> u16" where
  "get16 p b = be16 (b ! p) (b ! Suc p)"

definition get32 :: "nat \<Rightarrow> bytes \<Rightarrow> u32" where
  "get32 p b = le32 (b ! p) (b ! (p + 1)) (b ! (p + 2)) (b ! (p + 3))"

definition put32 :: "bytes \<Rightarrow> nat \<Rightarrow> u32 \<Rightarrow> bytes" where
  "put32 b p v = b[p := le_byte 0 v, p + 1 := le_byte 1 v, p + 2 := le_byte 2 v, p + 3 := le_byte 3 v]"

lemma length_put32 [simp]: "length (put32 b p v) = length b"
  by (simp add: put32_def)

lemma nth_put16_other: "i \<noteq> p \<Longrightarrow> i \<noteq> Suc p \<Longrightarrow> put16 b p v ! i = b ! i"
  by (simp add: put16_def)

lemma nth_put32_other: "i < p \<or> p + 4 \<le> i \<Longrightarrow> put32 b p v ! i = b ! i"
  by (auto simp: put32_def)

lemma get16_put16: "Suc p < length b \<Longrightarrow> get16 p (put16 b p v) = v"
  by (simp add: get16_def nth_put16)

lemma get32_put32: "p + 3 < length b \<Longrightarrow> get32 p (put32 b p v) = v"
  by (simp add: get32_def put32_def nth_list_update)

interpretation f16: field p 2 "get16 p" "\<lambda>b. put16 b p" for p
  by unfold_locales (auto simp: get16_put16 nth_put16_other, auto simp: get16_def)

interpretation f32: field p 4 "get32 p" "\<lambda>b. put32 b p" for p
  by unfold_locales (auto simp: get32_put32 nth_put32_other, auto simp: get32_def)

text \<open>The two addresses of an IPv4 header, and the two ports of a TCP or UDP header at \<open>t\<close>.\<close>

interpretation addresses: two_fields 12 4 "get32 12" "\<lambda>b. put32 b 12" 16 4 "get32 16" "\<lambda>b. put32 b 16"
  by unfold_locales simp

interpretation ports: two_fields t 2 "get16 t" "\<lambda>b. put16 b t" "t + 2" 2 "get16 (t + 2)" "\<lambda>b. put16 b (t + 2)" for t
  by unfold_locales simp

text \<open>The bounds-checked accesses of the model in terms of the fields.\<close>

named_theorems access_simps \<open>accesses inside the buffer\<close>

lemma peek8_in [access_simps]: "p < length b \<Longrightarrow> peek8 b p = Inr (b ! p)"
  by (simp add: peek8_def)

lemma peek16_in [access_simps]: "p + 1 < length b \<Longrightarrow> peek16 b p = Inr (get16 p b)"
  by (simp add: peek16_def get16_def)

lemma poke16_in [access_simps]: "p + 1 < length b \<Longrightarrow> poke16 b p v = Inr (put16 b p v)"
  by (simp add: poke16_def put16_def)

lemma load32_in [access_simps]: "p + 3 < length b \<Longrightarrow> load32 b p = Inr (get32 p b)"
  by (simp add: load32_def get32_def)

lemma store32_in [access_simps]: "p + 3 < length b \<Longrightarrow> store32 b p v = Inr (put32 b p v)"
  by (simp add: store32_def put32_def)

lemma span_at_in [access_simps]: "p + n \<le> length b \<Longrightarrow> span_at b p n = Inr (take n (drop p b))"
  by (simp add: span_at_def)

section \<open>The flow of a packet\<close>

text \<open>The addresses and the ports of an IPv4 packet whose transport header starts at \<open>t\<close>.\<close>

definition packet_flow :: "nat \<Rightarrow> bytes \<Rightarrow> flow_key" where
  "packet_flow t b =
     \<lparr>fk_src_ip = get32 12 b, fk_src_port = get16 t b, fk_dst_ip = get32 16 b, fk_dst_port = get16 (t + 2) b\<rparr>"

definition reverse_flow :: "flow_key \<Rightarrow> flow_key" where
  "reverse_flow k =
     \<lparr>fk_src_ip = fk_dst_ip k, fk_src_port = fk_dst_port k, fk_dst_ip = fk_src_ip k, fk_dst_port = fk_src_port k\<rparr>"

text \<open>The four writes of a translation, and what they leave.\<close>

definition put_flow :: "nat \<Rightarrow> flow_key \<Rightarrow> bytes \<Rightarrow> bytes" where
  "put_flow t k b =
     put16 (put16 (put32 (put32 b 12 (fk_src_ip k)) 16 (fk_dst_ip k)) t (fk_src_port k)) (t + 2) (fk_dst_port k)"

lemma length_put_flow [simp]: "length (put_flow t k b) = length b"
  by (simp add: put_flow_def)

lemma nth_put_flow_other:
  "i < 12 \<or> 20 \<le> i \<Longrightarrow> i < t \<or> t + 4 \<le> i \<Longrightarrow> put_flow t k b ! i = b ! i"
  unfolding put_flow_def by (subst nth_put16_other nth_put32_other, linarith, linarith?)+ (rule refl)

lemma packet_flow_local:
  assumes "\<And>i. 12 \<le> i \<Longrightarrow> i < 20 \<Longrightarrow> a ! i = b ! i" "\<And>i. t \<le> i \<Longrightarrow> i < t + 4 \<Longrightarrow> a ! i = b ! i"
  shows "packet_flow t a = packet_flow t b"
proof -
  have "get32 12 a = get32 12 b" "get32 16 a = get32 16 b"
    using assms(1) by (auto intro: f32.get_local)
  moreover have "get16 t a = get16 t b" "get16 (t + 2) a = get16 (t + 2) b"
    using assms(2) by (auto intro: f16.get_local)
  ultimately show ?thesis by (simp add: packet_flow_def)
qed

lemma packet_flow_put_flow:
  assumes "20 \<le> t" "t + 4 \<le> length b"
  shows "packet_flow t (put_flow t k b) = k"
proof -
  let ?b2 = "put32 (put32 b 12 (fk_src_ip k)) 16 (fk_dst_ip k)"
  have "get32 12 (put_flow t k b) = get32 12 ?b2" "get32 16 (put_flow t k b) = get32 16 ?b2"
    using assms by (auto simp: put_flow_def nth_put16_other intro!: f32.get_local)
  moreover have "get32 12 ?b2 = fk_src_ip k \<and> get32 16 ?b2 = fk_dst_ip k"
    using assms by (intro addresses.both) simp_all
  moreover have "get16 t (put_flow t k b) = fk_src_port k \<and> get16 (t + 2) (put_flow t k b) = fk_dst_port k"
    unfolding put_flow_def using assms by (intro ports.both) simp_all
  ultimately show ?thesis by (simp add: packet_flow_def)
qed

end
