(* ===== verification/Tun_Inbound.thy ===== *)
theory Tun_Inbound
  imports Packet_Fields Udp_Flow Address
begin

text \<open>
  \<open>src/inbound/tun_inbound.hpp\<close> and \<open>tun_inbound.cpp\<close>: the packet handlers of the TUN inbound.
  A packet is the buffer that \<open>wintun\<close> handed out; its size is the length of the list. The
  transport header \<open>tcp\<close> or \<open>udp_header\<close> is an offset into the same buffer. A handler returns
  whether the packet is to be written back, the packet as it left it, and the new state; it is
  \<open>None\<close> when the search for a NAT port does not return.
\<close>

section \<open>State\<close>

text \<open>
  The flows are shared objects: \<open>flow_objs\<close> holds them all by their number, \<open>udp_flows\<close> is the
  map of the inbound from a NAT port to the number of its flow. \<open>io_tasks\<close> is the work handed to
  the \<open>io_context\<close>, oldest first, \<open>tun_written\<close> what was written to the adapter.
\<close>

datatype io_task = Run_flow nat spawn | Close_flow nat

record tun_inbound =
  tun_ip :: u32
  tun_next_ip :: u32
  tcp_listen_port :: u16
  tcp_nat :: tun_nat
  udp_nat :: tun_nat
  udp_flows :: "(u16 \<times> nat) list"
  flow_objs :: "udp_flow list"
  io_tasks :: "io_task list"
  tun_written :: "bytes list"
  stopping :: bool
  acceptor_open :: bool
  routes_configured :: bool

text \<open>The inbound after \<open>start\<close> has set up its addresses, routes and acceptor.\<close>

definition tun_init :: "u32 \<Rightarrow> u32 \<Rightarrow> u16 \<Rightarrow> tun_inbound" where
  "tun_init ip next_ip port =
     \<lparr>tun_ip = ip, tun_next_ip = next_ip, tcp_listen_port = port, tcp_nat = nat_init 0,
      udp_nat = nat_init 1024, udp_flows = [], flow_objs = [], io_tasks = [], tun_written = [],
      stopping = False, acceptor_open = True, routes_configured = True\<rparr>"

type_synonym handled = "((bool \<times> bytes) res \<times> tun_inbound) option"

section \<open>Parsing a packet\<close>

definition is_ipv4_packet :: "bytes \<Rightarrow> bool res" where
  "is_ipv4_packet packet =
     (if length packet < 20 then Inr False
      else bindE (peek8 packet 0) (\<lambda>b. Inr (drop_bit 4 b = 4)))"

text \<open>
  The checks at the start of \<open>handle_tcp_packet\<close>: \<open>None\<close> when it returns \<open>false\<close>, otherwise the
  offset and length of the TCP segment and its flow.
\<close>

definition parse_tcp :: "bytes \<Rightarrow> (nat \<times> nat \<times> flow_key) option res" where
  "parse_tcp packet =
     (let size = length packet in
      if size < 20 then Inr None else
      bindE (peek8 packet 0) (\<lambda>b0.
      bindE (peek8 packet 9) (\<lambda>proto.
      if drop_bit 4 b0 \<noteq> 4 \<or> proto \<noteq> 6 then Inr None else
      let ip_header_len = ihl_bytes b0 in
      if size < ip_header_len + 20 then Inr None else
      bindE (peek16 packet 2) (\<lambda>total_len.
      if unat total_len > size \<or> unat total_len < ip_header_len + 20 then Inr None else
      let tcp = ip_header_len; tcp_len = unat total_len - ip_header_len in
      bindE (load32 packet 12) (\<lambda>src_ip.
      bindE (load32 packet 16) (\<lambda>dst_ip.
      bindE (peek16 packet tcp) (\<lambda>src_port.
      bindE (peek16 packet (tcp + 2)) (\<lambda>dst_port.
      Inr (Some (tcp, tcp_len,
        \<lparr>fk_src_ip = src_ip, fk_src_port = src_port, fk_dst_ip = dst_ip, fk_dst_port = dst_port\<rparr>))))))))))"

text \<open>The checks at the start of \<open>handle_udp_packet\<close>: offset and length of the datagram, and its flow.\<close>

definition parse_udp :: "bytes \<Rightarrow> (nat \<times> nat \<times> flow_key) option res" where
  "parse_udp packet =
     (let size = length packet in
      if size < 20 then Inr None else
      bindE (peek8 packet 0) (\<lambda>b0.
      bindE (peek8 packet 9) (\<lambda>proto.
      if drop_bit 4 b0 \<noteq> 4 \<or> proto \<noteq> 17 then Inr None else
      let ip_header_len = ihl_bytes b0 in
      if size < ip_header_len + 8 then Inr None else
      bindE (peek16 packet 2) (\<lambda>total_len.
      if unat total_len > size \<or> unat total_len < ip_header_len + 8 then Inr None else
      bindE (peek16 packet 6) (\<lambda>fragment.
      if fragment AND 0x3fff \<noteq> 0 then Inr None else
      let udp_header = ip_header_len in
      bindE (peek16 packet (udp_header + 4)) (\<lambda>udp_len.
      if unat udp_len < 8 \<or> ip_header_len + unat udp_len > unat total_len then Inr None else
      bindE (load32 packet 12) (\<lambda>src_ip.
      bindE (load32 packet 16) (\<lambda>dst_ip.
      bindE (peek16 packet udp_header) (\<lambda>src_port.
      bindE (peek16 packet (udp_header + 2)) (\<lambda>dst_port.
      Inr (Some (udp_header, unat udp_len,
        \<lparr>fk_src_ip = src_ip, fk_src_port = src_port, fk_dst_ip = dst_ip, fk_dst_port = dst_port\<rparr>))))))))))))"

section \<open>TCP\<close>

text \<open>
  The rewriting that both directions share: the two addresses, the two ports, the two checksums,
  in this order.
\<close>

definition rewrite_tcp :: "bytes \<Rightarrow> nat \<Rightarrow> nat \<Rightarrow> flow_key \<Rightarrow> bytes res" where
  "rewrite_tcp packet tcp tcp_len new =
     bindE (store32 packet 12 (fk_src_ip new)) (\<lambda>packet.
     bindE (store32 packet 16 (fk_dst_ip new)) (\<lambda>packet.
     bindE (poke16 packet tcp (fk_src_port new)) (\<lambda>packet.
     bindE (poke16 packet (tcp + 2) (fk_dst_port new)) (\<lambda>packet.
     bindE (recalc_ipv4_checksum packet 0) (\<lambda>packet.
     recalc_tcp_checksum packet 0 tcp tcp_len)))))"

definition handle_tcp_from_local_relay :: "tun_inbound \<Rightarrow> bytes \<Rightarrow> nat \<Rightarrow> nat \<Rightarrow> u16 \<Rightarrow> (bool \<times> bytes) res" where
  "handle_tcp_from_local_relay st packet tcp tcp_len nat_port =
     (case lookup_back (tcp_nat st) nat_port of
        None \<Rightarrow> Inr (False, packet)
      | Some s \<Rightarrow>
          bindE (rewrite_tcp packet tcp tcp_len
              \<lparr>fk_src_ip = fk_dst_ip s, fk_src_port = fk_dst_port s, fk_dst_ip = fk_src_ip s, fk_dst_port = fk_src_port s\<rparr>)
            (\<lambda>packet. Inr (True, packet)))"

definition handle_tcp_from_stack :: "tun_inbound \<Rightarrow> bytes \<Rightarrow> nat \<Rightarrow> nat \<Rightarrow> flow_key \<Rightarrow> handled" where
  "handle_tcp_from_stack st packet tcp tcp_len key =
     (case lookup_or_create (tcp_nat st) key of
        None \<Rightarrow> None
      | Some (nat_result, table) \<Rightarrow>
          Some (bindE (rewrite_tcp packet tcp tcp_len
              \<lparr>fk_src_ip = tun_next_ip st, fk_src_port = lr_nat_port nat_result,
               fk_dst_ip = tun_ip st, fk_dst_port = tcp_listen_port st\<rparr>)
            (\<lambda>packet. Inr (True, packet)), st\<lparr>tcp_nat := table\<rparr>))"

definition handle_tcp_packet :: "tun_inbound \<Rightarrow> bytes \<Rightarrow> handled" where
  "handle_tcp_packet st packet =
     (case parse_tcp packet of
        Inl e \<Rightarrow> Some (Inl e, st)
      | Inr None \<Rightarrow> Some (Inr (False, packet), st)
      | Inr (Some (tcp, tcp_len, key)) \<Rightarrow>
          if fk_src_ip key = tun_ip st \<and> fk_src_port key = tcp_listen_port st
          then Some (handle_tcp_from_local_relay st packet tcp tcp_len (fk_dst_port key), st)
          else handle_tcp_from_stack st packet tcp tcp_len key)"

section \<open>UDP\<close>

definition erase_udp_flow :: "u16 \<Rightarrow> tun_inbound \<Rightarrow> tun_inbound" where
  "erase_udp_flow nat_port st =
     (case map_of (udp_flows st) nat_port of
        None \<Rightarrow> st\<lparr>udp_nat := nat_erase nat_port (udp_nat st)\<rparr>
      | Some flow \<Rightarrow>
          st\<lparr>udp_flows := AList.delete nat_port (udp_flows st),
             udp_nat := nat_erase nat_port (udp_nat st),
             io_tasks := io_tasks st @ [Close_flow flow]\<rparr>)"

text \<open>The flow of a NAT port, made when there is none.\<close>

definition find_flow :: "u16 \<Rightarrow> flow_key \<Rightarrow> tun_inbound \<Rightarrow> nat \<times> tun_inbound" where
  "find_flow nat_port session st =
     (case map_of (udp_flows st) nat_port of
        None \<Rightarrow> (length (flow_objs st),
          st\<lparr>flow_objs := flow_objs st @ [new_flow nat_port session],
             udp_flows := AList.update nat_port (length (flow_objs st)) (udp_flows st)\<rparr>)
      | Some flow \<Rightarrow> (flow, st))"

definition flow_enqueue :: "nat \<Rightarrow> bytes \<Rightarrow> tun_inbound \<Rightarrow> tun_inbound" where
  "flow_enqueue flow payload st =
     (let (spawned, f) = enqueue payload (flow_objs st ! flow)
      in st\<lparr>flow_objs := (flow_objs st)[flow := f],
            io_tasks := io_tasks st @ (case spawned of None \<Rightarrow> [] | Some c \<Rightarrow> [Run_flow flow c])\<rparr>)"

definition handle_udp_packet :: "tun_inbound \<Rightarrow> bytes \<Rightarrow> handled" where
  "handle_udp_packet st packet =
     (case parse_udp packet of
        Inl e \<Rightarrow> Some (Inl e, st)
      | Inr None \<Rightarrow> Some (Inr (False, packet), st)
      | Inr (Some (udp_header, udp_len, key)) \<Rightarrow>
          (case lookup_or_create (udp_nat st) key of
             None \<Rightarrow> None
           | Some (nat_result, table) \<Rightarrow>
               let st = st\<lparr>udp_nat := table\<rparr>;
                   st = (case lr_evicted_nat_port nat_result of None \<Rightarrow> st | Some p \<Rightarrow> erase_udp_flow p st);
                   nat_port = lr_nat_port nat_result
               in case lookup_back (udp_nat st) nat_port of
                    None \<Rightarrow> Some (Inr (False, packet), st)
                  | Some session \<Rightarrow>
                      let (flow, st) = find_flow nat_port session st
                      in case span_at packet (udp_header + 8) (udp_len - 8) of
                           Inl e \<Rightarrow> Some (Inl e, st)
                         | Inr payload \<Rightarrow> Some (Inr (False, packet), flow_enqueue flow payload st)))"

definition handle_ipv4_packet :: "tun_inbound \<Rightarrow> bytes \<Rightarrow> handled" where
  "handle_ipv4_packet st packet =
     (case is_ipv4_packet packet of
        Inl e \<Rightarrow> Some (Inl e, st)
      | Inr False \<Rightarrow> Some (Inr (False, packet), st)
      | Inr True \<Rightarrow>
          (case peek8 packet 9 of
             Inl e \<Rightarrow> Some (Inl e, st)
           | Inr proto \<Rightarrow>
               if proto = 6 then handle_tcp_packet st packet
               else if proto = 17 then handle_udp_packet st packet
               else Some (Inr (False, packet), st)))"

text \<open>One received packet in \<open>packet_loop\<close>; what the handler raises leaves the loop.\<close>

definition packet_round :: "tun_inbound \<Rightarrow> bytes \<Rightarrow> tun_inbound res option" where
  "packet_round st packet =
     map_option (\<lambda>(r, st). bindE r (\<lambda>(write, packet).
       Inr (if write then st\<lparr>tun_written := tun_written st @ [packet]\<rparr> else st)))
       (handle_ipv4_packet st packet)"

text \<open>\<open>std::memcpy(packet + p, data, size)\<close>\<close>

definition copy_at :: "bytes \<Rightarrow> nat \<Rightarrow> bytes \<Rightarrow> bytes res" where
  "copy_at buf p data =
     (if p + length data \<le> length buf then Inr (take p buf @ data @ drop (p + length data) buf) else Inl oob)"

definition udp_response :: "flow_key \<Rightarrow> bytes \<Rightarrow> bytes option res" where
  "udp_response session data =
     (let udp_len = 8 + length data; total_len = 20 + udp_len in
      if total_len > 65535 then Inr None else
      bindE (poke8 (replicate total_len 0) 0 0x45) (\<lambda>packet.
      bindE (poke8 packet 8 64) (\<lambda>packet.
      bindE (poke8 packet 9 17) (\<lambda>packet.
      bindE (poke16 packet 2 (word_of_nat total_len)) (\<lambda>packet.
      bindE (poke16 packet 6 0x4000) (\<lambda>packet.
      bindE (store32 packet 12 (fk_dst_ip session)) (\<lambda>packet.
      bindE (store32 packet 16 (fk_src_ip session)) (\<lambda>packet.
      bindE (poke16 packet 20 (fk_dst_port session)) (\<lambda>packet.
      bindE (poke16 packet 22 (fk_src_port session)) (\<lambda>packet.
      bindE (poke16 packet 24 (word_of_nat udp_len)) (\<lambda>packet.
      bindE (copy_at packet 28 data) (\<lambda>packet.
      bindE (recalc_ipv4_checksum packet 0) (\<lambda>packet.
      bindE (recalc_udp_checksum packet 0 20 udp_len) (\<lambda>packet.
      Inr (Some packet)))))))))))))))"

definition write_udp_response :: "flow_key \<Rightarrow> bytes \<Rightarrow> tun_inbound \<Rightarrow> tun_inbound res" where
  "write_udp_response session data st =
     bindE (udp_response session data) (\<lambda>r.
     Inr (case r of None \<Rightarrow> st | Some packet \<Rightarrow> st\<lparr>tun_written := tun_written st @ [packet]\<rparr>))"

section \<open>Accepted connections and \<open>stop\<close>\<close>

text \<open>
  \<open>handle_client\<close> up to the call of the handler: the destination of the connection whose peer has
  this port, \<open>None\<close> for an unknown port; and what it does after the handler.
\<close>

definition ipv4_to_string :: "asio_ip \<Rightarrow> u32 \<Rightarrow> string" where
  "ipv4_to_string I value = v4_to_string I (address_v4_from_net_order_u32 value)"

definition client_destination :: "asio_ip \<Rightarrow> tun_inbound \<Rightarrow> u16 \<Rightarrow> destination res option" where
  "client_destination I st nat_port =
     map_option (\<lambda>s.
       bindE (host_ipv4 I (ipv4_to_string I (fk_dst_ip s))) (\<lambda>h.
       Inr \<lparr>dst_host = h, dst_port = fk_dst_port s\<rparr>))
       (lookup_back (tcp_nat st) nat_port)"

definition client_finished :: "u16 \<Rightarrow> tun_inbound \<Rightarrow> tun_inbound" where
  "client_finished nat_port st = st\<lparr>tcp_nat := nat_erase nat_port (tcp_nat st)\<rparr>"

definition tun_stop :: "tun_inbound \<Rightarrow> tun_inbound" where
  "tun_stop st =
     (if stopping st then st
      else st\<lparr>stopping := True, acceptor_open := False, udp_flows := [],
              io_tasks := io_tasks st @ map (Close_flow \<circ> snd) (udp_flows st),
              routes_configured := False\<rparr>)"

section \<open>Parsing\<close>

text \<open>What a packet that passes the checks looks like; every access of the checks is in bounds.\<close>

definition tcp_packet :: "bytes \<Rightarrow> nat \<Rightarrow> nat \<Rightarrow> bool" where
  "tcp_packet p t len \<longleftrightarrow> 20 \<le> length p \<and> drop_bit 4 (p ! 0) = 4 \<and> p ! 9 = 6 \<and> t = ihl_bytes (p ! 0) \<and>
     t + len = unat (get16 2 p) \<and> 20 \<le> len \<and> t + len \<le> length p"

definition udp_packet :: "bytes \<Rightarrow> nat \<Rightarrow> nat \<Rightarrow> bool" where
  "udp_packet p t len \<longleftrightarrow> 20 \<le> length p \<and> drop_bit 4 (p ! 0) = 4 \<and> p ! 9 = 17 \<and> t = ihl_bytes (p ! 0) \<and>
     t + 8 \<le> unat (get16 2 p) \<and> unat (get16 2 p) \<le> length p \<and> get16 6 p AND 0x3fff = 0 \<and>
     len = unat (get16 (t + 4) p) \<and> 8 \<le> len \<and> t + len \<le> unat (get16 2 p)"

lemma parse_tcp_eq:
  "parse_tcp p =
     (let t = ihl_bytes (p ! 0); len = unat (get16 2 p) - t
      in if tcp_packet p t len then Inr (Some (t, len, packet_flow t p)) else Inr None)"
proof (cases "20 \<le> length p \<and> drop_bit 4 (p ! 0) = 4 \<and> p ! 9 = 6 \<and> ihl_bytes (p ! 0) + 20 \<le> length p \<and>
    unat (get16 2 p) \<le> length p \<and> ihl_bytes (p ! 0) + 20 \<le> unat (get16 2 p)")
  case True
  then have "tcp_packet p (ihl_bytes (p ! 0)) (unat (get16 2 p) - ihl_bytes (p ! 0))"
    by (auto simp: tcp_packet_def)
  moreover from True have "p \<noteq> []" by auto
  ultimately show ?thesis
    using True by (simp add: parse_tcp_def Let_def access_simps packet_flow_def)
next
  case False
  then have "\<not> tcp_packet p (ihl_bytes (p ! 0)) (unat (get16 2 p) - ihl_bytes (p ! 0))"
    by (auto simp: tcp_packet_def)
  moreover have "parse_tcp p = Inr None"
  proof (cases "p = []")
    case False
    with \<open>\<not> (_ \<and> _)\<close> show ?thesis by (auto simp: parse_tcp_def Let_def access_simps)
  qed (simp add: parse_tcp_def)
  ultimately show ?thesis by simp
qed

lemma parse_udp_eq:
  "parse_udp p =
     (let t = ihl_bytes (p ! 0); len = unat (get16 (t + 4) p)
      in if udp_packet p t len then Inr (Some (t, len, packet_flow t p)) else Inr None)"
proof (cases "udp_packet p (ihl_bytes (p ! 0)) (unat (get16 (ihl_bytes (p ! 0) + 4) p))")
  case True
  then have "p \<noteq> []" by (auto simp: udp_packet_def)
  with True show ?thesis
    by (simp add: parse_udp_def Let_def access_simps packet_flow_def udp_packet_def)
next
  case False
  show ?thesis
  proof (cases "20 \<le> length p")
    case True
    then have "p \<noteq> []" by auto
    with True False have "parse_udp p = Inr None"
    by (auto simp: parse_udp_def Let_def access_simps udp_packet_def)
    with False show ?thesis by simp
  qed (simp add: parse_udp_def udp_packet_def)
qed

lemma parse_tcp_Some:
  "parse_tcp p = Inr (Some (t, len, key)) \<longleftrightarrow> tcp_packet p t len \<and> key = packet_flow t p"
  unfolding parse_tcp_eq Let_def by (auto simp: tcp_packet_def)

lemma parse_udp_Some:
  "parse_udp p = Inr (Some (t, len, key)) \<longleftrightarrow> udp_packet p t len \<and> key = packet_flow t p"
  unfolding parse_udp_eq Let_def by (auto simp: udp_packet_def)

section \<open>Rewriting\<close>

text \<open>
  What a translation leaves: a packet with the new flow and two valid checksums, all other bytes
  as they were.
\<close>

definition translated :: "nat \<Rightarrow> nat \<Rightarrow> flow_key \<Rightarrow> bytes \<Rightarrow> bytes \<Rightarrow> bool" where
  "translated t len new p q \<longleftrightarrow> length q = length p \<and> packet_flow t q = new \<and>
     checksum (take t q) = 0 \<and> checksum (pseudo_of q 6 t len) = 0 \<and>
     (\<forall>i. (i < 10 \<or> 20 \<le> i) \<and> (i < t \<or> t + 4 \<le> i) \<and> i \<noteq> t + 16 \<and> i \<noteq> t + 17 \<longrightarrow> q ! i = p ! i)"

lemma take_cong_nth: "length a = length b \<Longrightarrow> (\<And>i. i < n \<Longrightarrow> a ! i = b ! i) \<Longrightarrow> take n a = take n b"
  by (rule nth_equalityI) auto

lemma rewrite_tcp_translated:
  assumes t: "20 \<le> t" "t = ihl_bytes (p ! 0)" and len: "20 \<le> len" "len < 65536" "t + len \<le> length p"
  shows "\<exists>q. rewrite_tcp p t len new = Inr q \<and> translated t len new p q"
proof -
  let ?b = "put_flow t new p"
  have b: "?b ! i = p ! i" if "i < 12 \<or> 20 \<le> i" "i < t \<or> t + 4 \<le> i" for i
    using that by (rule nth_put_flow_other)
  then have ihl: "ihl_bytes (?b ! 0) = t" using t by simp
  obtain c where c: "recalc_ipv4_checksum ?b 0 = Inr c" "checksum (take t c) = 0" "length c = length p"
    and c_nth: "\<And>i. i \<noteq> 10 \<Longrightarrow> i \<noteq> 11 \<Longrightarrow> c ! i = ?b ! i"
    using recalc_ipv4_verifies [of ?b] ihl t len by auto
  obtain d where d: "recalc_tcp_checksum c 0 t len = Inr d" "checksum (pseudo_of d 6 t len) = 0" "length d = length c"
    and d_nth: "\<And>i. i \<noteq> t + 16 \<Longrightarrow> i \<noteq> t + 17 \<Longrightarrow> d ! i = c ! i"
    using recalc_tcp_verifies [of len t c] t len c by auto
  have "rewrite_tcp p t len new = Inr d"
    using t len c d by (simp add: rewrite_tcp_def access_simps put_flow_def)
  moreover have "packet_flow t d = packet_flow t ?b"
    using t by (intro packet_flow_local) (simp_all add: d_nth c_nth)
  moreover have "packet_flow t ?b = new"
    using t len by (intro packet_flow_put_flow) simp_all
  moreover have "take t d = take t c"
    using d by (intro take_cong_nth) (simp_all add: d_nth)
  ultimately show ?thesis
    using c d b by (auto simp: translated_def d_nth c_nth)
qed

section \<open>TCP\<close>

lemma tcp_packet_bounds:
  "tcp_packet p t len \<Longrightarrow> len < 65536 \<and> 20 \<le> len \<and> t + len \<le> length p \<and> t = ihl_bytes (p ! 0)"
  using unsigned_less [of "get16 2 p", where ?'a = nat] by (auto simp: tcp_packet_def)

lemma tcp_rewrite:
  assumes "tcp_packet p t len" "20 \<le> t"
  obtains q where "rewrite_tcp p t len new = Inr q" "translated t len new p q"
  using rewrite_tcp_translated [of t p len new] tcp_packet_bounds [OF assms(1)] assms(2) by auto

lemma from_local_relay_known:
  assumes "tcp_packet p t len" "20 \<le> t" "lookup_back (tcp_nat st) port = Some k"
  shows "\<exists>q. handle_tcp_from_local_relay st p t len port = Inr (True, q) \<and> translated t len (reverse_flow k) p q"
proof -
  obtain q where "rewrite_tcp p t len (reverse_flow k) = Inr q" "translated t len (reverse_flow k) p q"
    using tcp_rewrite [OF assms(1,2)] .
  with assms(3) show ?thesis by (simp add: handle_tcp_from_local_relay_def reverse_flow_def)
qed

text \<open>The flow under which the local relay is seen by the applications' side of the adapter.\<close>

definition relay_flow :: "tun_inbound \<Rightarrow> u16 \<Rightarrow> flow_key" where
  "relay_flow st port =
     \<lparr>fk_src_ip = tun_next_ip st, fk_src_port = port, fk_dst_ip = tun_ip st, fk_dst_port = tcp_listen_port st\<rparr>"

definition from_relay :: "tun_inbound \<Rightarrow> flow_key \<Rightarrow> bool" where
  "from_relay st key \<longleftrightarrow> fk_src_ip key = tun_ip st \<and> fk_src_port key = tcp_listen_port st"

lemma from_stack_eq:
  assumes p: "tcp_packet p t len" "20 \<le> t" and inv: "nat_inv (tcp_nat st)"
    and call: "handle_tcp_from_stack st p t len key = Some (r, st')"
  shows "\<exists>q port table. r = Inr (True, q) \<and> st' = st\<lparr>tcp_nat := table\<rparr> \<and> nat_inv table \<and>
    lookup_back table port = Some key \<and> translated t len (relay_flow st port) p q"
proof -
  from call obtain n table where l: "lookup_or_create (tcp_nat st) key = Some (n, table)"
    and r: "r = bindE (rewrite_tcp p t len (relay_flow st (lr_nat_port n))) (\<lambda>packet. Inr (True, packet))"
    and st': "st' = st\<lparr>tcp_nat := table\<rparr>"
    by (auto simp: handle_tcp_from_stack_def relay_flow_def split: option.splits)
  obtain q where "rewrite_tcp p t len (relay_flow st (lr_nat_port n)) = Inr q"
    "translated t len (relay_flow st (lr_nat_port n)) p q"
    using tcp_rewrite [OF p] .
  moreover have "lookup_back table (lr_nat_port n) = Some key" "nat_inv table"
    using nat_table.create_back [OF inv, of key "lr_nat_port n" "lr_evicted_nat_port n" table "lr_nat_port n"]
      nat_table.create_inv [OF inv, of key "lr_nat_port n" "lr_evicted_nat_port n" table] l
    by (auto simp: nat_create_eq_Some)
  ultimately show ?thesis using r st' by auto
qed

lemma handle_tcp_eq:
  "handle_tcp_packet st p =
     (let t = ihl_bytes (p ! 0); len = unat (get16 2 p) - t; key = packet_flow t p in
      if \<not> tcp_packet p t len then Some (Inr (False, p), st)
      else if from_relay st key then Some (handle_tcp_from_local_relay st p t len (fk_dst_port key), st)
      else handle_tcp_from_stack st p t len key)"
  by (simp add: handle_tcp_packet_def parse_tcp_eq from_relay_def Let_def)

lemma handle_ipv4_eq:
  "handle_ipv4_packet st p =
     (if 20 \<le> length p \<and> drop_bit 4 (p ! 0) = 4 then
        if p ! 9 = 6 then handle_tcp_packet st p
        else if p ! 9 = 17 then handle_udp_packet st p else Some (Inr (False, p), st)
      else Some (Inr (False, p), st))"
proof (cases "p = []")
  case False
  then show ?thesis
    by (auto simp: handle_ipv4_packet_def is_ipv4_packet_def access_simps split: bool.split)
qed (simp add: handle_ipv4_packet_def is_ipv4_packet_def)

lemma handle_ipv4_tcp:
  assumes "tcp_packet p t len"
  shows "handle_ipv4_packet st p =
    (if from_relay st (packet_flow t p)
     then Some (handle_tcp_from_local_relay st p t len (fk_dst_port (packet_flow t p)), st)
     else handle_tcp_from_stack st p t len (packet_flow t p))"
proof -
  have "t = ihl_bytes (p ! 0)" "len = unat (get16 2 p) - t" "20 \<le> length p" "drop_bit 4 (p ! 0) = 4" "p ! 9 = 6"
    using assms by (auto simp: tcp_packet_def)
  then show ?thesis using assms by (simp add: handle_ipv4_eq handle_tcp_eq Let_def)
qed

section \<open>UDP\<close>

text \<open>
  The invariant of the inbound: both NAT tables are sound, the UDP one is limited, and the flow
  registered for a port is the flow that the table knows under this port.
\<close>

definition flows_ok :: "tun_inbound \<Rightarrow> bool" where
  "flows_ok st \<longleftrightarrow>
     distinct (map fst (udp_flows st)) \<and>
     (\<forall>p i. map_of (udp_flows st) p = Some i \<longrightarrow>
        i < length (flow_objs st) \<and> fl_nat_port (flow_objs st ! i) = p \<and>
        lookup_back (udp_nat st) p = Some (fl_session (flow_objs st ! i)))"

definition tun_inv :: "tun_inbound \<Rightarrow> bool" where
  "tun_inv st \<longleftrightarrow> nat_inv (tcp_nat st) \<and> nat_inv (udp_nat st) \<and>
     0 < max_sessions (udp_nat st) \<and> max_sessions (udp_nat st) \<le> 55536 \<and> flows_ok st"

lemma tun_inv_init: "tun_inv (tun_init ip next_ip port)"
  using nat_inv_init [of 0] nat_inv_init [of 1024] by (simp add: tun_inv_def tun_init_def flows_ok_def nat_init_def)

lemma udp_nat_erase_flow [simp]: "udp_nat (erase_udp_flow p st) = nat_erase p (udp_nat st)"
  by (simp add: erase_udp_flow_def split: option.split)

lemma erase_flow_fields [simp]:
  "tcp_nat (erase_udp_flow p st) = tcp_nat st" "flow_objs (erase_udp_flow p st) = flow_objs st"
  "tun_written (erase_udp_flow p st) = tun_written st" "stopping (erase_udp_flow p st) = stopping st"
  by (simp_all add: erase_udp_flow_def split: option.split)

lemma map_of_erase_flow:
  "distinct (map fst (udp_flows st)) \<Longrightarrow>
   map_of (udp_flows (erase_udp_flow p st)) q = (if q = p then None else map_of (udp_flows st) q)"
  by (auto simp: erase_udp_flow_def delete_conv split: option.split)

lemma flows_ok_erase:
  assumes "flows_ok st" "nat_inv (udp_nat st)"
  shows "flows_ok (erase_udp_flow p st)"
proof -
  have "distinct (map fst (udp_flows (erase_udp_flow p st)))"
    using assms by (auto simp: erase_udp_flow_def flows_ok_def distinct_delete split: option.split)
  then show ?thesis
    using assms map_of_erase_flow [of st p] unfolding flows_ok_def
    by (auto simp: lookup_back_erase split: if_splits)
qed

lemma tun_inv_erase: "tun_inv st \<Longrightarrow> tun_inv (erase_udp_flow p st)"
  by (simp add: tun_inv_def flows_ok_erase nat_inv_erase)

text \<open>A datagram makes room in the table and loses the flow of the port that was evicted.\<close>

definition evict_flow :: "u16 option \<Rightarrow> tun_inbound \<Rightarrow> tun_inbound" where
  "evict_flow ev st = (case ev of None \<Rightarrow> st | Some p \<Rightarrow> erase_udp_flow p st)"

lemma flows_ok_create:
  assumes inv: "tun_inv st" and call: "lookup_or_create (udp_nat st) key = Some (n, table)"
  shows "flows_ok (evict_flow (lr_evicted_nat_port n) (st\<lparr>udp_nat := table\<rparr>))"
proof -
  let ?p = "lr_nat_port n" and ?ev = "lr_evicted_nat_port n"
  have nat: "nat_inv (udp_nat st)" using inv by (simp add: tun_inv_def)
  have create: "nat_create (udp_nat st) key = Some (?p, ?ev, table)"
    using call by (auto simp: nat_create_eq_Some)
  note found = nat_table.create_back [OF nat create]
  note owner = nat_table.create_owner [OF nat create]
  have t: "nat_inv table" by (rule nat_table.create_inv [OF nat create])
  have ok: "flows_ok st" using inv by (simp add: tun_inv_def)
  have keep: "lookup_back table q = Some (fl_session (flow_objs st ! i))"
    if "map_of (udp_flows st) q = Some i" "?ev \<noteq> Some q" for q i
    using that ok owner found [of q] by (cases "q = ?p") (auto simp: flows_ok_def)
  show ?thesis
  proof (cases ?ev)
    case None
    then show ?thesis using ok keep by (auto simp: evict_flow_def flows_ok_def)
  next
    case (Some e)
    have "map_of (udp_flows (erase_udp_flow e (st\<lparr>udp_nat := table\<rparr>))) q =
        (if q = e then None else map_of (udp_flows st) q)" for q
      using ok by (subst map_of_erase_flow) (auto simp: flows_ok_def)
    moreover have "distinct (map fst (udp_flows (erase_udp_flow e (st\<lparr>udp_nat := table\<rparr>))))"
      using ok by (auto simp: erase_udp_flow_def flows_ok_def distinct_delete split: option.split)
    ultimately show ?thesis
      using Some ok keep t unfolding evict_flow_def flows_ok_def
      by (auto simp: lookup_back_erase split: if_splits)
  qed
qed

lemma enqueue_keeps: "enqueue payload f = (sp, f') \<Longrightarrow>
    fl_nat_port f' = fl_nat_port f \<and> fl_session f' = fl_session f \<and> fl_pending f' = fl_pending f @ [payload]"
  by (auto simp: enqueue_def Let_def split: if_splits)

lemma flows_ok_find:
  assumes "flows_ok st" "lookup_back (udp_nat st) port = Some session" "find_flow port session st = (i, st')"
  shows "flows_ok st'" "map_of (udp_flows st') port = Some i" "i < length (flow_objs st')"
    and "fl_session (flow_objs st' ! i) = session" "udp_nat st' = udp_nat st" "tcp_nat st' = tcp_nat st"
proof -
  have all: "flows_ok st' \<and> map_of (udp_flows st') port = Some i \<and> i < length (flow_objs st') \<and>
    fl_session (flow_objs st' ! i) = session \<and> udp_nat st' = udp_nat st \<and> tcp_nat st' = tcp_nat st"
  proof (cases "map_of (udp_flows st) port")
    case None
    then have i: "i = length (flow_objs st)"
      and st': "st' = st\<lparr>flow_objs := flow_objs st @ [new_flow port session],
        udp_flows := AList.update port (length (flow_objs st)) (udp_flows st)\<rparr>"
      using assms(3) by (auto simp: find_flow_def)
    have d: "distinct (map fst (AList.update port (length (flow_objs st)) (udp_flows st)))"
      using assms(1) by (simp add: flows_ok_def distinct_update)
    have old: "k < length (flow_objs st) \<and> fl_nat_port (flow_objs st ! k) = q \<and>
        lookup_back (udp_nat st) q = Some (fl_session (flow_objs st ! k))"
      if "map_of (udp_flows st) q = Some k" for q k
      using assms(1) that unfolding flows_ok_def by blast
    have n: "fl_nat_port (new_flow port session) = port" "fl_session (new_flow port session) = session"
      by (simp_all add: new_flow_def)
    have "flows_ok st'"
      unfolding flows_ok_def st' using d old assms(2) n
      by (simp add: update_conv nth_append less_Suc_eq)
    then show ?thesis by (simp add: i st' n update_conv)
  next
    case (Some j)
    then show ?thesis using assms by (auto simp: find_flow_def flows_ok_def)
  qed
  then show "flows_ok st'" "map_of (udp_flows st') port = Some i" "i < length (flow_objs st')"
    "fl_session (flow_objs st' ! i) = session" "udp_nat st' = udp_nat st" "tcp_nat st' = tcp_nat st"
    by simp_all
qed

lemma flow_enqueue_fields [simp]:
  "udp_nat (flow_enqueue i payload st) = udp_nat st" "tcp_nat (flow_enqueue i payload st) = tcp_nat st"
  "udp_flows (flow_enqueue i payload st) = udp_flows st"
  by (simp_all add: flow_enqueue_def split: prod.split)

lemma flow_enqueue_objs:
  assumes "i < length (flow_objs st)"
  shows "length (flow_objs (flow_enqueue i payload st)) = length (flow_objs st)"
    and "fl_session (flow_objs (flow_enqueue i payload st) ! j) = fl_session (flow_objs st ! j)"
    and "fl_nat_port (flow_objs (flow_enqueue i payload st) ! j) = fl_nat_port (flow_objs st ! j)"
    and "fl_pending (flow_objs (flow_enqueue i payload st) ! i) = fl_pending (flow_objs st ! i) @ [payload]"
proof -
  obtain sp f where e: "enqueue payload (flow_objs st ! i) = (sp, f)" by fastforce
  then have objs: "flow_objs (flow_enqueue i payload st) = (flow_objs st)[i := f]"
    by (simp add: flow_enqueue_def)
  note f = enqueue_keeps [OF e]
  show "length (flow_objs (flow_enqueue i payload st)) = length (flow_objs st)"
    and "fl_session (flow_objs (flow_enqueue i payload st) ! j) = fl_session (flow_objs st ! j)"
    and "fl_nat_port (flow_objs (flow_enqueue i payload st) ! j) = fl_nat_port (flow_objs st ! j)"
    and "fl_pending (flow_objs (flow_enqueue i payload st) ! i) = fl_pending (flow_objs st ! i) @ [payload]"
    unfolding objs using f assms by (cases "j = i"; simp)+
qed

lemma flows_ok_enqueue: "flows_ok st \<Longrightarrow> i < length (flow_objs st) \<Longrightarrow> flows_ok (flow_enqueue i payload st)"
  by (auto simp: flows_ok_def flow_enqueue_objs)

text \<open>The whole effect of a datagram on a sound inbound.\<close>

lemma handle_udp_effect:
  assumes inv: "tun_inv st" and p: "udp_packet p t len"
  shows "\<exists>n table st'. lookup_or_create (udp_nat st) (packet_flow t p) = Some (n, table) \<and>
    handle_udp_packet st p = Some (Inr (False, p), st') \<and> tun_inv st' \<and>
    (if lr_evicted_nat_port n = Some (lr_nat_port n)
     then st' = erase_udp_flow (lr_nat_port n) (st\<lparr>udp_nat := table\<rparr>)
     else \<exists>i. map_of (udp_flows st') (lr_nat_port n) = Some i \<and> i < length (flow_objs st') \<and>
       fl_session (flow_objs st' ! i) = packet_flow t p \<and>
       (\<exists>q. fl_pending (flow_objs st' ! i) = q @ [take (len - 8) (drop (t + 8) p)]))"
proof -
  let ?key = "packet_flow t p" and ?payload = "take (len - 8) (drop (t + 8) p)"
  have nat: "nat_inv (udp_nat st)" and lim: "max_sessions (udp_nat st) \<noteq> 0" "max_sessions (udp_nat st) \<le> 55536"
    using inv by (auto simp: tun_inv_def)
  from limited_returns [OF nat lim] obtain n table where call: "lookup_or_create (udp_nat st) ?key = Some (n, table)"
    by blast
  then have create: "nat_create (udp_nat st) ?key = Some (lr_nat_port n, lr_evicted_nat_port n, table)"
    by (auto simp: nat_create_eq_Some)
  have table: "nat_inv table" by (rule nat_table.create_inv [OF nat create])
  have known: "lookup_back table (lr_nat_port n) = Some ?key"
    using nat_table.create_back [OF nat create] by simp
  let ?st1 = "evict_flow (lr_evicted_nat_port n) (st\<lparr>udp_nat := table\<rparr>)"
  have ok1: "flows_ok ?st1" by (rule flows_ok_create [OF inv call])
  have nat1: "udp_nat ?st1 = (case lr_evicted_nat_port n of None \<Rightarrow> table | Some e \<Rightarrow> nat_erase e table)"
    by (simp add: evict_flow_def split: option.split)
  have max: "max_sessions table = max_sessions (udp_nat st)"
    by (rule max_sessions_create [OF nat call])
  have inv1: "tun_inv ?st1"
    using inv ok1 nat1 table max by (auto simp: tun_inv_def evict_flow_def nat_inv_erase split: option.split)
  have parse: "parse_udp p = Inr (Some (t, len, ?key))"
    using p by (simp add: parse_udp_Some)
  have span: "span_at p (t + 8) (len - 8) = Inr ?payload"
    using p by (intro span_at_in) (auto simp: udp_packet_def)
  show ?thesis
  proof (cases "lr_evicted_nat_port n = Some (lr_nat_port n)")
    case True
    then have "lookup_back (udp_nat ?st1) (lr_nat_port n) = None"
      using nat1 table by (simp add: lookup_back_erase)
    then have "handle_udp_packet st p = Some (Inr (False, p), ?st1)"
      using True by (simp add: handle_udp_packet_def parse call evict_flow_def)
    then show ?thesis using call inv1 True by (simp add: evict_flow_def)
  next
    case False
    then have back1: "lookup_back (udp_nat ?st1) (lr_nat_port n) = Some ?key"
      using nat1 table known by (auto simp: lookup_back_erase split: option.split)
    obtain i st2 where find: "find_flow (lr_nat_port n) ?key ?st1 = (i, st2)" by fastforce
    note f = flows_ok_find [OF ok1 back1 find]
    have "handle_udp_packet st p = Some (Inr (False, p), flow_enqueue i ?payload st2)"
      using back1 find span
      by (cases "lr_evicted_nat_port n") (simp_all add: handle_udp_packet_def parse call evict_flow_def)
    moreover have "tun_inv (flow_enqueue i ?payload st2)"
      using inv1 f flows_ok_enqueue [OF f(1,3)] by (simp add: tun_inv_def)
    ultimately show ?thesis
      using call False f flow_enqueue_objs [OF f(3)] by auto
  qed
qed

section \<open>Steps of the inbound\<close>

text \<open>
  Everything that changes the state of the inbound: a received packet, a relayed connection that
  ends, a flow that fails or ends, the progress of a flow's coroutines, a response that is
  written, and \<open>stop\<close>.
\<close>

inductive tun_step :: "tun_inbound \<Rightarrow> tun_inbound \<Rightarrow> bool" where
  Packet: "packet_round st p = Some (Inr st') \<Longrightarrow> tun_step st st'"
| Client_finished: "tun_step st (client_finished port st)"
| Flow_erased: "tun_step st (erase_udp_flow port st)"
| Flow_connected: "i < length (flow_objs st) \<Longrightarrow> start_connected (flow_objs st ! i) = (sps, f) \<Longrightarrow>
    tun_step st (st\<lparr>flow_objs := (flow_objs st)[i := f], io_tasks := io_tasks st @ map (Run_flow i) sps\<rparr>)"
| Flow_send: "i < length (flow_objs st) \<Longrightarrow> send_take (flow_objs st ! i) = (payload, f) \<Longrightarrow>
    tun_step st (st\<lparr>flow_objs := (flow_objs st)[i := f]\<rparr>)"
| Response: "write_udp_response session data st = Inr st' \<Longrightarrow> tun_step st st'"
| Stop: "tun_step st (tun_stop st)"

inductive_cases tun_step_cases: "tun_step st st'"

lemma tun_inv_more:
  "tun_inv (st\<lparr>tun_written := w\<rparr>) = tun_inv st" "tun_inv (st\<lparr>io_tasks := ts\<rparr>) = tun_inv st"
  by (simp_all add: tun_inv_def flows_ok_def)

lemma tun_inv_obj:
  assumes "tun_inv st" "i < length (flow_objs st)" "fl_nat_port f = fl_nat_port (flow_objs st ! i)"
    "fl_session f = fl_session (flow_objs st ! i)"
  shows "tun_inv (st\<lparr>flow_objs := (flow_objs st)[i := f]\<rparr>)"
proof -
  have "fl_nat_port ((flow_objs st)[i := f] ! j) = fl_nat_port (flow_objs st ! j)"
    "fl_session ((flow_objs st)[i := f] ! j) = fl_session (flow_objs st ! j)" for j
    using assms by (cases "j = i"; simp)+
  then show ?thesis using assms(1) by (simp add: tun_inv_def flows_ok_def)
qed

lemma tun_inv_stop: "tun_inv st \<Longrightarrow> tun_inv (tun_stop st)"
  by (simp add: tun_stop_def tun_inv_def flows_ok_def)

lemma tun_inv_client: "tun_inv st \<Longrightarrow> tun_inv (client_finished port st)"
  by (simp add: client_finished_def tun_inv_def flows_ok_def nat_inv_erase)

lemma tun_inv_tcp_nat: "tun_inv st \<Longrightarrow> nat_inv table \<Longrightarrow> tun_inv (st\<lparr>tcp_nat := table\<rparr>)"
  by (simp add: tun_inv_def flows_ok_def)

lemma tun_inv_tcp:
  assumes "tun_inv st" "handle_tcp_packet st p = Some (r, st')"
  shows "tun_inv st'"
proof -
  have nat: "nat_inv (tcp_nat st)" using assms(1) by (simp add: tun_inv_def)
  from assms(2) have "st' = st \<or> (\<exists>key n table. lookup_or_create (tcp_nat st) key = Some (n, table) \<and> st' = st\<lparr>tcp_nat := table\<rparr>)"
    by (auto simp: handle_tcp_eq handle_tcp_from_stack_def Let_def split: if_splits option.splits)
  then show ?thesis
    using assms(1) nat_inv_lookup_or_create [OF nat] tun_inv_tcp_nat by blast
qed

lemma handle_udp_not:
  "\<not> udp_packet p (ihl_bytes (p ! 0)) (unat (get16 (ihl_bytes (p ! 0) + 4) p)) \<Longrightarrow>
     handle_udp_packet st p = Some (Inr (False, p), st)"
  by (simp add: handle_udp_packet_def parse_udp_eq Let_def)

lemma tun_inv_udp:
  assumes "tun_inv st" "handle_udp_packet st p = Some (r, st')"
  shows "tun_inv st'"
proof (cases "udp_packet p (ihl_bytes (p ! 0)) (unat (get16 (ihl_bytes (p ! 0) + 4) p))")
  case True
  from handle_udp_effect [OF assms(1) True] show ?thesis using assms(2) by auto
next
  case False
  from handle_udp_not [OF False, of st] show ?thesis using assms by simp
qed

lemma tun_inv_packet:
  assumes inv: "tun_inv st" and run: "handle_ipv4_packet st p = Some (r, st')"
  shows "tun_inv st'"
proof -
  from run have "handle_tcp_packet st p = Some (r, st') \<or> handle_udp_packet st p = Some (r, st') \<or> st' = st"
    unfolding handle_ipv4_eq by (simp split: if_splits)
  then show ?thesis
    using tun_inv_tcp [OF inv] tun_inv_udp [OF inv] inv by blast
qed

lemma tun_inv_step:
  assumes "tun_step st st'" "tun_inv st"
  shows "tun_inv st'"
  using assms(1)
proof cases
  case (Packet p)
  then obtain w q st1 where "handle_ipv4_packet st p = Some (Inr (w, q), st1)"
    and "st' = (if w then st1\<lparr>tun_written := tun_written st1 @ [q]\<rparr> else st1)"
    by (auto simp: packet_round_def bindE_eq_Inr)
  with tun_inv_packet [OF assms(2)] show ?thesis by (simp add: tun_inv_more)
next
  case (Flow_connected i sps f)
  have "fl_nat_port f = fl_nat_port (flow_objs st ! i)" "fl_session f = fl_session (flow_objs st ! i)"
    using Flow_connected(3) by (auto simp: start_connected_def Let_def split: if_splits)
  from tun_inv_obj [OF assms(2) Flow_connected(2) this] show ?thesis
    unfolding Flow_connected(1) by (simp add: tun_inv_def flows_ok_def)
next
  case (Flow_send i payload f)
  have "fl_nat_port f = fl_nat_port (flow_objs st ! i)" "fl_session f = fl_session (flow_objs st ! i)"
    using Flow_send(3) by (auto simp: send_take_def split: list.splits)
  from tun_inv_obj [OF assms(2) Flow_send(2) this] show ?thesis unfolding Flow_send(1) .
next
  case (Response session data)
  then show ?thesis
    using assms(2) by (auto simp: write_udp_response_def bindE_eq_Inr tun_inv_more split: option.splits)
qed (use assms(2) in \<open>simp_all add: tun_inv_stop tun_inv_client tun_inv_erase\<close>)

text \<open>Handling a packet neither writes nor stops; the bytes to write are the result.\<close>

lemma erase_written: "tun_written (erase_udp_flow port st) = tun_written st" "stopping (erase_udp_flow port st) = stopping st"
  by (simp_all add: erase_udp_flow_def split: option.split)

lemma find_flow_written:
  "find_flow port key st = (i, st') \<Longrightarrow> tun_written st' = tun_written st \<and> stopping st' = stopping st"
  by (auto simp: find_flow_def split: option.splits)

lemma flow_enqueue_written: "tun_written (flow_enqueue i p st) = tun_written st" "stopping (flow_enqueue i p st) = stopping st"
  by (simp_all add: flow_enqueue_def split: prod.split)

lemmas tun_written_simps = erase_written flow_enqueue_written

lemma handle_tcp_written:
  "handle_tcp_packet st p = Some (r, st') \<Longrightarrow> tun_written st' = tun_written st \<and> stopping st' = stopping st"
  by (auto simp: handle_tcp_packet_def handle_tcp_from_stack_def split: sum.splits option.splits if_splits)

lemma handle_udp_written:
  assumes "handle_udp_packet st p = Some (r, st')"
  shows "tun_written st' = tun_written st \<and> stopping st' = stopping st"
  using assms
  by (auto simp: handle_udp_packet_def Let_def tun_written_simps split: sum.splits option.splits prod.splits
      dest!: find_flow_written)

lemma handle_written:
  "handle_ipv4_packet st p = Some (r, st') \<Longrightarrow> tun_written st' = tun_written st \<and> stopping st' = stopping st"
  by (auto simp: handle_ipv4_packet_def handle_tcp_written handle_udp_written split: sum.splits bool.splits if_splits)

lemma tun_step_written:
  assumes "tun_step st st'" "tun_inv st"
  shows "prefix (tun_written st) (tun_written st')"
  using assms(1)
proof cases
  case (Packet p)
  then show ?thesis by (auto simp: packet_round_def bindE_eq_Inr dest!: handle_written split: if_splits)
next
  case (Response session data)
  then show ?thesis by (auto simp: write_udp_response_def bindE_eq_Inr split: option.splits)
qed (simp_all add: client_finished_def tun_stop_def tun_written_simps)

text \<open>What has been written to the adapter is never taken back.\<close>

interpretation tun: observed_machine "\<lambda>s. \<exists>ip next_ip port. s = tun_init ip next_ip port" tun_step tun_inv tun_written prefix
proof (unfold_locales, goal_cases)
  case (5 s t)
  then show ?case by (rule tun_step_written [rotated])
qed (auto intro: tun_inv_init tun_inv_step elim: prefix_order.trans)

end
