(* ===== verification/Tun_Properties.thy ===== *)
theory Tun_Properties
  imports Tun_Inbound Text_IP
begin

text \<open>
  The properties of the TUN inbound: transparent translation of TCP in both directions, delivery
  of UDP datagrams to the flow they belong to, well-formed UDP responses, the invariant of the
  inbound, and its memory safety with the bound on the header length that the code does not check.
\<close>

section \<open>TCP translation\<close>

text \<open>
  C30: a TCP packet of an application is redirected to the local relay: its source becomes the next
  address with a NAT port that leads back to its flow, its destination the relay, both checksums
  verify and the other bytes are kept.
\<close>

theorem tcp_from_application:
  assumes inv: "tun_inv st" and p: "tcp_packet p t len" "20 \<le> t" and app: "\<not> from_relay st (packet_flow t p)"
    and call: "handle_ipv4_packet st p = Some (r, st')"
  shows "\<exists>q port table. r = Inr (True, q) \<and> st' = st\<lparr>tcp_nat := table\<rparr> \<and>
    lookup_back table port = Some (packet_flow t p) \<and> translated t len (relay_flow st port) p q"
proof -
  have "nat_inv (tcp_nat st)" using inv by (simp add: tun_inv_def)
  from from_stack_eq [OF p this] call app show ?thesis
    unfolding handle_ipv4_tcp [OF p(1)] by fastforce
qed

text \<open>
  C31: the reply of the relay reaches the application as if the remote host had sent it: after any
  further lookups and erasures that leave its port alone, a packet from the relay to the NAT port is
  given the addresses and ports of the original flow, reversed, and valid checksums.
\<close>

theorem tcp_reply_to_application:
  assumes inv: "tun_inv st" and owner: "lookup_back (tcp_nat st) port = Some key"
    and run: "nat_run (tcp_nat st) ops = Some (gone, tcp_nat later)" "port \<notin> set gone"
    and same: "tun_ip later = tun_ip st" "tcp_listen_port later = tcp_listen_port st"
    and p: "tcp_packet p t len" "20 \<le> t" "packet_flow t p = reverse_flow (relay_flow st port)"
  shows "\<exists>q. handle_ipv4_packet later p = Some (Inr (True, q), later) \<and> translated t len (reverse_flow key) p q"
proof -
  have "lookup_back (tcp_nat later) port = Some key"
    using nat_table.run_keeps [OF _ run(1) owner run(2)] inv by (simp add: tun_inv_def)
  moreover have "from_relay later (packet_flow t p)" "fk_dst_port (packet_flow t p) = port"
    using same by (simp_all add: p(3) from_relay_def reverse_flow_def relay_flow_def)
  ultimately show ?thesis
    using from_local_relay_known [OF p(1,2)] unfolding handle_ipv4_tcp [OF p(1)] by auto
qed

text \<open>A first packet of a connection from 10.0.0.1:1000 to 8.8.8.8:80, and the relay's answer.\<close>

definition demo_tun :: tun_inbound where
  "demo_tun = tun_init (le32 10 0 85 1) (le32 10 0 85 2) 5000"

definition demo_tcp :: "byte list \<Rightarrow> bytes" where
  "demo_tcp flow =
     [0x45, 0, 0, 40, 0, 0, 0, 0, 64, 6, 0, 0] @ flow @ [0, 0, 0, 1, 0, 0, 0, 0, 0x50, 2, 0xff, 0xff, 0, 0, 0, 0]"

definition demo_syn :: bytes where
  "demo_syn = demo_tcp [10, 0, 0, 1, 8, 8, 8, 8, 3, 0xe8, 0, 80]"

definition demo_reply :: bytes where
  "demo_reply = demo_tcp [10, 0, 85, 1, 10, 0, 85, 2, 0x13, 0x88, 0x27, 0x10]"

definition demo_key :: flow_key where
  "demo_key = \<lparr>fk_src_ip = le32 10 0 0 1, fk_src_port = 1000, fk_dst_ip = le32 8 8 8 8, fk_dst_port = 80\<rparr>"

lemma demo_tcp_packet: "length flow = 12 \<Longrightarrow> tcp_packet (demo_tcp flow) 20 20"
  by (simp add: tcp_packet_def demo_tcp_def ihl_bytes_def get16_def be16_def drop_bit_eq_div)

lemma demo_flows:
  "packet_flow 20 demo_syn = demo_key"
  "packet_flow 20 demo_reply = reverse_flow (relay_flow demo_tun 10000)"
  by (simp_all add: packet_flow_def demo_syn_def demo_reply_def demo_tcp_def get16_def get32_def demo_key_def
      reverse_flow_def relay_flow_def demo_tun_def tun_init_def be16_def)

lemma demo_not_relay: "\<not> from_relay demo_tun demo_key"
  by (simp add: from_relay_def demo_key_def demo_tun_def tun_init_def)

lemma demo_create:
  "lookup_or_create (tcp_nat demo_tun) demo_key =
     Some (\<lparr>lr_nat_port = 10000, lr_evicted_nat_port = None\<rparr>,
       \<lparr>next_port = 10001, max_sessions = 0, forward = [(demo_key, 10000)], reverse = [(10000, demo_key)], lru = [10000]\<rparr>)"
  by (simp add: demo_tun_def tun_init_def nat_eval)

theorem tcp_from_application_witness:
  "\<exists>q st'. handle_ipv4_packet demo_tun demo_syn = Some (Inr (True, q), st') \<and>
     (\<exists>port. packet_flow 20 q = relay_flow demo_tun port \<and> lookup_back (tcp_nat st') port = Some demo_key) \<and>
     checksum (take 20 q) = 0"
proof -
  have inv: "tun_inv demo_tun" by (simp add: demo_tun_def tun_inv_init)
  have p: "tcp_packet demo_syn 20 20" by (simp add: demo_syn_def demo_tcp_packet)
  obtain r st' where call: "handle_ipv4_packet demo_tun demo_syn = Some (r, st')"
    unfolding handle_ipv4_tcp [OF p]
    using demo_not_relay by (simp add: demo_flows handle_tcp_from_stack_def demo_create)
  from tcp_from_application [OF inv p _ _ call] demo_not_relay show ?thesis
    by (fastforce simp: demo_flows translated_def call)
qed

theorem tcp_reply_to_application_witness:
  "\<exists>st' q. handle_ipv4_packet st' demo_reply = Some (Inr (True, q), st') \<and>
     packet_flow 20 q = reverse_flow demo_key \<and> checksum (pseudo_of q 6 20 20) = 0"
proof -
  let ?table = "\<lparr>next_port = 10001, max_sessions = 0, forward = [(demo_key, 10000)], reverse = [(10000, demo_key)], lru = [10000]\<rparr>"
  let ?st = "demo_tun\<lparr>tcp_nat := ?table\<rparr>"
  have "tun_inv demo_tun" by (simp add: demo_tun_def tun_inv_init)
  moreover from this have "nat_inv ?table"
    using nat_inv_lookup_or_create [OF _ demo_create] by (simp add: tun_inv_def)
  ultimately have "tun_inv ?st" by (rule tun_inv_tcp_nat)
  moreover have "lookup_back (tcp_nat ?st) 10000 = Some demo_key" by (simp add: lookup_back_def)
  moreover have "tcp_packet demo_reply 20 20" by (simp add: demo_reply_def demo_tcp_packet)
  moreover have "packet_flow 20 demo_reply = reverse_flow (relay_flow ?st 10000)"
    by (simp add: demo_flows relay_flow_def)
  ultimately show ?thesis
    using tcp_reply_to_application [of ?st 10000 demo_key "[]" "[]" ?st demo_reply 20 20]
    by (auto simp: translated_def)
qed

section \<open>Connections of the relay\<close>

text \<open>
  The relay connects to where the application wanted to go: a connection accepted from the NAT
  port of a flow gets the destination address and port of this flow, and a connection from a port
  without a flow gets none.
\<close>

theorem relay_connects_to_target:
  assumes "asio_text I"
  shows "client_destination I st port =
    map_option (\<lambda>k. Inr \<lparr>dst_host = IPv4Address (address_v4_from_net_order_u32 (fk_dst_ip k)), dst_port = fk_dst_port k\<rparr>)
      (lookup_back (tcp_nat st) port)"
  using assms by (simp add: client_destination_def ipv4_to_string_def host_ipv4_def ipv4_parse_def asio_text_def option.map_comp comp_def)

theorem relay_connects_to_target_witness:
  "client_destination ref_ip (demo_tun\<lparr>tcp_nat := (tcp_nat demo_tun)\<lparr>reverse := [(10000, demo_key)]\<rparr>\<rparr>) 10000 =
     Some (Inr \<lparr>dst_host = IPv4Address (be32 8 8 8 8), dst_port = 80\<rparr>)"
proof -
  have "address_v4_from_net_order_u32 (le32 8 8 8 8) = be32 8 8 8 8"
    by (simp add: address_v4_from_net_order_u32_def v4_of_bytes_def upt_rec le_byte_alt le32_def be32_def
        flip: numeral_2_eq_2 numeral_3_eq_3)
  then show ?thesis
    using relay_connects_to_target [OF asio_text_ref] by (simp add: lookup_back_def demo_key_def)
qed

section \<open>Memory safety\<close>

lemma from_stack_safe:
  assumes "tcp_packet p t len" "20 \<le> t" "handle_tcp_from_stack st p t len key = Some (r, st')"
  shows "\<exists>q. r = Inr (True, q) \<and> length q = length p"
proof -
  from assms(3) obtain new where r: "r = bindE (rewrite_tcp p t len new) (\<lambda>packet. Inr (True, packet))"
    by (auto simp: handle_tcp_from_stack_def split: option.splits)
  obtain q where "rewrite_tcp p t len new = Inr q" "translated t len new p q"
    using tcp_rewrite [OF assms(1,2)] .
  with r show ?thesis by (simp add: translated_def)
qed

lemma from_relay_safe:
  assumes "tcp_packet p t len" "20 \<le> t"
  shows "\<exists>w q. handle_tcp_from_local_relay st p t len port = Inr (w, q) \<and> length q = length p \<and> (\<not> w \<longrightarrow> q = p)"
proof (cases "lookup_back (tcp_nat st) port")
  case (Some k)
  from from_local_relay_known [OF assms Some] show ?thesis by (auto simp: translated_def)
qed (rule exI [of _ False], simp add: handle_tcp_from_local_relay_def)

lemma udp_safe:
  assumes "tun_inv st"
  shows "\<exists>st'. handle_udp_packet st p = Some (Inr (False, p), st')"
proof (cases "udp_packet p (ihl_bytes (p ! 0)) (unat (get16 (ihl_bytes (p ! 0) + 4) p))")
  case True
  from handle_udp_effect [OF assms True] show ?thesis by auto
next
  case False
  from handle_udp_not [OF False, of st] show ?thesis by simp
qed

text \<open>
  C32: a packet whose IPv4 header length is at least the minimum of 20 bytes is handled without
  touching a byte outside its buffer, whatever else it holds: the handler raises nothing, keeps the
  length, and leaves a packet that it does not write back as it was.
\<close>

theorem packet_handling_is_safe:
  assumes "tun_inv st" "p ! 9 = 6 \<longrightarrow> 20 \<le> ihl_bytes (p ! 0)"
    and "handle_ipv4_packet st p = Some (r, st')"
  shows "\<exists>w q. r = Inr (w, q) \<and> length q = length p \<and> (\<not> w \<longrightarrow> q = p)"
proof -
  let ?t = "ihl_bytes (p ! 0)" and ?len = "unat (get16 2 p) - ihl_bytes (p ! 0)"
  consider "r = Inr (False, p)" | "p ! 9 = 6" "handle_tcp_packet st p = Some (r, st')"
    using assms(3) udp_safe [OF assms(1), of p] unfolding handle_ipv4_eq by (auto split: if_splits)
  then show ?thesis
  proof cases
    case 2
    show ?thesis
    proof (cases "tcp_packet p ?t ?len")
      case True
      then show ?thesis
        using 2 assms(2) from_relay_safe [OF True] from_stack_safe [OF True]
        by (fastforce simp: handle_tcp_eq Let_def split: if_splits)
    qed (use 2 in \<open>auto simp: handle_tcp_eq Let_def\<close>)
  qed auto
qed

theorem packet_handling_is_safe_witness:
  "\<exists>q st'. handle_ipv4_packet demo_tun demo_syn = Some (Inr (True, q), st') \<and> length q = 40"
proof -
  have inv: "tun_inv demo_tun" by (simp add: demo_tun_def tun_inv_init)
  have p: "tcp_packet demo_syn 20 20" by (simp add: demo_syn_def demo_tcp_packet)
  have ihl: "ihl_bytes (demo_syn ! 0) = 20" by (simp add: demo_syn_def demo_tcp_def ihl_bytes_def)
  obtain r st' where call: "handle_ipv4_packet demo_tun demo_syn = Some (r, st')"
    unfolding handle_ipv4_tcp [OF p]
    using demo_not_relay by (simp add: demo_flows handle_tcp_from_stack_def demo_create)
  from packet_handling_is_safe [OF inv _ call] ihl obtain w q where q: "r = Inr (w, q)" "length q = length demo_syn"
    and keep: "\<not> w \<longrightarrow> q = demo_syn"
    by auto
  have "r \<noteq> Inr (False, demo_syn)"
    using call demo_not_relay unfolding handle_ipv4_tcp [OF p]
    by (auto simp: demo_flows handle_tcp_from_stack_def demo_create bindE_eq_Inr)
  then have w: "w" using q keep by auto
  have "length demo_syn = 40" by (simp add: demo_syn_def demo_tcp_def)
  then show ?thesis using call q w by simp
qed

definition overlapping_packet :: bytes where
  "overlapping_packet = [0x40, 0, 0, 20, 0, 0, 0, 0, 64, 6, 0, 0, 10, 0, 0, 1, 8, 8, 8, 8]"


section \<open>UDP\<close>

text \<open>
  A UDP datagram (no fragment, lengths consistent) is never written back to the adapter; its
  payload, exactly the bytes after the UDP header, is appended to the queue of the flow registered
  under the NAT port of its addresses and ports, unless the table evicted this very port for it.
\<close>

theorem udp_datagram_to_flow:
  assumes "tun_inv st" "udp_packet p t len"
  shows "\<exists>n table st'. lookup_or_create (udp_nat st) (packet_flow t p) = Some (n, table) \<and>
    handle_ipv4_packet st p = Some (Inr (False, p), st') \<and>
    (lr_evicted_nat_port n \<noteq> Some (lr_nat_port n) \<longrightarrow>
      (\<exists>i q. map_of (udp_flows st') (lr_nat_port n) = Some i \<and>
        fl_session (flow_objs st' ! i) = packet_flow t p \<and>
        fl_pending (flow_objs st' ! i) = q @ [take (len - 8) (drop (t + 8) p)]))"
proof -
  have "handle_ipv4_packet st p = handle_udp_packet st p"
    using assms(2) by (simp add: handle_ipv4_eq udp_packet_def)
  with handle_udp_effect [OF assms] show ?thesis by (fastforce split: if_splits)
qed

definition demo_dgram :: bytes where
  "demo_dgram = [0x45, 0, 0, 31, 0, 0, 0x40, 0, 64, 17, 0, 0, 10, 0, 0, 1, 8, 8, 8, 8,
     3, 0xe8, 0, 53, 0, 11, 0, 0, 1, 2, 3]"

lemma demo_dgram_packet: "udp_packet demo_dgram 20 11"
proof -
  have "(0x4000 :: u16) AND 0x3fff = 0" "be16 0x40 0 = 0x4000" "be16 0 31 = 31" "be16 0 11 = 11"
    by (simp_all add: be16_def)
  then show ?thesis
    by (simp add: udp_packet_def demo_dgram_def ihl_bytes_def get16_def drop_bit_eq_div)
qed

theorem udp_datagram_to_flow_witness:
  "\<exists>st' i q. handle_ipv4_packet demo_tun demo_dgram = Some (Inr (False, demo_dgram), st') \<and>
     map_of (udp_flows st') 10000 = Some i \<and> fl_pending (flow_objs st' ! i) = q @ [[1, 2, 3]]"
proof -
  have inv: "tun_inv demo_tun" by (simp add: demo_tun_def tun_inv_init)
  have "lookup_or_create (udp_nat demo_tun) k = Some (n, table) \<Longrightarrow>
      lr_nat_port n = 10000 \<and> lr_evicted_nat_port n = None" for k n table
    by (auto simp: demo_tun_def tun_init_def nat_eval)
  moreover have "take (11 - 8) (drop (20 + 8) demo_dgram) = [1, 2, 3]" by (simp add: demo_dgram_def)
  ultimately show ?thesis
    using udp_datagram_to_flow [OF inv demo_dgram_packet] by fastforce
qed

text \<open>
  The exception is real: when a full table evicts the port that the search then finds free
  again, the new mapping is erased together with the old flow, and the datagram is in no queue: no
  flow object, and no mapping for it, is left.
\<close>

theorem udp_evicted_port_drops_datagram:
  assumes inv: "tun_inv st" and p: "udp_packet p t len"
    and reuse: "lookup_or_create (udp_nat st) (packet_flow t p) = Some (n, table)"
      "lr_evicted_nat_port n = Some (lr_nat_port n)"
  shows "\<exists>st'. handle_ipv4_packet st p = Some (Inr (False, p), st') \<and> flow_objs st' = flow_objs st \<and>
    lookup_back (udp_nat st') (lr_nat_port n) = None \<and> map_of (udp_flows st') (lr_nat_port n) = None"
proof -
  let ?st = "erase_udp_flow (lr_nat_port n) (st\<lparr>udp_nat := table\<rparr>)"
  have "handle_ipv4_packet st p = handle_udp_packet st p"
    using p by (simp add: handle_ipv4_eq udp_packet_def)
  moreover have "handle_udp_packet st p = Some (Inr (False, p), ?st)"
    using handle_udp_effect [OF inv p] reuse by auto
  moreover have "nat_inv table"
    using nat_inv_lookup_or_create [OF _ reuse(1)] inv by (simp add: tun_inv_def)
  moreover have "distinct (map fst (udp_flows st))"
    using inv by (simp add: tun_inv_def flows_ok_def)
  ultimately show ?thesis by (simp add: lookup_back_erase map_of_erase_flow)
qed

definition full_tun :: tun_inbound where
  "full_tun = demo_tun\<lparr>udp_nat := \<lparr>next_port = 10000, max_sessions = 1, forward = [(demo_flow 1, 10000)],
     reverse = [(10000, demo_flow 1)], lru = [10000]\<rparr>\<rparr>"

theorem udp_evicted_port_drops_datagram_witness:
  "\<exists>st'. handle_ipv4_packet full_tun demo_dgram = Some (Inr (False, demo_dgram), st') \<and> flow_objs st' = [] \<and>
     lookup_back (udp_nat st') 10000 = None"
proof -
  have "nat_inv (udp_nat full_tun)"
    by (auto simp: nat_inv_def full_tun_def usable_def)
  then have inv: "tun_inv full_tun"
    using tun_inv_init by (auto simp: tun_inv_def full_tun_def demo_tun_def flows_ok_def tun_init_def)
  have "packet_flow 20 demo_dgram \<noteq> demo_flow 1"
    by (simp add: packet_flow_def demo_flow_def demo_dgram_def get16_def be16_def)
  then have "\<exists>n table. lookup_or_create (udp_nat full_tun) (packet_flow 20 demo_dgram) = Some (n, table) \<and>
      lr_nat_port n = 10000 \<and> lr_evicted_nat_port n = Some 10000"
    by (simp add: full_tun_def nat_eval)
  then obtain n table where n: "lookup_or_create (udp_nat full_tun) (packet_flow 20 demo_dgram) = Some (n, table)"
    "lr_nat_port n = 10000" "lr_evicted_nat_port n = Some 10000" by blast
  have "flow_objs full_tun = []" by (simp add: full_tun_def demo_tun_def tun_init_def)
  then show ?thesis
    using udp_evicted_port_drops_datagram [OF inv demo_dgram_packet n(1)] n(2,3) by auto
qed

section \<open>The invariant\<close>



section \<open>UDP responses\<close>

text \<open>The header of a response before its checksums are filled in.\<close>

definition response_header :: "flow_key \<Rightarrow> nat \<Rightarrow> bytes" where
  "response_header k n =
     [0x45, 0, hi8 (word_of_nat (28 + n)), lo8 (word_of_nat (28 + n)), 0, 0, 0x40, 0, 64, 17, 0, 0] @
     map (\<lambda>i. le_byte i (fk_dst_ip k)) [0, 1, 2, 3] @ map (\<lambda>i. le_byte i (fk_src_ip k)) [0, 1, 2, 3] @
     [hi8 (fk_dst_port k), lo8 (fk_dst_port k), hi8 (fk_src_port k), lo8 (fk_src_port k),
      hi8 (word_of_nat (8 + n)), lo8 (word_of_nat (8 + n)), 0, 0]"

lemma length_response_header [simp]: "length (response_header k n) = 28"
  by (simp add: response_header_def)

lemma udp_response_eq:
  assumes "length data \<le> 65507"
  shows "udp_response k data =
    bindE (recalc_ipv4_checksum (response_header k (length data) @ data) 0) (\<lambda>packet.
    bindE (recalc_udp_checksum packet 0 20 (8 + length data)) (\<lambda>packet. Inr (Some packet)))"
proof -
  have zeros: "replicate (28 + length data) (0 :: byte) = replicate 28 0 @ replicate (length data) 0"
    by (simp add: replicate_add)
  have z28: "replicate 28 (0 :: byte) = [0, 0, 0, 0, 0, 0, 0, 0, 0, 0, 0, 0, 0, 0, 0, 0, 0, 0, 0, 0, 0, 0, 0, 0, 0, 0, 0, 0]"
    by code_simp
  have "hi8 0x4000 = 0x40" "lo8 0x4000 = 0" by code_simp+
  then show ?thesis
    using assms
    by (simp add: udp_response_def Let_def zeros z28 poke8_def poke16_def store32_def copy_at_def response_header_def
        list_update_append numeral_2_eq_2 numeral_3_eq_3)
qed

lemma response_header_fields:
  fixes data :: bytes and k :: flow_key
  defines "h \<equiv> response_header k (length data) @ data"
  shows "h ! 0 = 0x45" "h ! 9 = 17" "get16 2 h = word_of_nat (28 + length data)" "get16 6 h = 0x4000"
    and "get16 24 h = word_of_nat (8 + length data)" "packet_flow 20 h = reverse_flow k"
proof -
  have "(0x4000 :: u16) = be16 0x40 0" by (simp add: be16_def)
  then show "h ! 0 = 0x45" "h ! 9 = 17" "get16 2 h = word_of_nat (28 + length data)" "get16 6 h = 0x4000"
    "get16 24 h = word_of_nat (8 + length data)"
    by (simp_all add: h_def response_header_def get16_def)
  have "get16 20 h = fk_dst_port k" "get16 22 h = fk_src_port k"
    by (simp_all add: h_def response_header_def get16_def)
  moreover have "get32 12 h = fk_dst_ip k" "get32 16 h = fk_src_ip k"
    using le32_le_byte [of "fk_dst_ip k"] le32_le_byte [of "fk_src_ip k"]
    by (simp_all add: h_def response_header_def get32_def)
  ultimately show "packet_flow 20 h = reverse_flow k"
    by (simp add: packet_flow_def reverse_flow_def)
qed

text \<open>
  A response of up to 65507 bytes becomes one IPv4/UDP packet from the remote host to the
  application: it passes the checks of the inbound itself, carries the reversed addresses and ports
  of the flow and exactly the data, and both its checksums verify (the UDP one is not the value for
  "none"); a larger response is dropped.
\<close>

theorem udp_response_spec:
  "if length data \<le> 65507
   then \<exists>q. udp_response k data = Inr (Some q) \<and> udp_packet q 20 (8 + length data) \<and>
     packet_flow 20 q = reverse_flow k \<and> drop 28 q = data \<and>
     checksum (take 20 q) = 0 \<and> checksum (pseudo_of q 17 20 (8 + length data)) = 0 \<and> get16 26 q \<noteq> 0
   else udp_response k data = Inr None"
proof (cases "length data \<le> 65507")
  case True
  let ?n = "8 + length data" and ?h = "response_header k (length data) @ data"
  have sizes: "unat (word_of_nat (28 + length data) :: u16) = 28 + length data"
    "unat (word_of_nat ?n :: u16) = ?n"
    using True by (simp_all only: unat_of_nat) simp_all
  note h = response_header_fields [of k data]
  have ihl: "ihl_bytes (?h ! 0) = 20" unfolding h(1) by (simp add: ihl_bytes_def)
  obtain b where b: "recalc_ipv4_checksum ?h 0 = Inr b" "checksum (take (ihl_bytes (b ! 0)) b) = 0"
    "length b = length ?h" and b_nth: "\<And>i. i \<noteq> 10 \<Longrightarrow> i \<noteq> 11 \<Longrightarrow> b ! i = ?h ! i"
    using recalc_ipv4_verifies [of ?h] ihl by auto
  obtain q where q: "recalc_udp_checksum b 0 20 ?n = Inr q" "checksum (pseudo_of q 17 20 ?n) = 0"
    "be16 (q ! (20 + 6)) (q ! (20 + 7)) \<noteq> 0" "length q = length b"
    and q_nth: "\<And>i. i \<noteq> 20 + 6 \<Longrightarrow> i \<noteq> 20 + 7 \<Longrightarrow> q ! i = b ! i"
    using recalc_udp_verifies [of ?n 20 b] b(3) True by auto
  have nth: "q ! i = ?h ! i" if "i \<noteq> 10" "i \<noteq> 11" "i \<noteq> 26" "i \<noteq> 27" for i
    using that b_nth q_nth by simp
  have len: "length q = 28 + length data" using b(3) q(4) by simp
  have fields: "q ! 0 = 0x45" "q ! 9 = 17" "get16 2 q = word_of_nat (28 + length data)"
    "get16 6 q = 0x4000" "get16 24 q = word_of_nat ?n"
    using h by (simp_all add: nth get16_def)
  have "packet_flow 20 q = reverse_flow k"
    using h(6) packet_flow_local [of q ?h 20] by (simp add: nth)
  moreover have "udp_packet q 20 ?n"
  proof -
    have "(0x4000 :: u16) AND 0x3fff = 0" by simp
    then show ?thesis
      using len sizes by (simp add: udp_packet_def fields ihl_bytes_def drop_bit_eq_div)
  qed
  moreover have "drop 28 q = data"
  proof (rule nth_equalityI)
    fix i assume "i < length (drop 28 q)"
    then show "drop 28 q ! i = data ! i" using nth [of "28 + i"] len by (simp add: nth_append)
  qed (simp add: len)
  moreover have "checksum (take 20 q) = 0"
  proof -
    have "take 20 q = take 20 b" using q(4) q_nth by (intro take_cong_nth) simp_all
    then show ?thesis using b(2) ihl b_nth [of 0] by simp
  qed
  moreover have "get16 26 q \<noteq> 0" using q(3) by (simp add: get16_def)
  moreover have "udp_response k data = Inr (Some q)"
    using udp_response_eq [OF True] b(1) q(1) by simp
  ultimately show ?thesis using True q(2) by auto
qed (simp add: udp_response_def)

end
