(* ===== verification/First_Match.thy ===== *)
theory First_Match
  imports Prelude
begin

text \<open>
  Rule tables: the loops of the router, the rule sets and the DNS server that go through a list,
  test each entry (the test may raise) and leave at the first entry that matches.
\<close>

locale first_match =
  fixes test :: "'r \<Rightarrow> bool res"
    and hit :: "'r \<Rightarrow> 'a res"
    and miss :: "'a res"
    and scan :: "'r list \<Rightarrow> 'a res"
  assumes scan_Nil: "scan [] = miss"
    and scan_Cons: "scan (r # rs) = bindE (test r) (\<lambda>b. if b then hit r else scan rs)"
begin

definition passed :: "'r list \<Rightarrow> bool" where
  "passed rs \<longleftrightarrow> (\<forall>r \<in> set rs. test r = Inr False)"

lemma scan_passed: "passed pre \<Longrightarrow> scan (pre @ rs) = scan rs"
  by (induction pre) (auto simp: passed_def scan_Cons)

lemma scan_miss: "passed rs \<Longrightarrow> scan rs = miss"
  using scan_passed [of rs "[]"] by (simp add: scan_Nil)

lemma scan_first: "passed pre \<Longrightarrow> test r = Inr True \<Longrightarrow> scan (pre @ r # post) = hit r"
  by (simp add: scan_passed scan_Cons)

lemma scan_raises: "passed pre \<Longrightarrow> test r = Inl e \<Longrightarrow> scan (pre @ r # post) = Inl e"
  by (simp add: scan_passed scan_Cons)

text \<open>The three outcomes.\<close>

lemma scan_outcome:
  "passed rs \<and> scan rs = miss \<or>
   (\<exists>pre r post. rs = pre @ r # post \<and> passed pre \<and> test r = Inr True \<and> scan rs = hit r) \<or>
   (\<exists>pre r post e. rs = pre @ r # post \<and> passed pre \<and> test r = Inl e \<and> scan rs = Inl e)"
proof (cases "passed rs")
  case False
  then obtain r where "r \<in> set rs" "test r \<noteq> Inr False" by (auto simp: passed_def)
  then obtain pre r post where rs: "rs = pre @ r # post" and r: "test r \<noteq> Inr False"
    and pre: "\<forall>x \<in> set pre. \<not> test x \<noteq> Inr False"
    using split_list_first_prop [of rs "\<lambda>r. test r \<noteq> Inr False"] by blast
  from pre have p: "passed pre" by (simp add: passed_def)
  consider e where "test r = Inl e" | "test r = Inr True" using r by (cases "test r") auto
  then show ?thesis
  proof cases
    case 1
    then show ?thesis using rs p scan_raises [OF p 1] by blast
  next
    case 2
    then show ?thesis using rs p scan_first [OF p 2] by blast
  qed
qed (use scan_miss in blast)

lemma scan_cases:
  obtains (none) "passed rs" "scan rs = miss"
  | (first) pre r post where "rs = pre @ r # post" "passed pre" "test r = Inr True" "scan rs = hit r"
  | (error) pre r post e where "rs = pre @ r # post" "passed pre" "test r = Inl e" "scan rs = Inl e"
  using scan_outcome [of rs] by blast

lemma scan_total:
  "(\<And>r. r \<in> set rs \<Longrightarrow> \<exists>b. test r = Inr b) \<Longrightarrow> (\<And>r. r \<in> set rs \<Longrightarrow> \<exists>x. hit r = Inr x) \<Longrightarrow>
     \<exists>x. miss = Inr x \<Longrightarrow> \<exists>x. scan rs = Inr x"
proof (induction rs)
  case (Cons r rs)
  then obtain b x where "test r = Inr b" "hit r = Inr x" by fastforce
  with Cons show ?case by (cases b) (auto simp: scan_Cons)
qed (simp add: scan_Nil)

end

text \<open>The most common loop: is there an entry that passes the test?\<close>

fun any_res :: "('r \<Rightarrow> bool res) \<Rightarrow> 'r list \<Rightarrow> bool res" where
  "any_res test [] = Inr False"
| "any_res test (r # rs) = bindE (test r) (\<lambda>b. if b then Inr True else any_res test rs)"

interpretation any: first_match test "\<lambda>_. Inr True" "Inr False" "any_res test" for test
  by unfold_locales simp_all

lemma any_res_cong [fundef_cong]:
  "rs = rs' \<Longrightarrow> (\<And>r. r \<in> set rs' \<Longrightarrow> test r = test' r) \<Longrightarrow> any_res test rs = any_res test' rs'"
proof (induction rs' arbitrary: rs)
  case (Cons r rs')
  then have "any_res test rs' = any_res test' rs'" "test r = test' r" by simp_all
  with Cons.prems(1) show ?case by (simp cong: if_cong)
qed simp

lemma any_res_pure: "any_res (\<lambda>r. Inr (p r)) rs = Inr (list_ex p rs)"
  by (induction rs) auto

end
