(* ===== verification/Config_Types.thy ===== *)
theory Config_Types
  imports Prelude
begin

text \<open>
  \<open>src/config/config.hpp\<close>: the configuration of the program. A member without an initialiser that
  the loader may leave unset has type \<open>option\<close>; \<open>None\<close> is the indeterminate value of C++.
\<close>

record inbound_config =
  ic_type :: string
  ic_tag :: string
  ic_listen :: string
  ic_listen_port :: u16

record tls_config =
  tc_enabled :: bool
  tc_server_name :: string
  tc_insecure :: "bool option"

record transport_config =
  tr_type :: string
  tr_path :: string

record outbound_config =
  oc_type :: string
  oc_tag :: string
  oc_server :: string
  oc_server_port :: "u16 option"
  oc_uuid :: string
  oc_tls :: "tls_config option"
  oc_transport :: "transport_config option"

record route_rule =
  rr_domain :: "string list"
  rr_domain_suffix :: "string list"
  rr_domain_keyword :: "string list"
  rr_ip_cidr :: "string list"
  rr_rule_set :: "string list"
  rr_action :: string
  rr_outbound :: string

record rule_set_config =
  rs_type :: string
  rs_tag :: string
  rs_format :: string
  rs_path :: string

record route_config =
  rc_rules :: "route_rule list"
  rc_final_outbound :: string
  rc_rule_sets :: "rule_set_config list"

record windows_proxy_config =
  wp_enabled :: "bool option"
  wp_addr :: string
  wp_port :: "u16 option"

record dns_route_rule =
  dr_domain :: "string list"
  dr_domain_suffix :: "string list"
  dr_domain_keyword :: "string list"
  dr_rule_set :: "string list"
  dr_server :: string

record dns_item =
  di_tag :: string
  di_type :: string
  di_server :: string
  di_server_port :: u16
  di_path :: string
  di_server_name :: string

record dns_config =
  dc_listen :: "string option"
  dc_servers :: "dns_item list"
  dc_rules :: "dns_route_rule list"
  dc_final :: string

record tun_config =
  tn_enable :: bool
  tn_tun_ip :: string
  tn_tun_next_ip :: string

record app_config =
  ac_inbounds :: "inbound_config list"
  ac_outbounds :: "outbound_config list"
  ac_route :: route_config
  ac_windows_proxy :: windows_proxy_config
  ac_dns :: dns_config
  ac_override_address :: bool
  ac_tun :: tun_config

text \<open>A rule of a route or of a rule set must have a condition.\<close>

definition no_condition :: "route_rule \<Rightarrow> bool" where
  "no_condition rule \<longleftrightarrow> rr_domain rule = [] \<and> rr_domain_keyword rule = [] \<and>
     rr_domain_suffix rule = [] \<and> rr_ip_cidr rule = [] \<and> rr_rule_set rule = []"

end
