(* ===== verification/Router.thy ===== *)
theory Router
  imports Address First_Match Config_Types
begin

text \<open>
  \<open>src/route/router.hpp\<close>, \<open>router.cpp\<close> and the matching of \<open>rule_set.cpp\<close>: which
  outbound a destination is sent to. Matching an address against a CIDR block goes through the
  texts of both, as the code does; parsing them is Boost.Asio's (\<open>asio_ip\<close>) and may raise.
\<close>

section \<open>State\<close>

text \<open>The router holds its configuration and the rule sets it has loaded, by their tag.\<close>

record router =
  ro_config :: route_config
  ro_rule_sets :: "(string \<times> route_rule list) list"

section \<open>Domains\<close>

definition router_ends_with :: "string \<Rightarrow> string \<Rightarrow> bool" where
  "router_ends_with t s \<longleftrightarrow> length s \<le> length t \<and> drop (length t - length s) t = s"

definition router_is_ip :: "destination \<Rightarrow> bool" where
  [simp]: "router_is_ip dst \<longleftrightarrow> host_is_ip (dst_host dst)"

definition router_contains :: "string \<Rightarrow> string \<Rightarrow> bool" where
  "router_contains t keyword \<longleftrightarrow> find_str t keyword 0 \<noteq> None"

definition match_suffix :: "string \<Rightarrow> string \<Rightarrow> bool" where
  "match_suffix domain item \<longleftrightarrow>
     (if item = [] then False
      else if hd item = CHR ''.'' then router_ends_with domain item
      else domain = item \<or> router_ends_with domain (''.'' @ item))"

definition match_domain :: "route_rule \<Rightarrow> destination \<Rightarrow> bool" where
  "match_domain rule dst =
     (case dst_host dst of
        DomainName domain \<Rightarrow>
          list_ex (\<lambda>item. domain = item) (rr_domain rule) \<or>
          list_ex (match_suffix domain) (rr_domain_suffix rule) \<or>
          list_ex (router_contains domain) (rr_domain_keyword rule)
      | _ \<Rightarrow> False)"

section \<open>Address blocks\<close>

definition ipv4_to_u32 :: "address_v4 \<Rightarrow> u32" where
  "ipv4_to_u32 a = (let b = v4_to_bytes a in be32 (b ! 0) (b ! 1) (b ! 2) (b ! 3))"

definition match_ipv4_cidr :: "asio_ip \<Rightarrow> string \<Rightarrow> string \<Rightarrow> bool res" where
  "match_ipv4_cidr I ip_text cidr =
     (case find_char cidr (CHR ''/'') 0 of
        None \<Rightarrow> Inr (ip_text = cidr)
      | Some slash \<Rightarrow>
          bindE (make_address_v4_throw I (take slash cidr)) (\<lambda>base.
          bindE (make_address_v4_throw I ip_text) (\<lambda>ip.
          bindE (stoi (drop (slash + 1) cidr)) (\<lambda>p.
          if p < 0 \<or> 32 < p then Inr False
          else
            let mask = (if p = 0 then 0 else push_bit (nat (32 - p)) 0xffffffff) :: u32
            in Inr (ipv4_to_u32 base AND mask = ipv4_to_u32 ip AND mask)))))"

definition make_address_v6_throw :: "asio_ip \<Rightarrow> string \<Rightarrow> address_v6 res" where
  "make_address_v6_throw I t =
     (case make_address_v6 I t of None \<Rightarrow> Inl (SystemError ''make_address_v6'') | Some a \<Rightarrow> Inr a)"

definition match_ipv6_cidr :: "asio_ip \<Rightarrow> string \<Rightarrow> string \<Rightarrow> bool res" where
  "match_ipv6_cidr I ip_text cidr =
     (case find_char cidr (CHR ''/'') 0 of
        None \<Rightarrow> Inr (ip_text = cidr)
      | Some slash \<Rightarrow>
          bindE (make_address_v6_throw I (take slash cidr)) (\<lambda>base.
          bindE (make_address_v6_throw I ip_text) (\<lambda>ip.
          let base_bytes = v6_to_bytes base; ip_bytes = v6_to_bytes ip in
          bindE (stoi (drop (slash + 1) cidr)) (\<lambda>p.
          if p < 0 \<or> 128 < p then Inr False
          else
            let full_bytes = nat p div 8; rest_bits = nat p mod 8 in
            if \<not> list_all (\<lambda>i. base_bytes ! i = ip_bytes ! i) [0..<full_bytes] then Inr False
            else if rest_bits = 0 then Inr True
            else
              let mask = ucast (push_bit (8 - rest_bits) (0xff :: u32)) :: byte
              in Inr (base_bytes ! full_bytes AND mask = ip_bytes ! full_bytes AND mask)))))"

definition match_cidr :: "asio_ip \<Rightarrow> destination \<Rightarrow> string \<Rightarrow> bool res" where
  "match_cidr I dst cidr =
     (let ip_text = host_to_string I (dst_host dst);
          colon = find_char cidr (CHR '':'') 0
      in if host_type (dst_host dst) = HT_IPv4 then
           if colon = None then match_ipv4_cidr I ip_text cidr else Inr False
         else if host_type (dst_host dst) = HT_IPv6 then
           if colon \<noteq> None then match_ipv6_cidr I ip_text cidr else Inr False
         else Inr False)"

definition match_ip_cidr :: "asio_ip \<Rightarrow> route_rule \<Rightarrow> destination \<Rightarrow> bool res" where
  "match_ip_cidr I rule dst =
     (if \<not> router_is_ip dst then Inr False else any_res (match_cidr I dst) (rr_ip_cidr rule))"

section \<open>Rules\<close>

definition match_rule_conditions :: "asio_ip \<Rightarrow> route_rule \<Rightarrow> destination \<Rightarrow> bool res" where
  "match_rule_conditions I rule dst =
     (if match_domain rule dst then Inr True else match_ip_cidr I rule dst)"

definition rule_set_match :: "asio_ip \<Rightarrow> route_rule list \<Rightarrow> destination \<Rightarrow> bool res" where
  "rule_set_match I rules dst = any_res (\<lambda>rule. match_rule_conditions I rule dst) rules"

definition match_rule_set :: "asio_ip \<Rightarrow> router \<Rightarrow> string \<Rightarrow> destination \<Rightarrow> bool res" where
  "match_rule_set I r tag dst =
     (case map_of (ro_rule_sets r) tag of None \<Rightarrow> Inr False | Some rules \<Rightarrow> rule_set_match I rules dst)"

definition match_rule :: "asio_ip \<Rightarrow> router \<Rightarrow> route_rule \<Rightarrow> destination \<Rightarrow> bool res" where
  "match_rule I r rule dst =
     bindE (match_rule_conditions I rule dst) (\<lambda>b.
     if b then Inr True else any_res (\<lambda>tag. match_rule_set I r tag dst) (rr_rule_set rule))"

fun pick_from :: "asio_ip \<Rightarrow> router \<Rightarrow> destination \<Rightarrow> route_rule list \<Rightarrow> string res" where
  "pick_from I r dst [] = Inr (rc_final_outbound (ro_config r))"
| "pick_from I r dst (rule # rules) =
     bindE (match_rule I r rule dst) (\<lambda>b. if b then Inr (rr_outbound rule) else pick_from I r dst rules)"

definition pick_outbound :: "asio_ip \<Rightarrow> router \<Rightarrow> session \<Rightarrow> string res" where
  "pick_outbound I r ses = pick_from I r (ses_destination ses) (rc_rules (ro_config r))"

text \<open>
  The constructor. \<open>load\<close> stands for \<open>RuleSet::load_source\<close> on a path, which reads a file. A tag
  that occurs twice keeps the later set.
\<close>

fun load_rule_sets :: "(string \<Rightarrow> route_rule list res) \<Rightarrow> rule_set_config list \<Rightarrow>
    (string \<times> route_rule list) list \<Rightarrow> (string \<times> route_rule list) list res" where
  "load_rule_sets load [] sets = Inr sets"
| "load_rule_sets load (item # items) sets =
     (if rs_type item \<noteq> ''local'' then
        Inl (RuntimeError (''only local rule_set is supported: '' @ rs_tag item))
      else if rs_format item \<noteq> ''source'' then
        Inl (RuntimeError (''only source rule_set is supported: '' @ rs_tag item))
      else if rs_path item = [] then Inl (RuntimeError (''missing rule_set path: '' @ rs_tag item))
      else bindE (load (rs_path item)) (\<lambda>rules.
        load_rule_sets load items (AList.update (rs_tag item) rules sets)))"

definition make_router :: "(string \<Rightarrow> route_rule list res) \<Rightarrow> route_config \<Rightarrow> router res" where
  "make_router load config =
     bindE (load_rule_sets load (rc_rule_sets config) []) (\<lambda>sets.
     Inr \<lparr>ro_config = config, ro_rule_sets = sets\<rparr>)"

interpretation outbound: first_match "\<lambda>rule. match_rule I r rule dst" "\<lambda>rule. Inr (rr_outbound rule)"
    "Inr (rc_final_outbound (ro_config r))" "pick_from I r dst" for I r dst
  by unfold_locales simp_all

end
