(* ===== verification/Router_Properties.thy ===== *)
theory Router_Properties
  imports Router Text_IP
begin

text \<open>
  What the router promises: the first matching rule decides, a domain suffix matches whole labels,
  and a CIDR block matches the addresses that share its network bits.
\<close>

section \<open>Comparing network bits\<close>

lemma mask_compare:
  fixes a b :: "'a::len word"
  shows "a AND push_bit k (- 1) = b AND push_bit k (- 1) \<longleftrightarrow> (\<forall>j. k \<le> j \<and> j < LENGTH('a) \<longrightarrow> bit a j = bit b j)"
  by (auto simp: bit_eq_iff bit_simps)

lemma drop_compare:
  fixes a b :: "'a::len word"
  shows "drop_bit k a = drop_bit k b \<longleftrightarrow> (\<forall>j. k \<le> j \<and> j < LENGTH('a) \<longrightarrow> bit a j = bit b j)"
proof
  assume eq: "drop_bit k a = drop_bit k b"
  show "\<forall>j. k \<le> j \<and> j < LENGTH('a) \<longrightarrow> bit a j = bit b j"
  proof (intro allI impI)
    fix j assume j: "k \<le> j \<and> j < LENGTH('a)"
    have "bit (drop_bit k a) (j - k) = bit (drop_bit k b) (j - k)" by (simp only: eq)
    then show "bit a j = bit b j" using j by (simp add: bit_simps)
  qed
next
  assume "\<forall>j. k \<le> j \<and> j < LENGTH('a) \<longrightarrow> bit a j = bit b j"
  then show "drop_bit k a = drop_bit k b"
    by (intro bit_word_eqI) (simp add: bit_simps, metis bit_imp_le_length le_add1)
qed

lemma v6_byte_bit: "i < 16 \<Longrightarrow> j < 8 \<Longrightarrow> bit (v6_to_bytes a ! i) j = bit (v6_bits a) (120 - 8 * i + j)"
  by (simp add: v6_to_bytes_def bit_simps)

lemma byte_eq_bits: "(x :: byte) = y \<longleftrightarrow> (\<forall>j < 8. bit x j = bit y j)"
  by (auto intro: bit_word_eqI)

lemma v6_byte_eq: "i < 16 \<Longrightarrow> v6_to_bytes a ! i = v6_to_bytes b ! i \<longleftrightarrow>
    (\<forall>j < 8. bit (v6_bits a) (120 - 8 * i + j) = bit (v6_bits b) (120 - 8 * i + j))"
  using v6_byte_bit [of i _ a] v6_byte_bit [of i _ b] byte_eq_bits [of "v6_to_bytes a ! i"] by auto

lemma top_bits_by_bytes:
  fixes p :: "nat \<Rightarrow> bool"
  assumes n: "n \<le> 128"
  shows "(\<forall>k. 128 - n \<le> k \<and> k < 128 \<longrightarrow> p k) \<longleftrightarrow>
    (\<forall>i < n div 8. \<forall>j < 8. p (120 - 8 * i + j)) \<and> (\<forall>j. 8 - n mod 8 \<le> j \<and> j < 8 \<longrightarrow> p (120 - 8 * (n div 8) + j))"
  (is "?all \<longleftrightarrow> ?full \<and> ?rest")
proof -
  define d m where "d = n div 8" and "m = n mod 8"
  have n_dm: "n = 8 * d + m" and m: "m < 8" by (simp_all add: d_def m_def)
  have d: "8 * d + m \<le> 128" using n n_dm by simp
  have "?all" if full: "\<forall>i < d. \<forall>j < 8. p (120 - 8 * i + j)"
    and rest: "\<forall>j. 8 - m \<le> j \<and> j < 8 \<longrightarrow> p (120 - 8 * d + j)"
  proof (intro allI impI)
    fix k assume k: "128 - n \<le> k \<and> k < 128"
    define i j where "i = (127 - k) div 8" and "j = 7 - (127 - k) mod 8"
    have "127 - k = 8 * i + (127 - k) mod 8" "(127 - k) mod 8 < 8" by (simp_all add: i_def)
    then have eq: "127 - k = 8 * i + (7 - j)" and j: "j < 8" by (simp_all add: j_def)
    have "i \<le> 15" unfolding i_def using div_le_mono [of "127 - k" 127 8] by simp
    then have "8 * i \<le> 120" by simp
    then have ij: "k = 120 - 8 * i + j" using eq j k by linarith
    have le: "8 * i + (7 - j) < 8 * d + m" using eq k n_dm d by linarith
    show "p k"
    proof (cases "i < d")
      case True
      then show ?thesis using full j ij by simp
    next
      case False
      then have "i = d" using le m by linarith
      moreover have "8 - m \<le> j" using le \<open>i = d\<close> j by linarith
      ultimately show ?thesis using rest j ij by simp
    qed
  qed
  moreover have "p (120 - 8 * i + j)" if ?all "i < d" "j < 8" for i j
    using that(1) [rule_format, of "120 - 8 * i + j"] that(2,3) d n_dm by linarith
  moreover have "p (120 - 8 * d + j)" if ?all "8 - m \<le> j" "j < 8" for j
    using that(1) [rule_format, of "120 - 8 * d + j"] that(2,3) d m n_dm by linarith
  ultimately show ?thesis unfolding d_def m_def by meson
qed

section \<open>Single matchers\<close>

lemma find_char_0: "find_char s c 0 = index_of c s"
  by (cases "index_of c s") (simp_all add: find_char_def)

lemma ipv4_to_u32_id [simp]: "ipv4_to_u32 a = a"
  using v4_of_to_bytes [of a] by (simp add: ipv4_to_u32_def v4_of_bytes_def Let_def)

lemma u32_ones: "(0xffffffff :: u32) = - 1"
  by simp

lemma u32_mask_compare:
  fixes a b :: u32
  assumes "n \<le> 32"
  shows "a AND (if int n = 0 then 0 else push_bit (nat (32 - int n)) 0xffffffff) =
      b AND (if int n = 0 then 0 else push_bit (nat (32 - int n)) 0xffffffff) \<longleftrightarrow>
    drop_bit (32 - n) a = drop_bit (32 - n) b"
proof (cases "n = 0")
  case True
  then show ?thesis using drop_compare [of 32 a b] by simp
next
  case False
  have "nat (32 - int n) = 32 - n" using assms by simp
  then show ?thesis
    using False mask_compare [of a "32 - n" b] drop_compare [of "32 - n" a b] by (simp add: u32_ones)
qed

text \<open>The loop over full bytes and the masked byte after them compare the first \<open>n\<close> bits.\<close>

lemma byte_mask: "k \<le> 8 \<Longrightarrow> ucast (push_bit k (0xff :: u32)) = (push_bit k (- 1) :: byte)"
  by (intro bit_word_eqI) (auto simp: bit_simps ff_mask)

lemma byte_mask_compare:
  fixes x y :: byte
  assumes "k \<le> 8"
  shows "x AND ucast (push_bit k (0xff :: u32)) = y AND ucast (push_bit k (0xff :: u32)) \<longleftrightarrow>
    (\<forall>j. k \<le> j \<and> j < 8 \<longrightarrow> bit x j = bit y j)"
  by (simp only: byte_mask [OF assms] mask_compare) simp

lemma v6_prefix_bytes:
  assumes n: "n \<le> 128"
  shows "drop_bit (128 - n) (v6_bits a) = drop_bit (128 - n) (v6_bits b) \<longleftrightarrow>
    list_all (\<lambda>i. v6_to_bytes a ! i = v6_to_bytes b ! i) [0..<n div 8] \<and>
    (n mod 8 = 0 \<or> v6_to_bytes a ! (n div 8) AND ucast (push_bit (8 - n mod 8) (0xff :: u32)) =
      v6_to_bytes b ! (n div 8) AND ucast (push_bit (8 - n mod 8) (0xff :: u32)))"
proof -
  let ?same = "\<lambda>k. bit (v6_bits a) k = bit (v6_bits b) k"
  have full: "list_all (\<lambda>i. v6_to_bytes a ! i = v6_to_bytes b ! i) [0..<n div 8] \<longleftrightarrow>
      (\<forall>i < n div 8. \<forall>j < 8. ?same (120 - 8 * i + j))"
    using n by (auto simp: list_all_iff v6_byte_eq)
  have rest: "(n mod 8 = 0 \<or> v6_to_bytes a ! (n div 8) AND ucast (push_bit (8 - n mod 8) (0xff :: u32)) =
      v6_to_bytes b ! (n div 8) AND ucast (push_bit (8 - n mod 8) (0xff :: u32))) \<longleftrightarrow>
      (\<forall>j. 8 - n mod 8 \<le> j \<and> j < 8 \<longrightarrow> ?same (120 - 8 * (n div 8) + j))"
  proof (cases "n mod 8 = 0")
    case False
    then have "n \<noteq> 128" by auto
    then have "n div 8 < 16" using n less_mult_imp_div_less [of n 16 8] by simp
    then show ?thesis using False by (simp add: byte_mask_compare v6_byte_bit)
  qed auto
  show ?thesis
    using top_bits_by_bytes [OF n, of ?same] drop_compare [of "128 - n" "v6_bits a" "v6_bits b"]
    by (simp add: full rest)
qed

lemma cidr_split:
  "CHR ''/'' \<notin> set t \<Longrightarrow> find_char (t @ ''/'' @ p) (CHR ''/'') 0 = Some (length t)"
  by (simp add: find_char_0 index_of_append)

text \<open>A block written as an address and a prefix length.\<close>

lemma ipv4_cidr_network:
  assumes "asio_text I" "dst_host dst = IPv4Address a"
    and "make_address_v4 I t = Some b" "CHR ''/'' \<notin> set t" "CHR '':'' \<notin> set t" "n < 2 ^ 31"
  shows "match_cidr I dst (t @ ''/'' @ show_dec n) =
    Inr (n \<le> 32 \<and> drop_bit (32 - n) a = drop_bit (32 - n) b)"
proof -
  have "CHR '':'' \<notin> set (t @ ''/'' @ show_dec n)"
    using assms(5) by (simp add: show_dec_no_sep not_digit_sep)
  then have "find_char (t @ ''/'' @ show_dec n) (CHR '':'') 0 = None"
    unfolding find_char_0 by (rule index_of_notin)
  moreover have "make_address_v4 I (v4_to_string I a) = Some a" using assms(1) by (simp add: asio_text_def)
  ultimately show ?thesis
    using assms cidr_split [OF assms(4), of "show_dec n"] u32_mask_compare [of n b a]
    by (auto simp: match_cidr_def match_ipv4_cidr_def make_address_v4_throw_def stoi_show_dec Let_def)
qed

lemma ipv6_cidr_network:
  assumes "asio_text I" "dst_host dst = IPv6Address a" "v6_scope a = 0"
    and "make_address_v6 I t = Some b" "CHR ''/'' \<notin> set t" "CHR '':'' \<in> set t" "n < 2 ^ 31"
  shows "match_cidr I dst (t @ ''/'' @ show_dec n) =
    Inr (n \<le> 128 \<and> drop_bit (128 - n) (v6_bits a) = drop_bit (128 - n) (v6_bits b))"
proof -
  have "find_char (t @ ''/'' @ show_dec n) (CHR '':'') 0 \<noteq> None"
    unfolding find_char_0 index_of_None using assms(6) by simp
  moreover have "make_address_v6 I (v6_to_string I a) = Some a" using assms(1,3) by (simp add: asio_text_def)
  ultimately have "match_cidr I dst (t @ ''/'' @ show_dec n) =
    (if 128 < n then Inr False else
     if \<not> list_all (\<lambda>i. v6_to_bytes b ! i = v6_to_bytes a ! i) [0..<n div 8] then Inr False
     else if n mod 8 = 0 then Inr True
     else Inr (v6_to_bytes b ! (n div 8) AND ucast (push_bit (8 - n mod 8) (0xff :: u32)) =
        v6_to_bytes a ! (n div 8) AND ucast (push_bit (8 - n mod 8) (0xff :: u32))))"
    using assms cidr_split [OF assms(5), of "show_dec n"]
    by (simp add: match_cidr_def match_ipv6_cidr_def make_address_v6_throw_def stoi_show_dec Let_def)
  then show ?thesis
    unfolding eq_commute [of "drop_bit (128 - n) (v6_bits a)"] using v6_prefix_bytes [of n b a] by auto
qed

lemma show_hex_no_slash: "CHR ''/'' \<notin> set (show_hex n)"
  using show_hex_hex [of n] by (auto simp: list_all_iff is_hex_def hex_value_def tolower_def Let_def)

lemma group_text_chars: "CHR ''/'' \<notin> set (group_text bs)" "CHR '':'' \<in> set (group_text bs)"
proof -
  have "set (group_text bs) \<subseteq> insert (CHR '':'') (\<Union> (set (map set (map (\<lambda>g. show_hex (unat g)) (groups bs)))))"
    unfolding group_text_def by (rule set_join_with)
  then show "CHR ''/'' \<notin> set (group_text bs)" using show_hex_no_slash by auto
  show "CHR '':'' \<in> set (group_text bs)" by (simp add: group_text_def groups_def upt_rec)
qed

section \<open>What a rule means\<close>

text \<open>
  A block is an address with the number of its network bits; its text is the address, a slash and
  the number. \<open>asio_chars\<close> is what the router relies on beyond \<open>asio_text\<close>: no address text has a
  slash, and exactly those of IPv6 have a colon.
\<close>

type_synonym block = "address \<times> nat"

fun block_text :: "asio_ip \<Rightarrow> block \<Rightarrow> string" where
  "block_text I (V4 b, n) = v4_to_string I b @ ''/'' @ show_dec n"
| "block_text I (V6 b, n) = v6_to_string I b @ ''/'' @ show_dec n"

fun block_wf :: "block \<Rightarrow> bool" where
  "block_wf (V4 b, n) \<longleftrightarrow> n < 2 ^ 31"
| "block_wf (V6 b, n) \<longleftrightarrow> v6_scope b = 0 \<and> n < 2 ^ 31"

fun in_block :: "host \<Rightarrow> block \<Rightarrow> bool" where
  "in_block (IPv4Address a) (V4 b, n) \<longleftrightarrow> n \<le> 32 \<and> drop_bit (32 - n) a = drop_bit (32 - n) b"
| "in_block (IPv6Address a) (V6 b, n) \<longleftrightarrow>
     n \<le> 128 \<and> drop_bit (128 - n) (v6_bits a) = drop_bit (128 - n) (v6_bits b)"
| "in_block _ _ \<longleftrightarrow> False"

definition asio_chars :: "asio_ip \<Rightarrow> bool" where
  "asio_chars I \<longleftrightarrow>
     (\<forall>a. CHR ''/'' \<notin> set (v4_to_string I a) \<and> CHR '':'' \<notin> set (v4_to_string I a)) \<and>
     (\<forall>a. CHR ''/'' \<notin> set (v6_to_string I a) \<and> CHR '':'' \<in> set (v6_to_string I a))"

fun global_host :: "host \<Rightarrow> bool" where
  "global_host (IPv6Address a) \<longleftrightarrow> v6_scope a = 0"
| "global_host _ \<longleftrightarrow> True"

lemma block_has_colon:
  assumes "asio_chars I"
  shows "find_char (block_text I blk) (CHR '':'') 0 = None \<longleftrightarrow> (\<exists>b. fst blk = V4 b)"
  using assms unfolding asio_chars_def find_char_0 index_of_None
  by (cases "(I, blk)" rule: block_text.cases) (simp_all add: show_dec_no_sep not_digit_sep)

lemma match_cidr_block:
  assumes "asio_text I" "asio_chars I" "global_host (dst_host dst)" "block_wf blk"
  shows "match_cidr I dst (block_text I blk) = Inr (in_block (dst_host dst) blk)"
proof (cases "(dst_host dst, blk)" rule: in_block.cases)
  case (1 a b n)
  moreover have "make_address_v4 I (v4_to_string I b) = Some b" using assms(1) by (simp add: asio_text_def)
  ultimately show ?thesis
    using assms ipv4_cidr_network [of I dst a "v4_to_string I b" b n] by (simp add: asio_chars_def)
next
  case (2 a b n)
  moreover have "make_address_v6 I (v6_to_string I b) = Some b" using assms(1,4) 2 by (simp add: asio_text_def)
  ultimately show ?thesis
    using assms ipv6_cidr_network [of I dst a "v6_to_string I b" b n] by (simp add: asio_chars_def)
qed (use block_has_colon [OF assms(2), of blk] in \<open>auto simp: match_cidr_def\<close>)

text \<open>
  The rule in terms of labels and blocks. A suffix item matches the domains whose last labels are
  those of the item (\<open>example.com\<close> matches \<open>www.example.com\<close>, never \<open>badexample.com\<close>); one that
  starts with a dot is an ordinary suffix.
\<close>

definition suffix_applies :: "string \<Rightarrow> string \<Rightarrow> bool" where
  "suffix_applies domain item \<longleftrightarrow> item \<noteq> [] \<and>
     (if hd item = CHR ''.'' then suffix item domain
      else suffix (split_on (CHR ''.'') item) (split_on (CHR ''.'') domain))"

definition domain_applies :: "route_rule \<Rightarrow> host \<Rightarrow> bool" where
  "domain_applies rule h \<longleftrightarrow>
     (case h of
        DomainName d \<Rightarrow> d \<in> set (rr_domain rule) \<or> (\<exists>item \<in> set (rr_domain_suffix rule). suffix_applies d item) \<or>
          (\<exists>k \<in> set (rr_domain_keyword rule). sublist k d)
      | _ \<Rightarrow> False)"

definition blocks_apply :: "asio_ip \<Rightarrow> route_rule \<Rightarrow> host \<Rightarrow> bool" where
  "blocks_apply I rule h \<longleftrightarrow>
     (\<exists>blk. block_wf blk \<and> block_text I blk \<in> set (rr_ip_cidr rule) \<and> in_block h blk)"

definition conditions_apply :: "asio_ip \<Rightarrow> host \<Rightarrow> route_rule \<Rightarrow> bool" where
  "conditions_apply I h rule \<longleftrightarrow> domain_applies rule h \<or> blocks_apply I rule h"

definition rule_applies :: "asio_ip \<Rightarrow> router \<Rightarrow> host \<Rightarrow> route_rule \<Rightarrow> bool" where
  "rule_applies I r h rule \<longleftrightarrow> conditions_apply I h rule \<or>
     (\<exists>tag \<in> set (rr_rule_set rule). \<exists>rules. map_of (ro_rule_sets r) tag = Some rules \<and>
        (\<exists>inner \<in> set rules. conditions_apply I h inner))"

text \<open>Every address block of the configuration is the text of a block.\<close>

definition rule_wf :: "asio_ip \<Rightarrow> route_rule \<Rightarrow> bool" where
  "rule_wf I rule \<longleftrightarrow> list_all (\<lambda>c. \<exists>blk. block_wf blk \<and> c = block_text I blk) (rr_ip_cidr rule)"

definition router_wf :: "asio_ip \<Rightarrow> router \<Rightarrow> bool" where
  "router_wf I r \<longleftrightarrow> list_all (rule_wf I) (rc_rules (ro_config r)) \<and>
     list_all (\<lambda>(tag, rules). list_all (rule_wf I) rules) (ro_rule_sets r)"

lemma router_ends_with_suffix: "router_ends_with t s \<longleftrightarrow> suffix s t"
  unfolding router_ends_with_def by (auto simp: suffix_def) (metis append_take_drop_id)

lemma match_suffix_applies: "match_suffix domain item \<longleftrightarrow> suffix_applies domain item"
  by (simp add: match_suffix_def suffix_applies_def suffix_split_on router_ends_with_suffix)

lemma match_domain_applies: "match_domain rule dst \<longleftrightarrow> domain_applies rule (dst_host dst)"
  by (auto simp: match_domain_def domain_applies_def match_suffix_applies list_ex_iff router_contains_def
      find_str_def index_of_str_None split: host.split)

lemma any_res_decides:
  assumes "\<And>r. r \<in> set rs \<Longrightarrow> test r = Inr (p r)"
  shows "any_res test rs = Inr (\<exists>r \<in> set rs. p r)"
  using assms by (induction rs) auto

lemma match_ip_cidr_applies:
  assumes "asio_text I" "asio_chars I" "global_host (dst_host dst)" "rule_wf I rule"
  shows "match_ip_cidr I rule dst = Inr (blocks_apply I rule (dst_host dst))"
proof (cases "host_is_ip (dst_host dst)")
  case True
  have "match_cidr I dst c = Inr (\<exists>blk. block_wf blk \<and> c = block_text I blk \<and> in_block (dst_host dst) blk)"
    if "c \<in> set (rr_ip_cidr rule)" for c
  proof -
    from that assms(4) obtain blk where blk: "block_wf blk" "c = block_text I blk"
      by (auto simp: rule_wf_def list_all_iff)
    have "in_block (dst_host dst) blk' = in_block (dst_host dst) blk"
      if "block_wf blk'" "block_text I blk' = block_text I blk" for blk'
      using match_cidr_block [OF assms(1-3) that(1)] match_cidr_block [OF assms(1-3) blk(1)] that(2) by simp
    then have "(\<exists>blk'. block_wf blk' \<and> c = block_text I blk' \<and> in_block (dst_host dst) blk') = in_block (dst_host dst) blk"
      using blk by metis
    then show ?thesis using match_cidr_block [OF assms(1-3) blk(1)] blk(2) by simp
  qed
  then have "any_res (match_cidr I dst) (rr_ip_cidr rule) =
      Inr (\<exists>c \<in> set (rr_ip_cidr rule). \<exists>blk. block_wf blk \<and> c = block_text I blk \<and> in_block (dst_host dst) blk)"
    by (rule any_res_decides)
  also have "\<dots> = Inr (blocks_apply I rule (dst_host dst))" by (auto simp: blocks_apply_def)
  finally show ?thesis using True by (simp add: match_ip_cidr_def)
next
  case False
  then show ?thesis by (cases "dst_host dst") (auto simp: match_ip_cidr_def blocks_apply_def host_is_ip_def)
qed

lemma match_conditions_apply:
  assumes "asio_text I" "asio_chars I" "global_host (dst_host dst)" "rule_wf I rule"
  shows "match_rule_conditions I rule dst = Inr (conditions_apply I (dst_host dst) rule)"
  using match_ip_cidr_applies [OF assms]
  by (simp add: match_rule_conditions_def conditions_apply_def match_domain_applies)

lemma match_rule_applies:
  assumes I: "asio_text I" "asio_chars I" "global_host (dst_host dst)"
    and r: "router_wf I r" and rule: "rule_wf I rule"
  shows "match_rule I r rule dst = Inr (rule_applies I r (dst_host dst) rule)"
proof -
  have "match_rule_set I r tag dst = Inr (\<exists>rules. map_of (ro_rule_sets r) tag = Some rules \<and>
      (\<exists>inner \<in> set rules. conditions_apply I (dst_host dst) inner))" for tag
  proof (cases "map_of (ro_rule_sets r) tag")
    case (Some rules)
    then have "(tag, rules) \<in> set (ro_rule_sets r)" by (rule map_of_SomeD)
    then have "rule_wf I inner" if "inner \<in> set rules" for inner
      using that r by (auto simp: router_wf_def list_all_iff)
    then have "rule_set_match I rules dst = Inr (\<exists>inner \<in> set rules. conditions_apply I (dst_host dst) inner)"
      unfolding rule_set_match_def by (intro any_res_decides match_conditions_apply I)
    then show ?thesis by (simp add: Some match_rule_set_def)
  qed (simp add: match_rule_set_def)
  then have "any_res (\<lambda>tag. match_rule_set I r tag dst) (rr_rule_set rule) =
      Inr (\<exists>tag \<in> set (rr_rule_set rule). \<exists>rules. map_of (ro_rule_sets r) tag = Some rules \<and>
        (\<exists>inner \<in> set rules. conditions_apply I (dst_host dst) inner))"
    by (intro any_res_decides)
  then show ?thesis
    using match_conditions_apply [OF I rule] by (simp add: match_rule_def rule_applies_def)
qed

section \<open>Properties\<close>

lemma pick_outbound_tag:
  assumes "asio_text I" "asio_chars I" "global_host (dst_host (ses_destination ses))" "router_wf I r"
  shows "pick_outbound I r ses =
    Inr (case find (rule_applies I r (dst_host (ses_destination ses))) (rc_rules (ro_config r)) of
           None \<Rightarrow> rc_final_outbound (ro_config r)
         | Some rule \<Rightarrow> rr_outbound rule)"
proof -
  let ?dst = "ses_destination ses"
  have "pick_from I r ?dst rules = Inr (case find (rule_applies I r (dst_host ?dst)) rules of
      None \<Rightarrow> rc_final_outbound (ro_config r) | Some rule \<Rightarrow> rr_outbound rule)" if "list_all (rule_wf I) rules" for rules
    using that by (induction rules) (simp_all add: match_rule_applies [OF assms])
  then show ?thesis using assms(4) by (simp add: pick_outbound_def router_wf_def)
qed

text \<open>
  C10: with well-formed address blocks in the configuration no match raises, and a session goes to
  the outbound of the first rule that applies to its host, or to the final outbound when none does.
\<close>

theorem pick_outbound_refines:
  assumes "asio_text I" "asio_chars I" "global_host (dst_host (ses_destination ses))" "router_wf I r"
  shows "pick_outbound I r ses =
    Inr (case find (rule_applies I r (dst_host (ses_destination ses))) (rc_rules (ro_config r)) of
           None \<Rightarrow> rc_final_outbound (ro_config r)
         | Some rule \<Rightarrow> rr_outbound rule)"
  by (rule pick_outbound_tag [OF assms])

lemma asio_chars_ref: "asio_chars ref_ip"
proof -
  have "set (dotted_quad bs) \<subseteq> insert (CHR ''.'') (\<Union> (set (map set (map (\<lambda>b. show_dec (unat b)) bs))))" for bs
    unfolding dotted_quad_def by (rule set_join_with)
  then have "CHR ''/'' \<notin> set (dotted_quad bs) \<and> CHR '':'' \<notin> set (dotted_quad bs)" for bs
    using show_dec_no_sep [of "CHR ''/''"] show_dec_no_sep [of "CHR '':''"] by (auto simp: is_digit_def)
  then show ?thesis by (simp add: asio_chars_def group_text_chars)
qed

definition sample_router :: router where
  "sample_router =
     \<lparr>ro_config = \<lparr>rc_rules =
        [\<lparr>rr_domain = [], rr_domain_suffix = [], rr_domain_keyword = [],
           rr_ip_cidr = [block_text ref_ip (V4 0x0A000000, 8)], rr_rule_set = [], rr_action = [], rr_outbound = ''direct''\<rparr>,
         \<lparr>rr_domain = [], rr_domain_suffix = [], rr_domain_keyword = [], rr_ip_cidr = [],
           rr_rule_set = [''site''], rr_action = [], rr_outbound = ''proxy''\<rparr>],
        rc_final_outbound = ''block'', rc_rule_sets = []\<rparr>,
      ro_rule_sets =
        [(''site'', [\<lparr>rr_domain = [], rr_domain_suffix = [''a.io''], rr_domain_keyword = [], rr_ip_cidr = [],
           rr_rule_set = [], rr_action = [], rr_outbound = []\<rparr>])]\<rparr>"

lemma sample_router_wf: "router_wf ref_ip sample_router"
proof -
  have "\<exists>blk. block_wf blk \<and> block_text ref_ip (V4 0x0A000000, 8) = block_text ref_ip blk"
    by (intro exI [of _ "(V4 0x0A000000, 8)"]) simp
  then show ?thesis
    unfolding router_wf_def rule_wf_def sample_router_def by (simp del: block_text.simps split_paired_Ex)
qed

lemma sample_rules:
  obtains r0 r1 where "rc_rules (ro_config sample_router) = [r0, r1]" "rr_outbound r1 = ''proxy''"
    "\<And>d. \<not> rule_applies ref_ip sample_router (DomainName d) r0"
    "\<And>d. rule_applies ref_ip sample_router (DomainName d) r1 \<longleftrightarrow> suffix_applies d ''a.io''"
  by (rule that [of "rc_rules (ro_config sample_router) ! 0" "rc_rules (ro_config sample_router) ! 1"])
    (simp_all add: sample_router_def rule_applies_def conditions_apply_def domain_applies_def blocks_apply_def)

theorem pick_outbound_refines_witness:
  "pick_outbound ref_ip sample_router
      \<lparr>ses_destination = \<lparr>dst_host = DomainName ''w.a.io'', dst_port = 443\<rparr>, ses_initial_payload = []\<rparr> = Inr ''proxy'' \<and>
   pick_outbound ref_ip sample_router
      \<lparr>ses_destination = \<lparr>dst_host = DomainName ''wa.io'', dst_port = 443\<rparr>, ses_initial_payload = []\<rparr> = Inr ''block''"
proof -
  have "suffix_applies ''w.a.io'' ''a.io''" "\<not> suffix_applies ''wa.io'' ''a.io''"
    by (auto simp: suffix_applies_def suffix_def Cons_eq_append_conv)
  moreover have "rc_final_outbound (ro_config sample_router) = ''block''" by (simp add: sample_router_def)
  moreover note pick_outbound_refines [OF asio_text_ref asio_chars_ref _ sample_router_wf]
  ultimately show ?thesis by (rule_tac sample_rules) simp
qed

text \<open>
  The address blocks of a rule match an IP destination exactly when one of them contains it;
  the block's family counts, and the bits beyond the prefix length of the written address do not.
\<close>

theorem match_ip_cidr_blocks:
  assumes "asio_text I" "asio_chars I" "global_host (dst_host dst)"
    and "rr_ip_cidr rule = map (block_text I) blocks" "list_all block_wf blocks"
  shows "match_ip_cidr I rule dst = Inr (list_ex (in_block (dst_host dst)) blocks)"
proof (cases "host_is_ip (dst_host dst)")
  case True
  have "any_res (match_cidr I dst) (map (block_text I) blks) = Inr (list_ex (in_block (dst_host dst)) blks)"
    if "list_all block_wf blks" for blks
    using that by (induction blks) (simp_all add: match_cidr_block [OF assms(1-3)] del: block_text.simps)
  then show ?thesis using True assms(4,5) by (simp add: match_ip_cidr_def)
next
  case False
  then show ?thesis by (cases "dst_host dst") (auto simp: match_ip_cidr_def host_is_ip_def list_ex_iff)
qed

definition sample_blocks :: "block list" where
  "sample_blocks = [(V4 0x0A010203, 16), (V6 \<lparr>v6_bits = 5, v6_scope = 0\<rparr>, 127)]"

definition sample_block_rule :: route_rule where
  "sample_block_rule =
     \<lparr>rr_domain = [], rr_domain_suffix = [], rr_domain_keyword = [],
      rr_ip_cidr = map (block_text ref_ip) sample_blocks, rr_rule_set = [], rr_action = [], rr_outbound = []\<rparr>"

theorem match_ip_cidr_blocks_witness:
  "match_ip_cidr ref_ip sample_block_rule \<lparr>dst_host = IPv4Address 0x0A01FFFF, dst_port = 80\<rparr> = Inr True \<and>
   match_ip_cidr ref_ip sample_block_rule \<lparr>dst_host = IPv4Address 0x0A02FFFF, dst_port = 80\<rparr> = Inr False \<and>
   match_ip_cidr ref_ip sample_block_rule
     \<lparr>dst_host = IPv6Address \<lparr>v6_bits = 4, v6_scope = 0\<rparr>, dst_port = 80\<rparr> = Inr True"
proof -
  have "rr_ip_cidr sample_block_rule = map (block_text ref_ip) sample_blocks" "list_all block_wf sample_blocks"
    by (simp_all add: sample_block_rule_def sample_blocks_def)
  note blocks = match_ip_cidr_blocks [OF asio_text_ref asio_chars_ref _ this]
  show ?thesis by (simp add: blocks sample_blocks_def)
qed

text \<open>
  A malformed address block is not noticed when the configuration is loaded: it raises when the
  rule is tried on an IPv4 destination that no earlier rule or block has matched.
\<close>

theorem malformed_block_raises:
  assumes "ses_destination ses = dst" "dst_host dst = IPv4Address a"
    and "rc_rules (ro_config r) = pre @ rule # post" "list_all (\<lambda>p. match_rule I r p dst = Inr False) pre"
    and "rr_ip_cidr rule = (t @ ''/'' @ p) # blocks"
    and "make_address_v4 I t = None" "CHR ''/'' \<notin> set t" "CHR '':'' \<notin> set (t @ p)"
  shows "pick_outbound I r ses = Inl (SystemError ''make_address_v4'')"
proof -
  have "find_char (t @ ''/'' @ p) (CHR '':'') 0 = None"
    using assms(8) unfolding find_char_0 index_of_None by simp
  moreover have "\<not> match_domain rule dst" by (simp add: match_domain_def assms(2))
  ultimately have "match_rule I r rule dst = Inl (SystemError ''make_address_v4'')"
    using assms(2,5,6) cidr_split [OF assms(7), of p]
    by (simp add: match_rule_def match_rule_conditions_def match_ip_cidr_def host_is_ip_def match_cidr_def
        match_ipv4_cidr_def make_address_v4_throw_def)
  moreover have "outbound.passed I r dst pre"
    using assms(4) by (simp add: outbound.passed_def list_all_iff)
  ultimately show ?thesis
    using outbound.scan_raises assms(1,3) by (simp add: pick_outbound_def)
qed

theorem malformed_block_raises_witness:
  "pick_outbound ref_ip
     \<lparr>ro_config = \<lparr>rc_rules = [\<lparr>rr_domain = [], rr_domain_suffix = [], rr_domain_keyword = [], rr_ip_cidr = [''10.0/8''],
        rr_rule_set = [], rr_action = [], rr_outbound = ''direct''\<rparr>], rc_final_outbound = ''proxy'', rc_rule_sets = []\<rparr>,
      ro_rule_sets = []\<rparr>
     \<lparr>ses_destination = \<lparr>dst_host = IPv4Address 1, dst_port = 80\<rparr>, ses_initial_payload = []\<rparr>
   = Inl (SystemError ''make_address_v4'')"
proof -
  have "parse_quad ''10.0'' = None" by (simp add: parse_quad_def)
  then show ?thesis
    by (intro malformed_block_raises [where t = "''10.0''" and p = "''8''" and pre = "[]"]) auto
qed

end
