(* ===== verification/Json_Common.thy ===== *)
theory Json_Common
  imports Config_Types
begin

text \<open>
  \<open>src/common/json_common.hpp\<close> and \<open>json_common.cpp\<close> over Boost.JSON's values. An object lists its
  members in order, one per key. The accessors \<open>as_...\<close> and \<open>at\<close> raise \<open>system_error\<close> with the codes
  below; a member access \<open>operator[]\<close> on a missing key adds a null member, so that the accessor
  after it raises.
\<close>

text \<open>A \<open>double\<close> is only ever rejected here; its bits stand for it.\<close>

datatype json =
    J_null
  | J_bool bool
  | J_int64 "64 word"
  | J_uint64 "64 word"
  | J_double "64 word"
  | J_string string
  | J_array "json list"
  | J_object "(string \<times> json) list"

type_synonym json_object = "(string \<times> json) list"

fun as_object :: "json \<Rightarrow> json_object res" where
  "as_object (J_object o') = Inr o'"
| "as_object _ = Inl (SystemError ''not_object'')"

fun as_array :: "json \<Rightarrow> json list res" where
  "as_array (J_array xs) = Inr xs"
| "as_array _ = Inl (SystemError ''not_array'')"

fun as_string :: "json \<Rightarrow> string res" where
  "as_string (J_string s) = Inr s"
| "as_string _ = Inl (SystemError ''not_string'')"

fun as_int64 :: "json \<Rightarrow> 64 word res" where
  "as_int64 (J_int64 v) = Inr v"
| "as_int64 _ = Inl (SystemError ''not_int64'')"

definition obj_at :: "json_object \<Rightarrow> string \<Rightarrow> json res" where
  "obj_at o' key = (case map_of o' key of None \<Rightarrow> Inl (SystemError ''out_of_range'') | Some v \<Rightarrow> Inr v)"

definition obj_index :: "json_object \<Rightarrow> string \<Rightarrow> json" where
  "obj_index o' key = (case map_of o' key of None \<Rightarrow> J_null | Some v \<Rightarrow> v)"

text \<open>\<open>std::string(s.c_str())\<close> ends at the first NUL.\<close>

definition c_str_copy :: "string \<Rightarrow> string" where
  "c_str_copy s = takeWhile (\<lambda>c. c \<noteq> CHR 0x00) s"

section \<open>Typed members\<close>

definition get_string_or :: "json_object \<Rightarrow> string \<Rightarrow> bool \<Rightarrow> string \<Rightarrow> string res" where
  "get_string_or o' key force def =
     (case map_of o' key of
        Some (J_string s) \<Rightarrow> Inr s
      | Some _ \<Rightarrow> Inl (RuntimeError (key @ '' must be string''))
      | None \<Rightarrow> if force then Inl (RuntimeError (key @ '' must be string'')) else Inr def)"

definition get_bool_or :: "json_object \<Rightarrow> string \<Rightarrow> bool \<Rightarrow> bool \<Rightarrow> bool res" where
  "get_bool_or o' key force def =
     (case map_of o' key of
        Some (J_bool b) \<Rightarrow> Inr b
      | Some _ \<Rightarrow> Inl (RuntimeError (key @ '' must be bool''))
      | None \<Rightarrow> if force then Inl (RuntimeError (key @ '' must be bool'')) else Inr def)"

text \<open>The forms with the default arguments of the header.\<close>

abbreviation get_string :: "json_object \<Rightarrow> string \<Rightarrow> string res" where
  "get_string o' key \<equiv> get_string_or o' key True []"

abbreviation get_bool :: "json_object \<Rightarrow> string \<Rightarrow> bool res" where
  "get_bool o' key \<equiv> get_bool_or o' key True False"

text \<open>The comparison is one of signed 64-bit numbers; the conversion keeps the low 16 bits.\<close>

definition get_u16 :: "json_object \<Rightarrow> string \<Rightarrow> u16 res" where
  "get_u16 o' key =
     bindE (obj_at o' key) (\<lambda>x. bindE (as_int64 x) (\<lambda>v.
     if 65535 < sint v then Inl (RuntimeError ''need u16'') else Inr (ucast v)))"

definition get_string_array :: "json_object \<Rightarrow> string \<Rightarrow> bool \<Rightarrow> string list res" where
  "get_string_array o' key force =
     (case map_of o' key of
        None \<Rightarrow> Inr []
      | Some (J_string s) \<Rightarrow> Inr [s]
      | Some (J_array xs) \<Rightarrow> mapE as_string xs
      | Some _ \<Rightarrow> if force then Inl (RuntimeError ''need string or string array'') else Inr [])"

end
