(* ===== verification/Config.thy ===== *)
theory Config
  imports Json_Common Router
begin

text \<open>
  \<open>src/config/config.cpp\<close> and \<open>RuleSet::load_source\<close> of \<open>src/route/rule_set.cpp\<close>: a parsed JSON text
  becomes a configuration. Reading a file and parsing JSON are the parameters \<open>open_file\<close> (\<open>None\<close> when
  the stream is not good) and \<open>parse_json\<close> (Boost.JSON's \<open>parse\<close>, which may raise).
\<close>

section \<open>Optional members of an object\<close>

text \<open>\<open>auto it = o.if_contains(key); it && it->is_array()\<close> and its object form.\<close>

definition array_member :: "json_object \<Rightarrow> string \<Rightarrow> json list option" where
  "array_member o' key = (case map_of o' key of Some (J_array xs) \<Rightarrow> Some xs | _ \<Rightarrow> None)"

definition object_member :: "json_object \<Rightarrow> string \<Rightarrow> json_object option" where
  "object_member o' key = (case map_of o' key of Some (J_object m) \<Rightarrow> Some m | _ \<Rightarrow> None)"

text \<open>An optional member that must be a string when it is there.\<close>

definition opt_string :: "json_object \<Rightarrow> string \<Rightarrow> string \<Rightarrow> string option res" where
  "opt_string o' key message =
     (case map_of o' key of
        None \<Rightarrow> Inr None
      | Some (J_string s) \<Rightarrow> Inr (Some (c_str_copy s))
      | Some _ \<Rightarrow> Inl (RuntimeError message))"

section \<open>Inbounds and outbounds\<close>

definition load_inbound :: "json \<Rightarrow> inbound_config res" where
  "load_inbound item =
     bindE (as_object item) (\<lambda>obj.
     bindE (get_string obj ''type'') (\<lambda>t.
     bindE (get_string obj ''tag'') (\<lambda>tag.
     bindE (get_string obj ''listen'') (\<lambda>listen.
     bindE (get_u16 obj ''listen_port'') (\<lambda>port.
     Inr \<lparr>ic_type = t, ic_tag = tag, ic_listen = listen, ic_listen_port = port\<rparr>)))))"

definition load_tls :: "json_object \<Rightarrow> tls_config res" where
  "load_tls obj =
     bindE (get_bool obj ''enabled'') (\<lambda>enabled.
     if enabled then
       bindE (get_string obj ''server_name'') (\<lambda>name.
       bindE (get_bool obj ''insecure'') (\<lambda>insecure.
       Inr \<lparr>tc_enabled = True, tc_server_name = name, tc_insecure = Some insecure\<rparr>))
     else Inr \<lparr>tc_enabled = False, tc_server_name = [], tc_insecure = None\<rparr>)"

definition load_transport :: "json_object \<Rightarrow> transport_config res" where
  "load_transport obj =
     bindE (get_string obj ''type'') (\<lambda>t.
     bindE (get_string obj ''path'') (\<lambda>path. Inr \<lparr>tr_type = t, tr_path = path\<rparr>))"

text \<open>An optional part of an object, loaded when it is there.\<close>

definition opt_load :: "(json_object \<Rightarrow> 'a res) \<Rightarrow> json_object option \<Rightarrow> 'a option res" where
  "opt_load load m = (case m of None \<Rightarrow> Inr None | Some obj \<Rightarrow> bindE (load obj) (\<lambda>x. Inr (Some x)))"

definition load_vless :: "json_object \<Rightarrow> string \<Rightarrow> outbound_config res" where
  "load_vless obj tag =
     bindE (get_string obj ''server'') (\<lambda>server.
     bindE (get_u16 obj ''server_port'') (\<lambda>port.
     bindE (get_string obj ''uuid'') (\<lambda>uuid.
     bindE (opt_load load_tls (object_member obj ''tls'')) (\<lambda>tls.
     bindE (opt_load load_transport (object_member obj ''transport'')) (\<lambda>transport.
     Inr \<lparr>oc_type = ''vless'', oc_tag = tag, oc_server = server, oc_server_port = Some port, oc_uuid = uuid,
       oc_tls = tls, oc_transport = transport\<rparr>)))))"

definition load_outbound :: "json \<Rightarrow> outbound_config res" where
  "load_outbound item =
     bindE (as_object item) (\<lambda>obj.
     bindE (get_string obj ''type'') (\<lambda>t.
     bindE (get_string obj ''tag'') (\<lambda>tag.
     if t = ''vless'' then load_vless obj tag
     else Inr \<lparr>oc_type = t, oc_tag = tag, oc_server = [], oc_server_port = None, oc_uuid = [],
         oc_tls = None, oc_transport = None\<rparr>)))"

section \<open>Routes\<close>

definition load_rule_set_config :: "json \<Rightarrow> rule_set_config res" where
  "load_rule_set_config item =
     bindE (as_object item) (\<lambda>obj.
     bindE (get_string obj ''type'') (\<lambda>t.
     bindE (get_string obj ''tag'') (\<lambda>tag.
     bindE (get_string obj ''format'') (\<lambda>format.
     bindE (get_string obj ''path'') (\<lambda>path.
     Inr \<lparr>rs_type = t, rs_tag = tag, rs_format = format, rs_path = path\<rparr>)))))"

definition load_conditions :: "json_object \<Rightarrow> route_rule res" where
  "load_conditions obj =
     bindE (get_string_array obj ''domain'' False) (\<lambda>domain.
     bindE (get_string_array obj ''domain_suffix'' False) (\<lambda>domain_suffix.
     bindE (get_string_array obj ''domain_keyword'' False) (\<lambda>keyword.
     bindE (get_string_array obj ''ip_cidr'' False) (\<lambda>cidr.
     Inr \<lparr>rr_domain = domain, rr_domain_suffix = domain_suffix, rr_domain_keyword = keyword, rr_ip_cidr = cidr,
       rr_rule_set = [], rr_action = [], rr_outbound = []\<rparr>))))"

definition load_route_rule :: "json \<Rightarrow> route_rule res" where
  "load_route_rule item =
     bindE (as_object item) (\<lambda>obj.
     bindE (load_conditions obj) (\<lambda>rule.
     bindE (get_string_array obj ''rule_set'' False) (\<lambda>sets.
     let rule = rule\<lparr>rr_rule_set := sets\<rparr> in
     if no_condition rule then Inl (RuntimeError ''rule must be not null'')
     else bindE (get_string obj ''outbound'') (\<lambda>outbound. Inr (rule\<lparr>rr_outbound := outbound\<rparr>)))))"

definition load_route :: "json_object \<Rightarrow> route_config res" where
  "load_route route =
     bindE (get_string route ''final'') (\<lambda>final.
     bindE (mapE load_rule_set_config (case array_member route ''rule_set'' of None \<Rightarrow> [] | Some xs \<Rightarrow> xs)) (\<lambda>sets.
     bindE (mapE load_route_rule (case array_member route ''rules'' of None \<Rightarrow> [] | Some xs \<Rightarrow> xs)) (\<lambda>rules.
     Inr \<lparr>rc_rules = rules, rc_final_outbound = final, rc_rule_sets = sets\<rparr>)))"

definition load_windows_proxy :: "json_object option \<Rightarrow> windows_proxy_config res" where
  "load_windows_proxy m =
     (case m of
        None \<Rightarrow> Inr \<lparr>wp_enabled = None, wp_addr = [], wp_port = None\<rparr>
      | Some obj \<Rightarrow>
          bindE (get_bool obj ''enabled'') (\<lambda>enabled.
          if enabled then
            bindE (get_string obj ''addr'') (\<lambda>addr.
            bindE (get_u16 obj ''port'') (\<lambda>port.
            Inr \<lparr>wp_enabled = Some True, wp_addr = addr, wp_port = Some port\<rparr>))
          else Inr \<lparr>wp_enabled = Some False, wp_addr = [], wp_port = None\<rparr>))"

section \<open>DNS\<close>

definition dns_types :: "string list" where
  "dns_types = [''udp'', ''tcp'', ''tls'', ''https'']"

definition load_dns_path :: "json_object \<Rightarrow> string \<Rightarrow> string res" where
  "load_dns_path obj t =
     (if t = ''https'' then
        bindE (get_string obj ''path'') (\<lambda>path.
        if \<not> starts_with path ''/'' then Inl (RuntimeError ''DNS HTTPS path must start with /'') else Inr path)
      else Inr [])"

definition load_dns_name :: "json_object \<Rightarrow> string \<Rightarrow> string res" where
  "load_dns_name obj t =
     (if t = ''tls'' \<or> t = ''https'' then
        bindE (opt_string obj ''server_name'' ''dns server_name must be a string'') (\<lambda>name.
        Inr (case name of None \<Rightarrow> [] | Some s \<Rightarrow> s))
      else Inr [])"

definition load_dns_item :: "string list \<Rightarrow> json \<Rightarrow> dns_item res" where
  "load_dns_item tags item =
     (case item of
        J_object obj \<Rightarrow>
          bindE (get_string obj ''tag'') (\<lambda>tag.
          bindE (get_string obj ''type'') (\<lambda>t.
          bindE (get_string obj ''server'') (\<lambda>server.
          bindE (get_u16 obj ''server_port'') (\<lambda>port.
          if tag \<in> set tags then Inl (RuntimeError (''duplicate DNS server tag: '' @ tag))
          else if t \<notin> set dns_types then Inl (RuntimeError (''unsupported DNS server type: '' @ t))
          else
            bindE (load_dns_path obj t) (\<lambda>path.
            bindE (load_dns_name obj t) (\<lambda>name.
            Inr \<lparr>di_tag = tag, di_type = t, di_server = server, di_server_port = port, di_path = path,
              di_server_name = name\<rparr>))))))
      | _ \<Rightarrow> Inl (RuntimeError ''dns.servers item must be an object''))"

text \<open>The loop over the servers, with the tags it has seen.\<close>

fun load_dns_items :: "string list \<Rightarrow> json list \<Rightarrow> dns_item list res" where
  "load_dns_items tags [] = Inr []"
| "load_dns_items tags (x # xs) =
     bindE (load_dns_item tags x) (\<lambda>server.
     bindE (load_dns_items (di_tag server # tags) xs) (\<lambda>servers. Inr (server # servers)))"

definition load_dns_rule :: "string list \<Rightarrow> json \<Rightarrow> dns_route_rule res" where
  "load_dns_rule tags item =
     (case item of
        J_object obj \<Rightarrow>
          bindE (get_string_array obj ''domain'' False) (\<lambda>domain.
          bindE (get_string_array obj ''domain_suffix'' False) (\<lambda>domain_suffix.
          bindE (get_string_array obj ''domain_keyword'' False) (\<lambda>keyword.
          bindE (get_string_array obj ''rule_set'' False) (\<lambda>sets.
          bindE (get_string obj ''server'') (\<lambda>server.
          if domain = [] \<and> domain_suffix = [] \<and> keyword = [] \<and> sets = [] then
            Inl (RuntimeError ''dns rule must contain a match condition'')
          else if server \<notin> set tags then
            Inl (RuntimeError (''dns rule references unknown server: '' @ server))
          else Inr \<lparr>dr_domain = domain, dr_domain_suffix = domain_suffix, dr_domain_keyword = keyword,
            dr_rule_set = sets, dr_server = server\<rparr>)))))
      | _ \<Rightarrow> Inl (RuntimeError ''dns.rules item must be an object''))"

definition load_dns_rules :: "string list \<Rightarrow> json_object \<Rightarrow> dns_route_rule list res" where
  "load_dns_rules tags dns =
     (case map_of dns ''rules'' of
        None \<Rightarrow> Inr []
      | Some (J_array xs) \<Rightarrow> mapE (load_dns_rule tags) xs
      | Some _ \<Rightarrow> Inl (RuntimeError ''dns.rules must be an array''))"

definition load_dns :: "json_object \<Rightarrow> dns_config res" where
  "load_dns dns =
     bindE (opt_string dns ''listen'' ''dns.listen must be a string'') (\<lambda>listen.
     bindE (obj_at dns ''servers'') (\<lambda>x. bindE (as_array x) (\<lambda>xs.
     if xs = [] then Inl (RuntimeError ''dns.servers must not be empty'')
     else
       bindE (load_dns_items [] xs) (\<lambda>servers.
       let tags = map di_tag servers in
       bindE (load_dns_rules tags dns) (\<lambda>rules.
       bindE (get_string dns ''final'') (\<lambda>final.
       if final \<notin> set tags then Inl (RuntimeError (''dns.final references unknown server: '' @ final))
       else Inr \<lparr>dc_listen = listen, dc_servers = servers, dc_rules = rules, dc_final = final\<rparr>))))))"

section \<open>The whole configuration\<close>

definition load_tun :: "json_object option \<Rightarrow> tun_config res" where
  "load_tun m =
     (case m of
        None \<Rightarrow> Inr \<lparr>tn_enable = False, tn_tun_ip = [], tn_tun_next_ip = []\<rparr>
      | Some obj \<Rightarrow>
          bindE (get_bool obj ''enable'') (\<lambda>enable.
          if enable then
            bindE (get_string obj ''tun_ip'') (\<lambda>ip.
            bindE (get_string obj ''tun_next_ip'') (\<lambda>next_ip.
            Inr \<lparr>tn_enable = True, tn_tun_ip = ip, tn_tun_next_ip = next_ip\<rparr>))
          else Inr \<lparr>tn_enable = False, tn_tun_ip = [], tn_tun_next_ip = []\<rparr>))"

definition load_root :: "json \<Rightarrow> app_config res" where
  "load_root json =
     bindE (as_object json) (\<lambda>root.
     bindE (mapE load_inbound (case array_member root ''inbounds'' of None \<Rightarrow> [] | Some xs \<Rightarrow> xs)) (\<lambda>inbounds.
     bindE (as_array (obj_index root ''outbounds'')) (\<lambda>xs.
     bindE (mapE load_outbound xs) (\<lambda>outbounds.
     bindE (as_object (obj_index root ''route'')) (\<lambda>r.
     bindE (load_route r) (\<lambda>route.
     bindE (load_windows_proxy (object_member root ''windows_proxy'')) (\<lambda>proxy.
     bindE (obj_at root ''dns'') (\<lambda>x. bindE (as_object x) (\<lambda>d.
     bindE (load_dns d) (\<lambda>dns.
     bindE (load_tun (object_member root ''tun'')) (\<lambda>tun.
     Inr \<lparr>ac_inbounds = inbounds, ac_outbounds = outbounds, ac_route = route, ac_windows_proxy = proxy,
       ac_dns = dns,
       ac_override_address = (case map_of root ''override_address'' of Some (J_bool b) \<Rightarrow> b | _ \<Rightarrow> False),
       ac_tun = tun\<rparr>)))))))))))"

definition load_config :: "(string \<Rightarrow> string option) \<Rightarrow> (string \<Rightarrow> json res) \<Rightarrow> string \<Rightarrow> app_config res" where
  "load_config open_file parse_json path =
     (case open_file path of
        None \<Rightarrow> Inl (RuntimeError (''failed to open config: '' @ path))
      | Some text \<Rightarrow> bindE (parse_json text) load_root)"

section \<open>Rule sets\<close>

definition load_source_rule :: "json \<Rightarrow> route_rule res" where
  "load_source_rule item =
     bindE (as_object item) (\<lambda>obj.
     bindE (load_conditions obj) (\<lambda>rule.
     if no_condition rule then Inl (RuntimeError ''rule must be not null'') else Inr rule))"

definition load_source :: "(string \<Rightarrow> string option) \<Rightarrow> (string \<Rightarrow> json res) \<Rightarrow> string \<Rightarrow> route_rule list res" where
  "load_source open_file parse_json path =
     (case open_file path of
        None \<Rightarrow> Inl (RuntimeError (''failed to open rule_set: '' @ path))
      | Some text \<Rightarrow>
          bindE (parse_json text) (\<lambda>json. bindE (as_object json) (\<lambda>root.
          mapE load_source_rule (case array_member root ''rules'' of None \<Rightarrow> [] | Some xs \<Rightarrow> xs))))"

end
