(* ===== verification/Config_Properties.thy ===== *)
theory Config_Properties
  imports Config
begin

text \<open>
  The configurations the loader produces, exactly: what it returns is well-formed, and every
  well-formed configuration is loaded back from its JSON form.
\<close>

section \<open>Well-formed configurations\<close>

definition tls_wf :: "tls_config \<Rightarrow> bool" where
  "tls_wf t \<longleftrightarrow> (if tc_enabled t then tc_insecure t \<noteq> None else tc_server_name t = [] \<and> tc_insecure t = None)"

definition outbound_wf :: "outbound_config \<Rightarrow> bool" where
  "outbound_wf x \<longleftrightarrow>
     (if oc_type x = ''vless'' then oc_server_port x \<noteq> None \<and> pred_option tls_wf (oc_tls x)
      else oc_server x = [] \<and> oc_server_port x = None \<and> oc_uuid x = [] \<and> oc_tls x = None \<and> oc_transport x = None)"

definition route_rule_wf :: "route_rule \<Rightarrow> bool" where
  "route_rule_wf rule \<longleftrightarrow> \<not> no_condition rule \<and> rr_action rule = []"

definition windows_proxy_wf :: "windows_proxy_config \<Rightarrow> bool" where
  "windows_proxy_wf w \<longleftrightarrow>
     (if wp_enabled w = Some True then wp_port w \<noteq> None else wp_addr w = [] \<and> wp_port w = None)"

definition dns_item_wf :: "dns_item \<Rightarrow> bool" where
  "dns_item_wf i \<longleftrightarrow> di_type i \<in> set dns_types \<and>
     (if di_type i = ''https'' then starts_with (di_path i) ''/'' else di_path i = []) \<and>
     (if di_type i = ''tls'' \<or> di_type i = ''https'' then CHR 0x00 \<notin> set (di_server_name i)
      else di_server_name i = [])"

definition dns_rule_wf :: "string list \<Rightarrow> dns_route_rule \<Rightarrow> bool" where
  "dns_rule_wf tags rule \<longleftrightarrow> dr_server rule \<in> set tags \<and>
     \<not> (dr_domain rule = [] \<and> dr_domain_suffix rule = [] \<and> dr_domain_keyword rule = [] \<and> dr_rule_set rule = [])"

definition dns_wf :: "dns_config \<Rightarrow> bool" where
  "dns_wf d \<longleftrightarrow> pred_option (\<lambda>s. CHR 0x00 \<notin> set s) (dc_listen d) \<and>
     dc_servers d \<noteq> [] \<and> distinct (map di_tag (dc_servers d)) \<and> list_all dns_item_wf (dc_servers d) \<and>
     list_all (dns_rule_wf (map di_tag (dc_servers d))) (dc_rules d) \<and>
     dc_final d \<in> set (map di_tag (dc_servers d))"

definition tun_wf :: "tun_config \<Rightarrow> bool" where
  "tun_wf t \<longleftrightarrow> tn_enable t \<or> tn_tun_ip t = [] \<and> tn_tun_next_ip t = []"

definition config_wf :: "app_config \<Rightarrow> bool" where
  "config_wf c \<longleftrightarrow> list_all outbound_wf (ac_outbounds c) \<and> list_all route_rule_wf (rc_rules (ac_route c)) \<and>
     windows_proxy_wf (ac_windows_proxy c) \<and> dns_wf (ac_dns c) \<and> tun_wf (ac_tun c)"

section \<open>What is loaded is well-formed\<close>

lemma bindE_InrE:
  assumes "bindE r f = Inr y"
  obtains x where "r = Inr x" "f x = Inr y"
  using assms by (auto simp: bindE_eq_Inr)

lemma mapE_list_all:
  assumes "mapE f xs = Inr ys" "\<And>x y. f x = Inr y \<Longrightarrow> p y"
  shows "list_all p ys"
  using assms(1)
proof (induction xs arbitrary: ys)
  case (Cons x xs)
  then show ?case using assms(2) by (auto elim!: bindE_InrE)
qed simp

lemma load_tls_wf: "load_tls obj = Inr t \<Longrightarrow> tls_wf t"
  by (auto simp: load_tls_def tls_wf_def elim!: bindE_InrE split: if_split_asm)

lemma opt_load_wf:
  "opt_load load m = Inr x \<Longrightarrow> (\<And>obj y. load obj = Inr y \<Longrightarrow> p y) \<Longrightarrow> pred_option p x"
  by (auto simp: opt_load_def elim!: bindE_InrE split: option.splits)

lemma load_vless_wf: "load_vless obj tag = Inr x \<Longrightarrow> outbound_wf x"
  unfolding load_vless_def by (elim bindE_InrE) (auto simp: outbound_wf_def dest: opt_load_wf [OF _ load_tls_wf])

lemma load_outbound_wf: "load_outbound item = Inr x \<Longrightarrow> outbound_wf x"
  unfolding load_outbound_def
  by (elim bindE_InrE) (auto simp: outbound_wf_def dest: load_vless_wf split: if_split_asm)

lemma load_conditions_action: "load_conditions obj = Inr rule \<Longrightarrow> rr_action rule = []"
  by (auto simp: load_conditions_def elim!: bindE_InrE)

lemma load_route_rule_wf: "load_route_rule item = Inr rule \<Longrightarrow> route_rule_wf rule"
  unfolding load_route_rule_def Let_def
  by (elim bindE_InrE; simp split: if_split_asm)
    (auto simp: route_rule_wf_def no_condition_def elim!: bindE_InrE dest: load_conditions_action)

lemma load_windows_proxy_wf: "load_windows_proxy m = Inr w \<Longrightarrow> windows_proxy_wf w"
  by (auto simp: load_windows_proxy_def windows_proxy_wf_def elim!: bindE_InrE split: option.splits if_split_asm)

lemma c_str_copy_no_nul: "CHR 0x00 \<notin> set (c_str_copy s)"
  unfolding c_str_copy_def using set_takeWhileD [of "CHR 0x00" "\<lambda>c. c \<noteq> CHR 0x00" s] by blast

lemma opt_string_no_nul: "opt_string obj key m = Inr x \<Longrightarrow> pred_option (\<lambda>s. CHR 0x00 \<notin> set s) x"
  by (auto simp: opt_string_def c_str_copy_no_nul split: option.splits json.splits)

lemma load_dns_path_wf:
  "load_dns_path obj t = Inr path \<Longrightarrow> if t = ''https'' then starts_with path ''/'' else path = []"
  by (auto simp: load_dns_path_def elim!: bindE_InrE split: if_split_asm)

lemma load_dns_name_wf:
  "load_dns_name obj t = Inr name \<Longrightarrow>
    if t = ''tls'' \<or> t = ''https'' then CHR 0x00 \<notin> set name else name = []"
  by (auto simp: load_dns_name_def elim!: bindE_InrE dest: opt_string_no_nul split: if_split_asm option.split_asm)

lemma load_dns_item_wf:
  assumes "load_dns_item tags item = Inr i"
  shows "dns_item_wf i \<and> di_tag i \<notin> set tags"
proof -
  obtain obj where "item = J_object obj" using assms by (cases item) (simp_all add: load_dns_item_def)
  with assms have "load_dns_item tags (J_object obj) = Inr i" by simp
  then obtain tag t server port path name where
    *: "tag \<notin> set tags" "t \<in> set dns_types" "load_dns_path obj t = Inr path" "load_dns_name obj t = Inr name"
    and i: "i = \<lparr>di_tag = tag, di_type = t, di_server = server, di_server_port = port, di_path = path, di_server_name = name\<rparr>"
    unfolding load_dns_item_def json.case by (elim bindE_InrE) (auto elim!: bindE_InrE split: if_split_asm)
  then show ?thesis
    using load_dns_path_wf [OF *(3)] load_dns_name_wf [OF *(4)] by (simp add: dns_item_wf_def)
qed

lemma load_dns_items_wf:
  assumes "load_dns_items tags xs = Inr servers"
  shows "list_all dns_item_wf servers \<and> distinct (map di_tag servers) \<and>
    set (map di_tag servers) \<inter> set tags = {} \<and> length servers = length xs"
  using assms
proof (induction xs arbitrary: tags servers)
  case (Cons x xs)
  from Cons.prems obtain i rest where i: "load_dns_item tags x = Inr i"
    and rest: "load_dns_items (di_tag i # tags) xs = Inr rest" and eq: "servers = i # rest"
    by (auto elim!: bindE_InrE)
  from Cons.IH [OF rest] load_dns_item_wf [OF i] show ?case by (auto simp: eq)
qed simp

lemma load_dns_rule_wf: "load_dns_rule tags item = Inr rule \<Longrightarrow> dns_rule_wf tags rule"
  by (cases item) (auto simp: load_dns_rule_def dns_rule_wf_def elim!: bindE_InrE split: if_split_asm)

lemma load_dns_rules_wf: "load_dns_rules tags dns = Inr rules \<Longrightarrow> list_all (dns_rule_wf tags) rules"
  by (auto simp: load_dns_rules_def load_dns_rule_wf elim: mapE_list_all split: option.split_asm json.split_asm)

lemma load_dns_wf:
  assumes "load_dns dns = Inr d"
  shows "dns_wf d"
proof -
  from assms obtain listen xs servers rules final where
    *: "opt_string dns ''listen'' ''dns.listen must be a string'' = Inr listen"
      "load_dns_items [] xs = Inr servers" "load_dns_rules (map di_tag servers) dns = Inr rules"
    and xs: "xs \<noteq> []" "final \<in> set (map di_tag servers)"
    and d: "d = \<lparr>dc_listen = listen, dc_servers = servers, dc_rules = rules, dc_final = final\<rparr>"
    unfolding load_dns_def Let_def by (elim bindE_InrE) (auto elim!: bindE_InrE split: if_split_asm)
  show ?thesis
    using opt_string_no_nul [OF *(1)] load_dns_items_wf [OF *(2)] load_dns_rules_wf [OF *(3)] xs
    by (auto simp: d dns_wf_def)
qed

lemma load_tun_wf: "load_tun m = Inr t \<Longrightarrow> tun_wf t"
  by (auto simp: load_tun_def tun_wf_def elim!: bindE_InrE split: option.split_asm if_split_asm)

lemma load_route_wf: "load_route r = Inr route \<Longrightarrow> list_all route_rule_wf (rc_rules route)"
  unfolding load_route_def by (elim bindE_InrE) (auto elim: mapE_list_all [OF _ load_route_rule_wf])

lemma load_root_wf: "load_root json = Inr c \<Longrightarrow> config_wf c"
  unfolding load_root_def config_wf_def
  by (elim bindE_InrE)
    (auto simp: load_windows_proxy_wf load_dns_wf load_tun_wf load_route_wf elim: mapE_list_all [OF _ load_outbound_wf])

section \<open>The JSON form of a configuration\<close>

definition json_strings :: "string list \<Rightarrow> json" where
  "json_strings ss = J_array (map J_string ss)"

definition json_port :: "u16 \<Rightarrow> json" where
  "json_port p = J_int64 (ucast p)"

definition inbound_json :: "inbound_config \<Rightarrow> json" where
  "inbound_json i = J_object
     [(''type'', J_string (ic_type i)), (''tag'', J_string (ic_tag i)), (''listen'', J_string (ic_listen i)),
      (''listen_port'', json_port (ic_listen_port i))]"

definition tls_json :: "tls_config \<Rightarrow> json_object" where
  "tls_json t = (''enabled'', J_bool (tc_enabled t)) #
     (if tc_enabled t then [(''server_name'', J_string (tc_server_name t)), (''insecure'', J_bool (the (tc_insecure t)))]
      else [])"

definition transport_json :: "transport_config \<Rightarrow> json_object" where
  "transport_json t = [(''type'', J_string (tr_type t)), (''path'', J_string (tr_path t))]"

definition opt_member :: "string \<Rightarrow> ('a \<Rightarrow> json) \<Rightarrow> 'a option \<Rightarrow> json_object" where
  "opt_member key f x = (case x of None \<Rightarrow> [] | Some y \<Rightarrow> [(key, f y)])"

definition outbound_json :: "outbound_config \<Rightarrow> json" where
  "outbound_json x = J_object
     ([(''type'', J_string (oc_type x)), (''tag'', J_string (oc_tag x))] @
      (if oc_type x = ''vless'' then
         [(''server'', J_string (oc_server x)), (''server_port'', json_port (the (oc_server_port x))),
          (''uuid'', J_string (oc_uuid x))] @
         opt_member ''tls'' (J_object \<circ> tls_json) (oc_tls x) @
         opt_member ''transport'' (J_object \<circ> transport_json) (oc_transport x)
       else []))"

definition rule_set_json :: "rule_set_config \<Rightarrow> json" where
  "rule_set_json s = J_object
     [(''type'', J_string (rs_type s)), (''tag'', J_string (rs_tag s)), (''format'', J_string (rs_format s)),
      (''path'', J_string (rs_path s))]"

definition route_rule_json :: "route_rule \<Rightarrow> json" where
  "route_rule_json rule = J_object
     [(''domain'', json_strings (rr_domain rule)), (''domain_suffix'', json_strings (rr_domain_suffix rule)),
      (''domain_keyword'', json_strings (rr_domain_keyword rule)), (''ip_cidr'', json_strings (rr_ip_cidr rule)),
      (''rule_set'', json_strings (rr_rule_set rule)), (''outbound'', J_string (rr_outbound rule))]"

definition route_json :: "route_config \<Rightarrow> json_object" where
  "route_json r =
     [(''final'', J_string (rc_final_outbound r)), (''rule_set'', J_array (map rule_set_json (rc_rule_sets r))),
      (''rules'', J_array (map route_rule_json (rc_rules r)))]"

definition windows_proxy_json :: "windows_proxy_config \<Rightarrow> bool \<Rightarrow> json_object" where
  "windows_proxy_json w enabled = (''enabled'', J_bool enabled) #
     (if enabled then [(''addr'', J_string (wp_addr w)), (''port'', json_port (the (wp_port w)))] else [])"

definition dns_item_json :: "dns_item \<Rightarrow> json" where
  "dns_item_json i = J_object
     [(''tag'', J_string (di_tag i)), (''type'', J_string (di_type i)), (''server'', J_string (di_server i)),
      (''server_port'', json_port (di_server_port i)), (''path'', J_string (di_path i)),
      (''server_name'', J_string (di_server_name i))]"

definition dns_rule_json :: "dns_route_rule \<Rightarrow> json" where
  "dns_rule_json rule = J_object
     [(''domain'', json_strings (dr_domain rule)), (''domain_suffix'', json_strings (dr_domain_suffix rule)),
      (''domain_keyword'', json_strings (dr_domain_keyword rule)), (''rule_set'', json_strings (dr_rule_set rule)),
      (''server'', J_string (dr_server rule))]"

definition dns_json :: "dns_config \<Rightarrow> json_object" where
  "dns_json d = opt_member ''listen'' J_string (dc_listen d) @
     [(''servers'', J_array (map dns_item_json (dc_servers d))), (''rules'', J_array (map dns_rule_json (dc_rules d))),
      (''final'', J_string (dc_final d))]"

definition tun_json :: "tun_config \<Rightarrow> json_object" where
  "tun_json t = [(''enable'', J_bool (tn_enable t)), (''tun_ip'', J_string (tn_tun_ip t)),
     (''tun_next_ip'', J_string (tn_tun_next_ip t))]"

definition config_json :: "app_config \<Rightarrow> json" where
  "config_json c = J_object
     ([(''inbounds'', J_array (map inbound_json (ac_inbounds c))),
       (''outbounds'', J_array (map outbound_json (ac_outbounds c))),
       (''route'', J_object (route_json (ac_route c)))] @
      opt_member ''windows_proxy'' (J_object \<circ> windows_proxy_json (ac_windows_proxy c)) (wp_enabled (ac_windows_proxy c)) @
      [(''dns'', J_object (dns_json (ac_dns c))), (''override_address'', J_bool (ac_override_address c)),
       (''tun'', J_object (tun_json (ac_tun c)))])"

section \<open>Every well-formed configuration is loaded back\<close>

lemma mapE_map_back: "list_all (\<lambda>x. f (g x) = Inr x) xs \<Longrightarrow> mapE f (map g xs) = Inr xs"
  by (induction xs) simp_all

lemma get_string_json [simp]: "map_of o' key = Some (J_string s) \<Longrightarrow> get_string_or o' key f d = Inr s"
  by (simp add: get_string_or_def)

lemma get_bool_json [simp]: "map_of o' key = Some (J_bool b) \<Longrightarrow> get_bool_or o' key f d = Inr b"
  by (simp add: get_bool_or_def)

lemma get_u16_json [simp]:
  assumes "map_of o' key = Some (json_port p)"
  shows "get_u16 o' key = Inr p"
proof -
  have p: "0 \<le> uint p" "uint p < 65536" using unsigned_less [of p, where ?'a = int] by simp_all
  then have "signed_take_bit 63 (uint p) = uint p" 
    using signed_take_bit_int_eq_self [of 63 "uint p"] order_trans [of "- (2 ^ 63)" 0 "uint p"] by simp
  then have "sint (ucast p :: 64 word) = uint p"
    using p by (simp add: sint_uint unsigned_ucast_eq take_bit_int_eq_self)
  moreover have "ucast (ucast p :: 64 word) = p" by (intro bit_word_eqI) (simp add: bit_simps)
  ultimately show ?thesis using assms p by (simp add: get_u16_def obj_at_def json_port_def)
qed

lemma get_string_array_json [simp]:
  "map_of o' key = Some (json_strings ss) \<Longrightarrow> get_string_array o' key f = Inr ss"
  by (simp add: get_string_array_def json_strings_def mapE_map_back list_all_iff)

lemma c_str_copy_id: "CHR 0x00 \<notin> set s \<Longrightarrow> c_str_copy s = s"
  unfolding c_str_copy_def by (intro takeWhile_eq_all_conv [THEN iffD2]) auto

lemma inbound_json_back: "load_inbound (inbound_json i) = Inr i"
  by (simp add: load_inbound_def inbound_json_def)

lemma tls_json_back: "tls_wf t \<Longrightarrow> load_tls (tls_json t) = Inr t"
  by (cases t) (auto simp: load_tls_def tls_json_def tls_wf_def)

lemma transport_json_back: "load_transport (transport_json t) = Inr t"
  by (simp add: load_transport_def transport_json_def)

lemma vless_json_back:
  assumes "oc_type x = ''vless''" "oc_server_port x = Some port" "pred_option tls_wf (oc_tls x)"
  shows "load_outbound (outbound_json x) = Inr x"
  using assms by (cases x; cases "oc_tls x"; cases "oc_transport x")
    (simp_all add: load_outbound_def load_vless_def outbound_json_def opt_member_def object_member_def
      opt_load_def tls_json_back transport_json_back)

lemma outbound_json_back: "outbound_wf x \<Longrightarrow> load_outbound (outbound_json x) = Inr x"
proof (cases "oc_type x = ''vless''")
  case True
  then show "outbound_wf x \<Longrightarrow> ?thesis" by (auto simp: outbound_wf_def vless_json_back)
next
  case False
  then have "load_outbound (outbound_json x) = Inr \<lparr>oc_type = oc_type x, oc_tag = oc_tag x, oc_server = [],
      oc_server_port = None, oc_uuid = [], oc_tls = None, oc_transport = None\<rparr>"
    by (simp add: load_outbound_def outbound_json_def)
  then show "outbound_wf x \<Longrightarrow> ?thesis" using False by (simp add: outbound_wf_def)
qed

lemma rule_set_json_back: "load_rule_set_config (rule_set_json s) = Inr s"
  by (simp add: load_rule_set_config_def rule_set_json_def)

lemma route_rule_json_back: "route_rule_wf rule \<Longrightarrow> load_route_rule (route_rule_json rule) = Inr rule"
  by (cases rule) (auto simp: load_route_rule_def load_conditions_def route_rule_json_def route_rule_wf_def no_condition_def)

lemma route_json_back: "list_all route_rule_wf (rc_rules r) \<Longrightarrow> load_route (route_json r) = Inr r"
  by (simp add: load_route_def route_json_def array_member_def mapE_map_back list_all_iff
      rule_set_json_back route_rule_json_back)

lemma windows_proxy_json_back:
  "windows_proxy_wf w \<Longrightarrow> wp_enabled w = Some b \<Longrightarrow> load_windows_proxy (Some (windows_proxy_json w b)) = Inr w"
  by (cases w; cases b) (auto simp: load_windows_proxy_def windows_proxy_wf_def windows_proxy_json_def)

lemma opt_string_json: "map_of o' key = Some (J_string s) \<Longrightarrow> CHR 0x00 \<notin> set s \<Longrightarrow> opt_string o' key m = Inr (Some s)"
  by (simp add: opt_string_def c_str_copy_id)

lemma dns_item_json_back:
  assumes wf: "dns_item_wf i" and tag: "di_tag i \<notin> set tags"
  shows "load_dns_item tags (dns_item_json i) = Inr i"
proof -
  obtain obj where obj: "dns_item_json i = J_object obj" by (simp add: dns_item_json_def)
  have path: "load_dns_path obj (di_type i) = Inr (di_path i)"
    using wf obj by (auto simp: load_dns_path_def dns_item_wf_def dns_item_json_def split: if_split_asm)
  have name: "load_dns_name obj (di_type i) = Inr (di_server_name i)"
    using wf obj by (auto simp: load_dns_name_def dns_item_wf_def dns_item_json_def opt_string_json split: if_split_asm)
  have "di_type i \<in> set dns_types" using wf by (simp add: dns_item_wf_def)
  then show ?thesis
    using obj path name tag by (cases i) (auto simp: load_dns_item_def dns_item_json_def)
qed

lemma dns_items_json_back:
  assumes "list_all dns_item_wf is" "distinct (map di_tag is)" "set (map di_tag is) \<inter> set tags = {}"
  shows "load_dns_items tags (map dns_item_json is) = Inr is"
  using assms
proof (induction "is" arbitrary: tags)
  case (Cons i "is")
  then have "load_dns_items (di_tag i # tags) (map dns_item_json is) = Inr is" by (intro Cons.IH) auto
  then show ?case using Cons.prems by (simp add: dns_item_json_back)
qed simp

lemma dns_rule_json_back: "dns_rule_wf tags rule \<Longrightarrow> load_dns_rule tags (dns_rule_json rule) = Inr rule"
  by (cases rule) (auto simp: load_dns_rule_def dns_rule_json_def dns_rule_wf_def)

lemma dns_json_back:
  assumes wf: "dns_wf d"
  shows "load_dns (dns_json d) = Inr d"
proof -
  have listen: "opt_string (dns_json d) ''listen'' m = Inr (dc_listen d)" for m
    using wf by (cases "dc_listen d") (simp_all add: dns_json_def opt_member_def opt_string_def c_str_copy_id dns_wf_def)
  have members: "map_of (dns_json d) ''servers'' = Some (J_array (map dns_item_json (dc_servers d)))"
    "map_of (dns_json d) ''rules'' = Some (J_array (map dns_rule_json (dc_rules d)))"
    "map_of (dns_json d) ''final'' = Some (J_string (dc_final d))"
    by (cases "dc_listen d"; simp add: dns_json_def opt_member_def)+
  have items: "load_dns_items [] (map dns_item_json (dc_servers d)) = Inr (dc_servers d)"
    using wf by (intro dns_items_json_back) (simp_all add: dns_wf_def)
  have rules: "load_dns_rules (map di_tag (dc_servers d)) (dns_json d) = Inr (dc_rules d)"
    using wf members by (simp add: load_dns_rules_def mapE_map_back dns_rule_json_back dns_wf_def list_all_iff)
  show ?thesis
    using listen members items rules wf by (cases d) (auto simp: load_dns_def obj_at_def dns_wf_def)
qed

lemma tun_json_back: "tun_wf t \<Longrightarrow> load_tun (Some (tun_json t)) = Inr t"
  by (cases t) (auto simp: load_tun_def tun_json_def tun_wf_def)

lemma config_members:
  obtains m where "config_json c = J_object m"
    "array_member m ''inbounds'' = Some (map inbound_json (ac_inbounds c))"
    "obj_index m ''outbounds'' = J_array (map outbound_json (ac_outbounds c))"
    "obj_index m ''route'' = J_object (route_json (ac_route c))"
    "object_member m ''windows_proxy'' = map_option (windows_proxy_json (ac_windows_proxy c)) (wp_enabled (ac_windows_proxy c))"
    "obj_at m ''dns'' = Inr (J_object (dns_json (ac_dns c)))"
    "map_of m ''override_address'' = Some (J_bool (ac_override_address c))"
    "object_member m ''tun'' = Some (tun_json (ac_tun c))"
  unfolding config_json_def opt_member_def
  by (cases "wp_enabled (ac_windows_proxy c)")
    (simp_all add: array_member_def object_member_def obj_index_def obj_at_def)

lemma config_json_back:
  assumes wf: "config_wf c"
  shows "load_root (config_json c) = Inr c"
proof -
  obtain m where m: "config_json c = J_object m"
    "array_member m ''inbounds'' = Some (map inbound_json (ac_inbounds c))"
    "obj_index m ''outbounds'' = J_array (map outbound_json (ac_outbounds c))"
    "obj_index m ''route'' = J_object (route_json (ac_route c))"
    "object_member m ''windows_proxy'' = map_option (windows_proxy_json (ac_windows_proxy c)) (wp_enabled (ac_windows_proxy c))"
    "obj_at m ''dns'' = Inr (J_object (dns_json (ac_dns c)))"
    "map_of m ''override_address'' = Some (J_bool (ac_override_address c))"
    "object_member m ''tun'' = Some (tun_json (ac_tun c))"
    by (rule config_members)
  have proxy: "load_windows_proxy (object_member m ''windows_proxy'') = Inr (ac_windows_proxy c)"
  proof (cases "wp_enabled (ac_windows_proxy c)")
    case None
    then show ?thesis using wf m(5)
      by (cases "ac_windows_proxy c") (simp add: load_windows_proxy_def config_wf_def windows_proxy_wf_def)
  qed (use wf m(5) in \<open>simp add: windows_proxy_json_back config_wf_def\<close>)
  have lists: "mapE load_inbound (map inbound_json (ac_inbounds c)) = Inr (ac_inbounds c)"
    "mapE load_outbound (map outbound_json (ac_outbounds c)) = Inr (ac_outbounds c)"
    using wf by (simp_all add: mapE_map_back inbound_json_back outbound_json_back config_wf_def list_all_iff)
  have parts: "load_route (route_json (ac_route c)) = Inr (ac_route c)" "load_dns (dns_json (ac_dns c)) = Inr (ac_dns c)"
    "load_tun (Some (tun_json (ac_tun c))) = Inr (ac_tun c)"
    using wf by (simp_all add: config_wf_def route_json_back dns_json_back tun_json_back)
  show ?thesis by (simp add: load_root_def m(1-4,6-8) proxy lists parts)
qed

section \<open>Properties\<close>

text \<open>
  C34: whatever file the loader accepts, the configuration it returns is well-formed: DNS tags are distinct
  and every reference to one is defined, DNS server types and paths are valid, rules have conditions, and
  the members it leaves indeterminate are exactly those of parts that are absent or disabled.
\<close>

theorem load_config_well_formed:
  assumes "load_config open_file parse_json path = Inr c"
  shows "config_wf c"
  using assms load_root_wf by (auto simp: load_config_def elim!: bindE_InrE split: option.split_asm)

definition sample_config :: app_config where
  "sample_config =
     \<lparr>ac_inbounds = [\<lparr>ic_type = ''mixed'', ic_tag = ''in'', ic_listen = ''::1'', ic_listen_port = 2080\<rparr>],
      ac_outbounds = [\<lparr>oc_type = ''direct'', oc_tag = ''direct'', oc_server = [], oc_server_port = None, oc_uuid = [],
          oc_tls = None, oc_transport = None\<rparr>,
        \<lparr>oc_type = ''vless'', oc_tag = ''proxy'', oc_server = ''a.io'', oc_server_port = Some 443, oc_uuid = ''u'',
          oc_tls = Some \<lparr>tc_enabled = True, tc_server_name = ''a.io'', tc_insecure = Some False\<rparr>, oc_transport = None\<rparr>],
      ac_route = \<lparr>rc_rules = [\<lparr>rr_domain = [''a.io''], rr_domain_suffix = [], rr_domain_keyword = [], rr_ip_cidr = [],
          rr_rule_set = [], rr_action = [], rr_outbound = ''direct''\<rparr>], rc_final_outbound = ''proxy'', rc_rule_sets = []\<rparr>,
      ac_windows_proxy = \<lparr>wp_enabled = None, wp_addr = [], wp_port = None\<rparr>,
      ac_dns = \<lparr>dc_listen = None,
        dc_servers = [\<lparr>di_tag = ''d'', di_type = ''https'', di_server = ''1.1.1.1'', di_server_port = 443,
          di_path = ''/q'', di_server_name = []\<rparr>], dc_rules = [], dc_final = ''d''\<rparr>,
      ac_override_address = True, ac_tun = \<lparr>tn_enable = False, tn_tun_ip = [], tn_tun_next_ip = []\<rparr>\<rparr>"

lemma sample_config_wf: "config_wf sample_config"
  by (simp add: sample_config_def config_wf_def outbound_wf_def tls_wf_def route_rule_wf_def no_condition_def
      windows_proxy_wf_def dns_wf_def dns_item_wf_def dns_types_def starts_with_def tun_wf_def)

lemma sample_config_loads: "load_config (\<lambda>_. Some ''text'') (\<lambda>_. Inr (config_json sample_config)) ''config.json'' = Inr sample_config"
  by (simp add: load_config_def config_json_back [OF sample_config_wf])

theorem load_config_well_formed_witness: "config_wf sample_config"
  by (rule load_config_well_formed [OF sample_config_loads])

text \<open>
  C14: the loader accepts every well-formed configuration: from its JSON form it returns the same
  configuration, all parts and the order of every list included.
\<close>

theorem load_config_round_trip:
  assumes "config_wf c" "open_file path = Some text" "parse_json text = Inr (config_json c)"
  shows "load_config open_file parse_json path = Inr c"
  using assms by (simp add: load_config_def config_json_back)

theorem load_config_round_trip_witness:
  "load_config (\<lambda>p. if p = ''c'' then Some ''t'' else None) (\<lambda>_. Inr (config_json sample_config)) ''c'' = Inr sample_config"
  by (rule load_config_round_trip [OF sample_config_wf, of _ _ "''t''"]) simp_all

text \<open>
  A port member is accepted exactly when its number is at most 65535, and it is read without
  change exactly when it is not negative: a negative number wraps around.
\<close>

theorem get_u16_bounds:
  assumes "map_of o' key = Some (J_int64 v)"
  shows "case get_u16 o' key of
      Inl e \<Rightarrow> e = RuntimeError ''need u16'' \<and> 65535 < sint v
    | Inr p \<Rightarrow> sint v \<le> 65535 \<and> uint p = sint v mod 65536 \<and> (uint p = sint v \<longleftrightarrow> 0 \<le> sint v)"
proof -
  have "uint (ucast v :: u16) = sint v mod 65536"
  proof -
    have "ucast v = (word_of_int (sint v) :: u16)" by (intro bit_word_eqI) (simp add: bit_simps)
    then have "uint (ucast v :: u16) = uint (word_of_int (sint v) :: u16)" by (rule arg_cong)
    also have "\<dots> = sint v mod 65536" by (simp only: uint_word_of_int) simp
    finally show ?thesis .
  qed
  then show ?thesis using assms by (auto simp: get_u16_def obj_at_def)
qed

theorem get_u16_bounds_witness:
  "case get_u16 [(''port'', J_int64 443)] ''port'' of Inl e \<Rightarrow> False | Inr p \<Rightarrow> uint p = 443"
  using get_u16_bounds [of "[(''port'', J_int64 443)]" "''port''" 443] by (simp split: sum.splits)

text \<open>A negative port is accepted.\<close>

lemma negative_port_wraps: "get_u16 [(''port'', J_int64 (- 1))] ''port'' = Inr 65535"
proof -
  have "(ucast (- 1 :: 64 word) :: u16) = - 1" by (intro bit_word_eqI) (simp add: bit_simps)
  then show ?thesis by (simp add: get_u16_def obj_at_def)
qed

end
