(* ===== verification/Net.thy ===== *)
theory Net
  imports Address
begin

text \<open>
  The network as the coroutines of the program use it (\<open>src/core/net.hpp\<close> names Boost.Asio's and
  Beast's types): a record of operations on the state \<open>'s\<close> of the connection a coroutine works on.
  The operations are Asio's, Beast's and OpenSSL's; they are parameters.

    \<^item> \<open>n_connect\<close> is \<open>Connector::connect\<close> on a fresh TCP or UDP socket (\<open>True\<close> for TCP);
    \<^item> \<open>n_tls_identity\<close> is the context set-up and the server name of a TLS stream, \<open>n_handshake\<close> its handshake;
    \<^item> \<open>n_write\<close> is \<open>asio::async_write\<close>, \<open>n_read k\<close> is \<open>asio::async_read\<close> into a buffer of \<open>k\<close> bytes;
    \<^item> \<open>n_send\<close> and \<open>n_receive\<close> are those of a UDP socket, \<open>n_send_to\<close> answers a client of a bound one;
    \<^item> \<open>n_http\<close> writes a Beast request and reads the response: its status code and body;
    \<^item> \<open>n_shutdown\<close> is the closing of a TLS stream, whose error is ignored.
\<close>

record http_request =
  rq_target :: string
  rq_host :: string
  rq_headers :: "(string \<times> string) list"
  rq_body :: bytes

type_synonym endpoint = "address \<times> u16"

record 's net =
  n_connect :: "bool \<Rightarrow> destination \<Rightarrow> ('s, unit) io"
  n_tls_identity :: "string \<Rightarrow> ('s, unit) io"
  n_handshake :: "('s, unit) io"
  n_write :: "bytes \<Rightarrow> ('s, unit) io"
  n_read :: "nat \<Rightarrow> ('s, bytes) io"
  n_send :: "bytes \<Rightarrow> ('s, unit) io"
  n_receive :: "nat \<Rightarrow> ('s, bytes) io"
  n_send_to :: "bytes \<Rightarrow> endpoint \<Rightarrow> ('s, unit) io"
  n_http :: "http_request \<Rightarrow> ('s, nat \<times> bytes) io"
  n_shutdown :: "'s \<Rightarrow> 's"

section \<open>A connected TCP socket\<close>

text \<open>
  The operations on the socket of a client: \<open>so_read k\<close> and \<open>so_write\<close> as above; \<open>so_read_until d\<close> is
  \<open>asio::async_read_until\<close> into an empty string up to the delimiter \<open>d\<close>: the string read so far, which
  may go on after the delimiter, and the number of characters up to and including the delimiter;
  \<open>so_peek\<close> is a receive with \<open>message_peek\<close> of one byte; \<open>so_read_some\<close> is \<open>async_read_some\<close> with an
  error code. Of the error codes the program distinguishes those that mean a closed stream
  (\<open>is_stream_closed\<close> in \<open>src/transport/stream_utils.hpp\<close>).
\<close>

datatype io_error = Eof | Connection_reset | Operation_aborted | Other_error string

record 's tcp_socket =
  so_read :: "nat \<Rightarrow> ('s, bytes) io"
  so_write :: "bytes \<Rightarrow> ('s, unit) io"
  so_read_until :: "string \<Rightarrow> ('s, string \<times> nat) io"
  so_peek :: "('s, byte) io"

text \<open>
  A socket on which the bytes \<open>pending\<close> arrive and the bytes \<open>sent\<close> have been written: reads
  deliver what was asked for, whatever the segments were, and raise when
  the stream ends before; \<open>async_read_until\<close> takes a prefix of the
  bytes that ends at or after the first delimiter.
\<close>

definition socket_laws :: "'s tcp_socket \<Rightarrow> ('s \<Rightarrow> bytes) \<Rightarrow> ('s \<Rightarrow> bytes) \<Rightarrow> bool" where
  "socket_laws S pending sent \<longleftrightarrow>
     (\<forall>k s. k \<le> length (pending s) \<longrightarrow>
        (\<exists>s'. so_read S k s = (Inr (take k (pending s)), s') \<and> pending s' = drop k (pending s) \<and> sent s' = sent s)) \<and>
     (\<forall>k s. length (pending s) < k \<longrightarrow> (\<exists>e s'. so_read S k s = (Inl e, s'))) \<and>
     (\<forall>m s. \<exists>s'. so_write S m s = (Inr (), s') \<and> pending s' = pending s \<and> sent s' = sent s @ m) \<and>
     (\<forall>d s i. index_of_str d (map chr (pending s)) = Some i \<longrightarrow>
        (\<exists>s' n. i + length d \<le> n \<and> n \<le> length (pending s) \<and>
           so_read_until S d s = (Inr (map chr (take n (pending s)), i + length d), s') \<and>
           pending s' = drop n (pending s) \<and> sent s' = sent s)) \<and>
     (\<forall>s b bs. pending s = b # bs \<longrightarrow> (\<exists>s'. so_peek S s = (Inr b, s') \<and> pending s' = pending s \<and> sent s' = sent s))"

text \<open>A socket in memory: the bytes to come and the bytes written.\<close>

definition mem_socket :: "(bytes \<times> bytes) tcp_socket" where
  "mem_socket =
     \<lparr>so_read = (\<lambda>k (p, w). if k \<le> length p then (Inr (take k p), (drop k p, w)) else (Inl (SystemError ''end of file''), ([], w))),
      so_write = (\<lambda>m (p, w). (Inr (), (p, w @ m))),
      so_read_until = (\<lambda>d (p, w). case index_of_str d (map chr p) of
          None \<Rightarrow> (Inl (SystemError ''end of file''), ([], w))
        | Some i \<Rightarrow> (Inr (map chr p, i + length d), ([], w))),
      so_peek = (\<lambda>(p, w). case p of [] \<Rightarrow> (Inl (SystemError ''end of file''), (p, w)) | b # bs \<Rightarrow> (Inr b, (p, w)))\<rparr>"

lemma read_ok:
  assumes "socket_laws S pending sent" "pending s = xs @ ys" "length xs = k"
  obtains s' where "so_read S k s = (Inr xs, s')" "pending s' = ys" "sent s' = sent s"
proof -
  have "k \<le> length (pending s)" using assms(2,3) by simp
  with assms(1) obtain s' where "so_read S k s = (Inr (take k (pending s)), s')"
    "pending s' = drop k (pending s)" "sent s' = sent s" unfolding socket_laws_def by blast
  with that show ?thesis using assms(2,3) by simp
qed

lemma read_inv:
  assumes "socket_laws S pending sent" "so_read S k s = (Inr xs, s')"
  shows "pending s = xs @ pending s' \<and> length xs = k \<and> sent s' = sent s"
proof (cases "k \<le> length (pending s)")
  case True
  then show ?thesis using assms unfolding socket_laws_def by (fastforce simp: min_def)
next
  case False
  then have "length (pending s) < k" by simp
  then obtain e s'' where "so_read S k s = (Inl e, s'')" using assms(1) unfolding socket_laws_def by blast
  then show ?thesis using assms(2) by simp
qed

lemma write_ok:
  assumes "socket_laws S pending sent"
  obtains s' where "so_write S m s = (Inr (), s')" "pending s' = pending s" "sent s' = sent s @ m"
  using assms that unfolding socket_laws_def by blast

lemma write_inv:
  assumes "socket_laws S pending sent" "so_write S m s = (r, s')"
  shows "r = Inr () \<and> pending s' = pending s \<and> sent s' = sent s @ m"
  using write_ok [OF assms(1), of m s] assms(2) by auto

lemma index_of_str_bound: "index_of_str d s = Some i \<Longrightarrow> i + length d \<le> length s"
  by (induction d s arbitrary: i rule: index_of_str.induct) (auto split: if_split_asm dest: prefix_length_le)

lemma socket_laws_mem: "socket_laws mem_socket fst snd"
proof -
  have "i + length d \<le> length p" if "index_of_str d (map chr p) = Some i" for d p i
    using index_of_str_bound [OF that] by simp
  then have "\<exists>n\<ge>i + length d. n \<le> length p \<and> map chr p = map chr (take n p) \<and> length p \<le> n"
    if "index_of_str d (map chr p) = Some i" for d p i
    using that by (intro exI [of _ "length p"]) simp
  then show ?thesis by (auto simp: socket_laws_def mem_socket_def)
qed

end
