(* ===== verification/Dns_Server.thy ===== *)
theory Dns_Server
  imports Net Dns_Message Router
begin

text \<open>
  \<open>src/dns/dns.hpp\<close> and \<open>dns.cpp\<close>: the DNS server picks a name server for a question, asks it over
  UDP, TCP, TLS or HTTPS, and resolves domains to addresses.
\<close>

section \<open>State\<close>

text \<open>
  The name servers by their tag; the pointer into the configuration is the item itself. Whether a
  connector has been set is \<open>ds_connector\<close>; connecting is an operation of the network.
\<close>

record dns_server =
  ds_config :: dns_config
  ds_connector :: bool
  ds_nameservers :: "(string \<times> dns_item) list"
  ds_router :: router

section \<open>Helpers\<close>

definition add_tcp_length :: "bytes \<Rightarrow> bytes res" where
  "add_tcp_length message =
     (if 0xffff < length message then Inl (RuntimeError ''dns message too large'')
      else Inr ([word_of_nat (length message div 256), word_of_nat (length message mod 256)] @ message))"

definition normalize_domain :: "string \<Rightarrow> string" where
  "normalize_domain domain = rev (dropWhile (\<lambda>c. c = CHR ''.'') (rev (map tolower domain)))"

section \<open>Construction\<close>

definition find_nameserver_in :: "(string \<times> dns_item) list \<Rightarrow> string \<Rightarrow> dns_item res" where
  "find_nameserver_in ns tag =
     (case map_of ns tag of
        None \<Rightarrow> Inl (RuntimeError (''unknown DNS server tag: '' @ tag))
      | Some item \<Rightarrow> Inr item)"

definition find_nameserver :: "dns_server \<Rightarrow> string \<Rightarrow> dns_item res" where
  "find_nameserver d tag = find_nameserver_in (ds_nameservers d) tag"

definition check_server :: "asio_ip \<Rightarrow> dns_item \<Rightarrow> unit res" where
  "check_server I server =
     (if di_tag server = [] then Inl (RuntimeError ''dns server tag must not be empty'')
      else if \<not> is_ip_literal I (di_server server) then
        Inl (RuntimeError (''dns server must be an IP address: '' @ di_tag server))
      else if di_server_port server = 0 then
        Inl (RuntimeError (''dns server port must not be zero: '' @ di_tag server))
      else if di_type server \<noteq> ''udp'' \<and> di_type server \<noteq> ''tcp'' \<and> di_type server \<noteq> ''tls'' \<and> di_type server \<noteq> ''https'' then
        Inl (RuntimeError (''unsupported DNS server type: '' @ di_type server))
      else if (di_type server = ''udp'' \<or> di_type server = ''tcp'') \<and> di_server_name server \<noteq> [] then
        Inl (RuntimeError (''udp/tcp DNS server must not specify server_name: '' @ di_tag server))
      else if (di_type server = ''tls'' \<or> di_type server = ''https'') \<and> di_server_name server = [] then
        Inl (RuntimeError (''tls/https DNS server requires server_name: '' @ di_tag server))
      else if di_type server = ''https'' \<and> (di_path server = [] \<or> \<not> starts_with (di_path server) ''/'') then
        Inl (RuntimeError (''https DNS server path must start with /: '' @ di_tag server))
      else Inr ())"

fun add_servers :: "asio_ip \<Rightarrow> dns_item list \<Rightarrow> (string \<times> dns_item) list \<Rightarrow> (string \<times> dns_item) list res" where
  "add_servers I [] ns = Inr ns"
| "add_servers I (server # servers) ns =
     bindE (check_server I server) (\<lambda>_.
     if map_of ns (di_tag server) \<noteq> None then
       Inl (RuntimeError (''duplicate DNS server tag: '' @ di_tag server))
     else add_servers I servers ((di_tag server, server) # ns))"

text \<open>The check of a rule, with the condition as it is written.\<close>

fun check_rules :: "(string \<times> dns_item) list \<Rightarrow> dns_route_rule list \<Rightarrow> unit res" where
  "check_rules ns [] = Inr ()"
| "check_rules ns (rule # rules) =
     (if dr_rule_set rule \<noteq> [] \<and> dr_domain rule \<noteq> [] \<and> dr_domain_suffix rule \<noteq> [] \<and> dr_domain_keyword rule \<noteq> [] then
        Inl (RuntimeError ''dns rule must not be null'')
      else bindE (find_nameserver_in ns (dr_server rule)) (\<lambda>_. check_rules ns rules))"

definition make_dns_server :: "asio_ip \<Rightarrow> dns_config \<Rightarrow> router \<Rightarrow> dns_server res" where
  "make_dns_server I config r =
     (if dc_servers config = [] then Inl (RuntimeError ''dns.servers must not be empty'')
      else
        bindE (add_servers I (dc_servers config) []) (\<lambda>ns.
        bindE (find_nameserver_in ns (dc_final config)) (\<lambda>_.
        bindE (check_rules ns (dc_rules config)) (\<lambda>_.
        Inr \<lparr>ds_config = config, ds_connector = False, ds_nameservers = ns, ds_router = r\<rparr>))))"

definition set_connector :: "dns_server \<Rightarrow> dns_server" where
  "set_connector d = d\<lparr>ds_connector := True\<rparr>"

section \<open>Picking a name server\<close>

definition dns_match_suffix :: "string \<Rightarrow> string \<Rightarrow> bool" where
  "dns_match_suffix domain item =
     (let s = normalize_domain item
      in if s = [] then False
         else if hd s = CHR ''.'' then ends_with_std domain s
         else domain = s \<or> ends_with_std domain (''.'' @ s))"

definition dns_match_keyword :: "string \<Rightarrow> string \<Rightarrow> bool" where
  "dns_match_keyword domain item =
     (let keyword = normalize_domain item in keyword \<noteq> [] \<and> find_str domain keyword 0 \<noteq> None)"

definition dns_match_rule :: "asio_ip \<Rightarrow> dns_server \<Rightarrow> string \<Rightarrow> dns_route_rule \<Rightarrow> bool res" where
  "dns_match_rule I d domain rule =
     (if list_ex (\<lambda>item. domain = normalize_domain item) (dr_domain rule) then Inr True
      else if list_ex (dns_match_suffix domain) (dr_domain_suffix rule) then Inr True
      else if list_ex (dns_match_keyword domain) (dr_domain_keyword rule) then Inr True
      else
        bindE (host_domain domain) (\<lambda>h.
        let dst = \<lparr>dst_host = h, dst_port = 0\<rparr>
        in any_res (\<lambda>tag. match_rule_set I (ds_router d) tag dst) (dr_rule_set rule)))"

fun pick_rule :: "asio_ip \<Rightarrow> dns_server \<Rightarrow> string \<Rightarrow> dns_route_rule list \<Rightarrow> dns_item res" where
  "pick_rule I d domain [] = find_nameserver d (dc_final (ds_config d))"
| "pick_rule I d domain (rule # rules) =
     bindE (dns_match_rule I d domain rule) (\<lambda>b.
     if b then find_nameserver d (dr_server rule) else pick_rule I d domain rules)"

definition pick_nameserver :: "asio_ip \<Rightarrow> dns_server \<Rightarrow> string \<Rightarrow> dns_item res" where
  "pick_nameserver I d domain = pick_rule I d (normalize_domain domain) (dc_rules (ds_config d))"

definition pick_nameserver_tag :: "asio_ip \<Rightarrow> dns_server \<Rightarrow> string \<Rightarrow> string res" where
  "pick_nameserver_tag I d domain = bindE (pick_nameserver I d domain) (\<lambda>item. Inr (di_tag item))"

interpretation nameserver: first_match "dns_match_rule I d domain" "\<lambda>rule. find_nameserver d (dr_server rule)"
    "find_nameserver d (dc_final (ds_config d))" "pick_rule I d domain" for I d domain
  by unfold_locales simp_all

section \<open>Asking it\<close>

definition server_destination :: "asio_ip \<Rightarrow> dns_item \<Rightarrow> destination res" where
  "server_destination I ns =
     bindE (host_parse I (di_server ns)) (\<lambda>h. Inr \<lparr>dst_host = h, dst_port = di_server_port ns\<rparr>)"

definition async_query_udp :: "asio_ip \<Rightarrow> 's net \<Rightarrow> dns_item \<Rightarrow> bytes \<Rightarrow> ('s, bytes) io" where
  "async_query_udp I N ns message =
     bindIO (liftE (server_destination I ns)) (\<lambda>dst.
     bindIO (n_connect N False dst) (\<lambda>_.
     bindIO (n_send N message) (\<lambda>_. n_receive N 4096)))"

text \<open>The exchange over a byte stream, the same for TCP and TLS.\<close>

definition framed_exchange :: "'s net \<Rightarrow> bytes \<Rightarrow> ('s, bytes) io" where
  "framed_exchange N message =
     bindIO (liftE (add_tcp_length message)) (\<lambda>framed.
     bindIO (n_write N framed) (\<lambda>_.
     bindIO (n_read N 2) (\<lambda>length_bytes.
     bindIO (liftE (peek16 length_bytes 0)) (\<lambda>n. n_read N (unat n)))))"

definition async_query_tcp :: "asio_ip \<Rightarrow> 's net \<Rightarrow> dns_item \<Rightarrow> bytes \<Rightarrow> ('s, bytes) io" where
  "async_query_tcp I N ns message =
     bindIO (liftE (server_destination I ns)) (\<lambda>dst.
     bindIO (n_connect N True dst) (\<lambda>_. framed_exchange N message))"

definition async_query_tls :: "asio_ip \<Rightarrow> 's net \<Rightarrow> dns_item \<Rightarrow> bytes \<Rightarrow> ('s, bytes) io" where
  "async_query_tls I N ns message =
     bindIO (n_tls_identity N (di_server_name ns)) (\<lambda>_.
     bindIO (liftE (server_destination I ns)) (\<lambda>dst.
     bindIO (n_connect N True dst) (\<lambda>_.
     bindIO (n_handshake N) (\<lambda>_. framed_exchange N message))))"

definition doh_request :: "dns_item \<Rightarrow> bytes \<Rightarrow> http_request" where
  "doh_request ns message =
     \<lparr>rq_target = di_path ns,
      rq_host = di_server_name ns @ (if di_server_port ns \<noteq> 443 then '':'' @ show_dec (unat (di_server_port ns)) else []),
      rq_headers = [(''User-Agent'', ''cppbox-cpp/0.1''), (''Content-Type'', ''application/dns-message''),
        (''Accept'', ''application/dns-message'')],
      rq_body = message\<rparr>"

definition async_query_https :: "asio_ip \<Rightarrow> 's net \<Rightarrow> dns_item \<Rightarrow> bytes \<Rightarrow> ('s, bytes) io" where
  "async_query_https I N ns message =
     bindIO (n_tls_identity N (di_server_name ns)) (\<lambda>_.
     bindIO (liftE (server_destination I ns)) (\<lambda>dst.
     bindIO (n_connect N True dst) (\<lambda>_.
     bindIO (n_handshake N) (\<lambda>_.
     bindIO (n_http N (doh_request ns message)) (\<lambda>(status, body).
     bindIO (\<lambda>s. (Inr (), n_shutdown N s)) (\<lambda>_.
     liftE (if status \<noteq> 200 then Inl (RuntimeError (''DoH server returned HTTP '' @ show_dec status))
            else Inr body)))))))"

definition query_dns :: "asio_ip \<Rightarrow> 's net \<Rightarrow> dns_item \<Rightarrow> bytes \<Rightarrow> ('s, bytes) io" where
  "query_dns I N ns message =
     (if di_type ns = ''udp'' then async_query_udp I N ns message
      else if di_type ns = ''tcp'' then async_query_tcp I N ns message
      else if di_type ns = ''tls'' then async_query_tls I N ns message
      else if di_type ns = ''https'' then async_query_https I N ns message
      else liftE (Inl (RuntimeError (''unsupported DNS type: '' @ di_type ns))))"

definition query :: "asio_ip \<Rightarrow> 's net \<Rightarrow> dns_server \<Rightarrow> bytes \<Rightarrow> ('s, bytes) io" where
  "query I N d request =
     (if \<not> ds_connector d then liftE (Inl (RuntimeError ''DNS connector is not configured''))
      else
        bindIO (liftE (parse_question request)) (\<lambda>question.
        bindIO (liftE (pick_nameserver I d (q_name question))) (\<lambda>nameserver.
        query_dns I N nameserver request)))"

section \<open>Resolving a domain\<close>

definition record_addresses :: "asio_ip \<Rightarrow> dns_record list \<Rightarrow> address list" where
  "record_addresses I records =
     List.map_filter (\<lambda>r. if rec_type r \<noteq> QT_A \<and> rec_type r \<noteq> QT_AAAA then None
       else make_address I (rec_value r)) records"

text \<open>The body of the \<open>try\<close>: ask for one type, \<open>ask\<close> being \<open>query\<close>, and parse the response.\<close>

definition ask_type :: "(bytes \<Rightarrow> ('s, bytes) io) \<Rightarrow> string \<Rightarrow> query_type \<Rightarrow> ('s, dns_record list) io" where
  "ask_type ask domain type =
     bindIO (liftE (build_query domain type)) (\<lambda>request.
     bindIO (ask request) (\<lambda>response. liftE (parse_response response)))"

fun resolve_types :: "asio_ip \<Rightarrow> (bytes \<Rightarrow> ('s, bytes) io) \<Rightarrow> string \<Rightarrow> query_type list \<Rightarrow>
    address list \<Rightarrow> exn option \<Rightarrow> 's \<Rightarrow> (address list \<times> exn option) \<times> 's" where
  "resolve_types I ask domain [] output last_error s = ((output, last_error), s)"
| "resolve_types I ask domain (type # types) output last_error s =
     (case ask_type ask domain type s of
        (Inl e, s') \<Rightarrow> resolve_types I ask domain types output (Some e) s'
      | (Inr records, s') \<Rightarrow>
          resolve_types I ask domain types (output @ record_addresses I records) last_error s')"

definition resolve :: "asio_ip \<Rightarrow> (bytes \<Rightarrow> ('s, bytes) io) \<Rightarrow> string \<Rightarrow> ('s, address list) io" where
  "resolve I ask domain = (\<lambda>s.
     case resolve_types I ask domain [QT_A, QT_AAAA] [] None s of
       ((output, last_error), s') \<Rightarrow>
         if output \<noteq> [] then (Inr output, s')
         else case last_error of
             Some e \<Rightarrow> (Inl e, s')
           | None \<Rightarrow> (Inl (RuntimeError (''DNS returned no address for '' @ domain)), s'))"

end
