(* ===== verification/Dns_Properties.thy ===== *)
theory Dns_Properties
  imports Dns_Server Router_Properties
begin

text \<open>
  What the DNS server promises: a constructed server always finds the name server of the first
  matching rule, a query over a byte stream brings back the server's answer, and resolving a domain
  gives the addresses of both answers.
\<close>

section \<open>Constructed servers\<close>

lemma add_servers_sound:
  assumes "add_servers I servers ns = Inr ns'" "\<And>tag item. map_of ns tag = Some item \<Longrightarrow> di_tag item = tag \<and> item \<in> S"
  shows "map_of ns' tag = Some item \<Longrightarrow> di_tag item = tag \<and> item \<in> S \<union> set servers"
  using assms
proof (induction servers arbitrary: ns S)
  case (Cons server servers)
  from Cons.prems(2) have rest: "add_servers I servers ((di_tag server, server) # ns) = Inr ns'"
    by (auto simp: bindE_eq_Inr split: if_split_asm)
  have "map_of ((di_tag server, server) # ns) t = Some i \<Longrightarrow> di_tag i = t \<and> i \<in> insert server S" for t i
    using Cons.prems(3) by (auto split: if_split_asm)
  from Cons.IH [OF Cons.prems(1) rest this] show ?case by auto
qed auto

lemma check_rules_sound:
  "check_rules ns rules = Inr () \<Longrightarrow> rule \<in> set rules \<Longrightarrow> \<exists>item. map_of ns (dr_server rule) = Some item"
  by (induction rules) (auto simp: bindE_eq_Inr find_nameserver_in_def split: if_split_asm option.split_asm)

lemma constructed:
  assumes "make_dns_server I config r = Inr d"
  shows "ds_config d = config" "ds_router d = r"
    and "tag = dc_final config \<or> (\<exists>rule \<in> set (dc_rules config). tag = dr_server rule) \<Longrightarrow>
      \<exists>item. find_nameserver d tag = Inr item \<and> di_tag item = tag \<and> item \<in> set (dc_servers config)"
proof -
  from assms obtain ns where ns: "add_servers I (dc_servers config) [] = Inr ns"
    and final: "\<exists>item. map_of ns (dc_final config) = Some item" and rules: "check_rules ns (dc_rules config) = Inr ()"
    and d: "d = \<lparr>ds_config = config, ds_connector = False, ds_nameservers = ns, ds_router = r\<rparr>"
    by (auto simp: make_dns_server_def bindE_eq_Inr find_nameserver_in_def split: if_split_asm option.split_asm)
  show "ds_config d = config" "ds_router d = r" by (simp_all add: d)
  assume "tag = dc_final config \<or> (\<exists>rule \<in> set (dc_rules config). tag = dr_server rule)"
  then obtain item where item: "map_of ns tag = Some item" using final check_rules_sound [OF rules] by blast
  have "di_tag item = tag \<and> item \<in> {} \<union> set (dc_servers config)"
    using add_servers_sound [OF ns _ item, of "{}"] by simp
  then show "\<exists>item. find_nameserver d tag = Inr item \<and> di_tag item = tag \<and> item \<in> set (dc_servers config)"
    using item by (simp add: d find_nameserver_def find_nameserver_in_def)
qed

section \<open>What a rule means\<close>

definition dns_rule_applies :: "router \<Rightarrow> string \<Rightarrow> dns_route_rule \<Rightarrow> bool" where
  "dns_rule_applies r domain rule \<longleftrightarrow>
     domain \<in> normalize_domain ` set (dr_domain rule) \<or>
     (\<exists>item \<in> set (dr_domain_suffix rule). suffix_applies domain (normalize_domain item)) \<or>
     (\<exists>k \<in> set (dr_domain_keyword rule). normalize_domain k \<noteq> [] \<and> sublist (normalize_domain k) domain) \<or>
     (\<exists>tag \<in> set (dr_rule_set rule). \<exists>rules. map_of (ro_rule_sets r) tag = Some rules \<and>
        (\<exists>inner \<in> set rules. domain_applies inner (DomainName domain)))"

lemma match_rule_set_domain:
  "match_rule_set I r tag \<lparr>dst_host = DomainName domain, dst_port = p\<rparr> =
    Inr (\<exists>rules. map_of (ro_rule_sets r) tag = Some rules \<and> (\<exists>inner \<in> set rules. domain_applies inner (DomainName domain)))"
proof (cases "map_of (ro_rule_sets r) tag")
  case (Some rules)
  have "match_rule_conditions I inner \<lparr>dst_host = DomainName domain, dst_port = p\<rparr> = Inr (domain_applies inner (DomainName domain))" for inner
    by (simp add: match_rule_conditions_def match_domain_applies match_ip_cidr_def host_is_ip_def)
  then show ?thesis by (simp add: Some match_rule_set_def rule_set_match_def any_res_decides)
qed (simp add: match_rule_set_def)

lemma dns_match_suffix_applies: "dns_match_suffix domain item \<longleftrightarrow> suffix_applies domain (normalize_domain item)"
  by (simp add: dns_match_suffix_def suffix_applies_def suffix_split_on ends_with_suffix Let_def)

lemma dns_match_keyword_sublist:
  "dns_match_keyword domain k \<longleftrightarrow> normalize_domain k \<noteq> [] \<and> sublist (normalize_domain k) domain"
  by (auto simp: dns_match_keyword_def Let_def find_str_def index_of_str_None)

lemma dns_match_rule_applies:
  assumes "domain \<noteq> []" "length domain \<le> 255"
  shows "dns_match_rule I d domain rule = Inr (dns_rule_applies (ds_router d) domain rule)"
proof -
  have "host_domain domain = Inr (DomainName domain)" using assms by (simp add: host_domain_def domain_name_def)
  moreover have "any_res (\<lambda>tag. match_rule_set I (ds_router d) tag \<lparr>dst_host = DomainName domain, dst_port = 0\<rparr>) (dr_rule_set rule) =
      Inr (\<exists>tag \<in> set (dr_rule_set rule). \<exists>rules. map_of (ro_rule_sets (ds_router d)) tag = Some rules \<and>
        (\<exists>inner \<in> set rules. domain_applies inner (DomainName domain)))"
    by (intro any_res_decides match_rule_set_domain)
  ultimately show ?thesis
    by (auto simp: dns_match_rule_def dns_rule_applies_def list_ex_iff dns_match_suffix_applies dns_match_keyword_sublist)
qed

lemma pick_constructed:
  assumes "make_dns_server I config r = Inr d"
    and "normalize_domain name \<noteq> []" "length (normalize_domain name) \<le> 255"
  shows "\<exists>item \<in> set (dc_servers config). pick_nameserver I d name = Inr item \<and>
    di_tag item = (case find (dns_rule_applies r (normalize_domain name)) (dc_rules config) of
        None \<Rightarrow> dc_final config | Some rule \<Rightarrow> dr_server rule)"
proof -
  let ?dom = "normalize_domain name"
  note d = constructed [OF assms(1)]
  have "pick_rule I d ?dom rules = find_nameserver d (case find (dns_rule_applies r ?dom) rules of
      None \<Rightarrow> dc_final config | Some rule \<Rightarrow> dr_server rule)" for rules
    by (induction rules) (simp_all add: d(1,2) dns_match_rule_applies [OF assms(2,3)])
  moreover have "(case find (dns_rule_applies r ?dom) (dc_rules config) of None \<Rightarrow> dc_final config | Some rule \<Rightarrow> dr_server rule)
      = dc_final config \<or> (\<exists>rule \<in> set (dc_rules config). (case find (dns_rule_applies r ?dom) (dc_rules config) of
        None \<Rightarrow> dc_final config | Some rule \<Rightarrow> dr_server rule) = dr_server rule)"
    by (auto simp: find_Some_iff split: option.split)
  note this [THEN d(3)]
  ultimately show ?thesis by (auto simp: pick_nameserver_def d(1))
qed

section \<open>Properties\<close>


definition sample_dns :: dns_config where
  "sample_dns = \<lparr>dc_listen = None,
     dc_servers =
       [\<lparr>di_tag = ''local'', di_type = ''tls'', di_server = ''1.1.1.1'', di_server_port = 853, di_path = [], di_server_name = ''one''\<rparr>,
        \<lparr>di_tag = ''far'', di_type = ''tcp'', di_server = ''9.9.9.9'', di_server_port = 53, di_path = [], di_server_name = []\<rparr>],
     dc_rules = [\<lparr>dr_domain = [], dr_domain_suffix = [''A.io.''], dr_domain_keyword = [], dr_rule_set = [], dr_server = ''local''\<rparr>],
     dc_final = ''far''\<rparr>"

lemma literal_quad: "is_ip_literal ref_ip (dotted_quad (v4_to_bytes (a :: address_v4)))"
  by (simp add: is_ip_literal_def parse_quad_dotted split: option.split)

lemma sample_literals: "is_ip_literal ref_ip ''1.1.1.1''" "is_ip_literal ref_ip ''9.9.9.9''"
proof -
  have "show_dec 1 = ''1''" "show_dec 9 = ''9''" by code_simp+
  then have "dotted_quad (v4_to_bytes 0x01010101) = ''1.1.1.1''" "dotted_quad (v4_to_bytes 0x09090909) = ''9.9.9.9''"
    by (simp_all add: dotted_quad_def v4_to_bytes_def upt_rec)
  then show "is_ip_literal ref_ip ''1.1.1.1''" "is_ip_literal ref_ip ''9.9.9.9''"
    using literal_quad [of "0x01010101"] literal_quad [of "0x09090909"] by simp_all
qed

definition sample_dns_server :: dns_server where
  "sample_dns_server = \<lparr>ds_config = sample_dns, ds_connector = False,
     ds_nameservers = [(''far'', dc_servers sample_dns ! 1), (''local'', dc_servers sample_dns ! 0)], ds_router = sample_router\<rparr>"

lemma sample_dns_server_made: "make_dns_server ref_ip sample_dns sample_router = Inr sample_dns_server"
  by (simp add: make_dns_server_def sample_dns_server_def sample_dns_def check_server_def sample_literals find_nameserver_in_def)

lemma sample_servers: "item \<in> set (dc_servers sample_dns) \<Longrightarrow> di_tag item = ''local'' \<longleftrightarrow> item = dc_servers sample_dns ! 0"
  by (auto simp: sample_dns_def)


section \<open>Queries over a byte stream\<close>

text \<open>
  A network whose connections lead to a server that speaks DNS over a byte stream (RFC 1035, 4.2.2;
  RFC 7858): \<open>pending\<close> are the bytes that have arrived and are not yet read, and a framed request is
  answered by the framed answer. Whatever the number of segments, \<open>async_read\<close> delivers the bytes
  it is asked for.
\<close>

definition frame :: "bytes \<Rightarrow> bytes" where
  "frame m = be16_bytes (word_of_nat (length m)) @ m"

definition dns_stream :: "'s net \<Rightarrow> ('s \<Rightarrow> bytes) \<Rightarrow> (bytes \<Rightarrow> bytes) \<Rightarrow> bool" where
  "dns_stream N pending serve \<longleftrightarrow>
     (\<forall>dst s. \<exists>s'. n_connect N True dst s = (Inr (), s') \<and> pending s' = []) \<and>
     (\<forall>name s. \<exists>s'. n_tls_identity N name s = (Inr (), s')) \<and>
     (\<forall>s. \<exists>s'. n_handshake N s = (Inr (), s') \<and> pending s' = pending s) \<and>
     (\<forall>m s. length m \<le> 65535 \<longrightarrow> pending s = [] \<longrightarrow>
        (\<exists>s'. n_write N (frame m) s = (Inr (), s') \<and> pending s' = frame (serve m))) \<and>
     (\<forall>k s. k \<le> length (pending s) \<longrightarrow>
        (\<exists>s'. n_read N k s = (Inr (take k (pending s)), s') \<and> pending s' = drop k (pending s)))"

lemma unat_lo8: "unat (lo8 v) = unat v mod 256"
proof -
  have "unat v = 256 * unat (hi8 v) + unat (lo8 v)" using unat_be16 [of "hi8 v" "lo8 v"] by simp
  moreover have "unat (lo8 v) < 256" by (rule byte_less)
  ultimately show ?thesis by simp
qed

lemma add_tcp_length_frame: "length m \<le> 65535 \<Longrightarrow> add_tcp_length m = Inr (frame m)"
proof -
  assume m: "length m \<le> 65535"
  then have len: "unat (word_of_nat (length m) :: u16) = length m" by (intro unat_16_length) simp
  have "hi8 (word_of_nat (length m)) = word_of_nat (length m div 256)"
    "lo8 (word_of_nat (length m)) = word_of_nat (length m mod 256)"
    using m by (simp_all add: word_unat_eq_iff unat_hi8 unat_lo8 len unat_of_nat take_bit_nat_def)
  then show ?thesis using m by (simp add: add_tcp_length_def frame_def be16_bytes_def)
qed

lemma framed_exchange_served:
  assumes "dns_stream N pending serve" "pending s = []" "length m \<le> 65535" "length (serve m) \<le> 65535"
  shows "fst (framed_exchange N m s) = Inr (serve m)"
proof -
  obtain s1 where s1: "n_write N (frame m) s = (Inr (), s1)" "pending s1 = frame (serve m)"
    using assms unfolding dns_stream_def by blast
  have reads: "\<exists>s'. n_read N k t = (Inr (take k (pending t)), s') \<and> pending s' = drop k (pending t)"
    if "k \<le> length (pending t)" for k t using assms(1) that unfolding dns_stream_def by blast
  obtain s2 where s2: "n_read N 2 s1 = (Inr (be16_bytes (word_of_nat (length (serve m)))), s2)" "pending s2 = serve m"
    using reads [of 2 s1] s1(2) by (auto simp: frame_def be16_bytes_def)
  have n: "unat (word_of_nat (length (serve m)) :: u16) = length (serve m)"
    using assms(4) by (intro unat_16_length) simp
  obtain s3 where "n_read N (length (serve m)) s2 = (Inr (serve m), s3)"
    using reads [of "length (serve m)" s2] s2(2) by auto
  then show ?thesis
    using s1(1) s2(1) n by (simp add: framed_exchange_def bindIO_def liftE_def add_tcp_length_frame assms(3)
        peek16_def be16_bytes_def)
qed

lemma add_servers_checked:
  "add_servers I servers ns = Inr ns' \<Longrightarrow> server \<in> set servers \<Longrightarrow> check_server I server = Inr ()"
  by (induction servers arbitrary: ns) (auto simp: bindE_eq_Inr split: if_split_asm)

lemma server_destination_total:
  assumes "asio_text I" "check_server I server = Inr ()"
  obtains dst where "server_destination I server = Inr dst"
proof -
  have "make_address I (di_server server) \<noteq> None"
    using assms(2) by (auto simp: check_server_def is_ip_literal_def split: if_split_asm)
  then have "make_address_v4 I (di_server server) \<noteq> None \<or> make_address_v6 I (di_server server) \<noteq> None"
    using assms(1) by (auto simp: asio_text_def)
  then have "\<exists>h. host_parse I (di_server server) = Inr h"
    by (auto simp: host_parse_eq split: option.split)
  then show ?thesis using that by (auto simp: server_destination_def)
qed

lemma pick_set_connector: "pick_nameserver I (set_connector d) name = pick_nameserver I d name"
proof -
  have "dns_match_rule I (set_connector d) domain rule = dns_match_rule I d domain rule" for domain rule
    by (simp add: dns_match_rule_def set_connector_def)
  moreover have "find_nameserver (set_connector d) tag = find_nameserver d tag" for tag
    by (simp add: find_nameserver_def set_connector_def)
  ultimately have "pick_rule I (set_connector d) domain rules = pick_rule I d domain rules" for domain rules
    by (induction rules) (simp_all add: set_connector_def cong: if_cong)
  then show ?thesis by (simp add: pick_nameserver_def set_connector_def)
qed

lemma normalize_snoc_dot: "normalize_domain (d @ [CHR ''.'']) = normalize_domain d"
  by (simp add: normalize_domain_def)

lemma normalize_one_dot:
  "normalize_domain (if d \<noteq> [] \<and> last d = CHR ''.'' then butlast d else d) = normalize_domain d"
  by (cases d rule: rev_cases) (auto simp: normalize_snoc_dot)

lemma normalize_eq_Nil: "normalize_domain d = [] \<Longrightarrow> d \<noteq> [] \<Longrightarrow> hd d = CHR ''.''"
  by (cases d) (auto simp: normalize_domain_def dropWhile_eq_Nil_conv)

lemma length_normalize: "length (normalize_domain d) \<le> length d"
  unfolding normalize_domain_def using length_dropWhile_le [of _ "rev (map tolower d)"] by simp

lemma stream_query_dns:
  assumes "dns_stream N pending serve" "server_destination I ns = Inr dst" "di_type ns = ''tcp'' \<or> di_type ns = ''tls''"
    and "length m \<le> 65535" "length (serve m) \<le> 65535"
  shows "fst (query_dns I N ns m s) = Inr (serve m)"
proof -
  have net: "\<exists>s'. n_connect N True d t = (Inr (), s') \<and> pending s' = []" "\<exists>s'. n_tls_identity N name t = (Inr (), s')"
    "\<exists>s'. n_handshake N t = (Inr (), s') \<and> pending s' = pending t" for d t name
    using assms(1) unfolding dns_stream_def by blast+
  show ?thesis
  proof (cases "di_type ns = ''tcp''")
    case True
    obtain s1 where "n_connect N True dst s = (Inr (), s1)" "pending s1 = []" using net(1) by blast
    then show ?thesis using True assms(2) framed_exchange_served [OF assms(1) _ assms(4,5)]
      by (simp add: query_dns_def async_query_tcp_def bindIO_def liftE_def)
  next
    case False
    then have tls: "di_type ns = ''tls''" using assms(3) by simp
    obtain s0 where s0: "n_tls_identity N (di_server_name ns) s = (Inr (), s0)" using net(2) by blast
    obtain s1 where s1: "n_connect N True dst s0 = (Inr (), s1)" "pending s1 = []" using net(1) by blast
    obtain s2 where "n_handshake N s1 = (Inr (), s2)" "pending s2 = []" using net(3) [of s1] s1(2) by auto
    then show ?thesis using tls assms(2) s0 s1(1) framed_exchange_served [OF assms(1) _ assms(4,5)]
      by (simp add: query_dns_def async_query_tls_def bindIO_def liftE_def)
  qed
qed

text \<open>Any request with a question that has a name is answered as well.\<close>

lemma query_served:
  assumes "make_dns_server I config r = Inr d" "asio_text I"
    and "list_all (\<lambda>i. di_type i = ''tcp'' \<or> di_type i = ''tls'') (dc_servers config)"
    and "parse_question request = Inr question" "normalize_domain (q_name question) \<noteq> []"
    and "length (normalize_domain (q_name question)) \<le> 255" "length request \<le> 65535"
    and "dns_stream N pending serve" "length (serve request) \<le> 65535"
  shows "fst (query I N (set_connector d) request s) = Inr (serve request)"
proof -
  obtain ns where ns: "ns \<in> set (dc_servers config)" "pick_nameserver I d (q_name question) = Inr ns"
    using pick_constructed [OF assms(1,5,6)] by auto
  obtain servers where "add_servers I (dc_servers config) [] = Inr servers"
    using assms(1) by (auto simp: make_dns_server_def bindE_eq_Inr split: if_split_asm)
  then obtain dst where dst: "server_destination I ns = Inr dst"
    using server_destination_total [OF assms(2) add_servers_checked] ns(1) by metis
  have "di_type ns = ''tcp'' \<or> di_type ns = ''tls''" using assms(3) ns(1) by (simp add: list_all_iff)
  from stream_query_dns [OF assms(8) dst this assms(7,9)]
  have "fst (query_dns I N ns request s) = Inr (serve request)" .
  then show ?thesis
    using ns(2) assms(4)
    by (simp add: query_def set_connector_def bindIO_def liftE_def pick_set_connector [unfolded set_connector_def])
qed


text \<open>A network in memory: the state holds the bytes that have arrived.\<close>

definition mem_net :: "(bytes \<Rightarrow> bytes) \<Rightarrow> bytes net" where
  "mem_net serve =
     \<lparr>n_connect = (\<lambda>_ _ _. (Inr (), [])), n_tls_identity = (\<lambda>_ s. (Inr (), s)), n_handshake = (\<lambda>s. (Inr (), s)),
      n_write = (\<lambda>m _. (Inr (), frame (serve (drop 2 m)))),
      n_read = (\<lambda>k s. if k \<le> length s then (Inr (take k s), drop k s) else (Inl (SystemError ''end of file''), [])),
      n_send = (\<lambda>m _. (Inr (), serve m)), n_receive = (\<lambda>k s. (Inr (take k s), [])), n_send_to = (\<lambda>_ _ s. (Inr (), s)),
      n_http = (\<lambda>r s. (Inr (200, serve (rq_body r)), s)), n_shutdown = (\<lambda>s. s)\<rparr>"

lemma dns_stream_mem: "dns_stream (mem_net serve) (\<lambda>s. s) serve"
  by (simp add: dns_stream_def mem_net_def frame_def be16_bytes_def)


section \<open>Resolving\<close>

text \<open>
  The outcome of one of the two queries: it failed, or it brought a response with these answers.
  \<open>asio_reads\<close> is what the resolver relies on: Asio reads the dotted and the uncompressed texts.
\<close>

datatype reply = Failed exn | Answers "answer list"

fun reply_res :: "reply \<Rightarrow> bytes res" where
  "reply_res (Failed e) = Inl e"
| "reply_res (Answers as) = Inr (encode_response 0 0 [] as [])"

fun reply_wf :: "reply \<Rightarrow> bool" where
  "reply_wf (Failed e) \<longleftrightarrow> True"
| "reply_wf (Answers as) \<longleftrightarrow> list_all wf_answer as \<and> length as < 65536"

fun rdata_address :: "rdata \<Rightarrow> address option" where
  "rdata_address (AddrV4 bs) = Some (V4 (v4_of_bytes bs))"
| "rdata_address (AddrV6 bs) = Some (V6 (v6_of_bytes bs))"
| "rdata_address _ = None"

fun reply_addresses :: "reply \<Rightarrow> address list" where
  "reply_addresses (Failed e) = []"
| "reply_addresses (Answers as) = List.map_filter (rdata_address \<circ> an_data) as"

definition asio_reads :: "asio_ip \<Rightarrow> bool" where
  "asio_reads I \<longleftrightarrow>
     (\<forall>bs. length bs = 4 \<longrightarrow> make_address I (dotted_quad bs) = Some (V4 (v4_of_bytes bs))) \<and>
     (\<forall>bs. length bs = 16 \<longrightarrow> make_address I (group_text bs) = Some (V6 (v6_of_bytes bs)))"

lemma record_addresses_answers:
  assumes "asio_reads I" "list_all wf_answer as"
  shows "record_addresses I (List.map_filter answer_record as) = List.map_filter (rdata_address \<circ> an_data) as"
  using assms(2)
proof (induction "as")
  case (Cons a "as")
  then have wf: "wf_rdata (an_data a)" by (simp add: wf_answer_def)
  have "record_addresses I (List.map_filter answer_record [a]) = List.map_filter (rdata_address \<circ> an_data) [a]"
    using assms(1) wf by (cases "an_data a")
      (simp_all add: asio_reads_def record_addresses_def answer_record_def map_filter_simps dotted_quad_def group_text_def groups_def comp_def)
  moreover have split: "List.map_filter f (a # as) = List.map_filter f [a] @ List.map_filter f as" for f :: "answer \<Rightarrow> 'b option"
    by (simp add: map_filter_simps split: option.split)
  have "record_addresses I (xs @ ys) = record_addresses I xs @ record_addresses I ys" for xs ys
    by (simp add: record_addresses_def List.map_filter_def)
  then have "record_addresses I (List.map_filter answer_record (a # as)) =
      record_addresses I (List.map_filter answer_record [a]) @ record_addresses I (List.map_filter answer_record as)"
    by (simp only: split)
  moreover have "list_all wf_answer as" using Cons.prems by simp
  ultimately show ?case using Cons.IH by (simp only: split)
qed (simp add: record_addresses_def map_filter_simps)

text \<open>
  C35: resolving asks for IPv4 and then for IPv6 addresses and returns the addresses of both
  responses in order. A query that fails does not hide the other one's addresses; without any
  address the last failure is raised, or an error that there is none.
\<close>

theorem resolve_addresses:
  assumes "asio_reads I" "reply_wf a4" "reply_wf a6"
    and "build_query domain QT_A = Inr r4" "build_query domain QT_AAAA = Inr r6"
    and "ask r4 s = (reply_res a4, s1)" "ask r6 s1 = (reply_res a6, s2)"
  shows "resolve I ask domain s =
    (if reply_addresses a4 @ reply_addresses a6 \<noteq> [] then Inr (reply_addresses a4 @ reply_addresses a6)
     else case (a4, a6) of
         (_, Failed e) \<Rightarrow> Inl e
       | (Failed e, _) \<Rightarrow> Inl e
       | _ \<Rightarrow> Inl (RuntimeError (''DNS returned no address for '' @ domain)), s2)"
proof -
  have parse: "parse_response (encode_response 0 0 [] as []) = Inr (List.map_filter answer_record as)"
    if "reply_wf (Answers as)" for "as" using that by (intro parse_response_encode_eq) simp_all
  have step: "ask_type ask domain t st = (case a of Failed e \<Rightarrow> Inl e | Answers as \<Rightarrow> Inr (List.map_filter answer_record as), st')"
    if "build_query domain t = Inr r" "ask r st = (reply_res a, st')" "reply_wf a" for t r a st st'
    using that parse by (cases a) (simp_all add: ask_type_def bindIO_def liftE_def)
  note steps = step [OF assms(4,6,2)] step [OF assms(5,7,3)]
  have addrs: "record_addresses I (List.map_filter answer_record as) = reply_addresses (Answers as)" if "reply_wf (Answers as)" for "as"
    using record_addresses_answers [OF assms(1)] that by simp
  show ?thesis
    using assms(2,3) steps addrs by (cases a4; cases a6) (simp_all add: resolve_def del: reply_addresses.simps(2))
qed

lemma asio_reads_ref: "asio_reads ref_ip"
proof -
  have "parse_groups t = None" if "parse_quad t \<noteq> None" for t
  proof -
    have "split_on (CHR '':'') t = [t]" using parse_quad_no_colon [OF that] by (rule split_on_notin)
    then show ?thesis by (simp add: parse_groups_def)
  qed
  then show ?thesis by (simp add: asio_reads_def parse_quad_dotted parse_groups_text)
qed

theorem resolve_addresses_witness:
  "resolve ref_ip (\<lambda>_ n. (if n = 0 then reply_res (Answers demo_answers) else Inl (RuntimeError ''timeout''), n + 1))
     ''a.org'' (0 :: nat) = (Inr [V4 0xC0000201], 2)"
proof -
  obtain r4 where r4: "build_query ''a.org'' QT_A = Inr r4" by (simp add: build_query_eq labels_of_def good_label_def)
  obtain r6 where r6: "build_query ''a.org'' QT_AAAA = Inr r6" by (simp add: build_query_eq labels_of_def good_label_def)
  have wf: "reply_wf (Answers demo_answers)"
    by (simp add: demo_answers_def wf_answer_def good_label_def encode_label_def)
  have "reply_addresses (Answers demo_answers) = [V4 0xC0000201]"
    by (simp add: demo_answers_def map_filter_simps v4_of_bytes_def be32_def)
  then show ?thesis
    using resolve_addresses [OF asio_reads_ref wf _ r4 r6, of "Failed (RuntimeError ''timeout'')"
      "\<lambda>_ n. (if n = 0 then reply_res (Answers demo_answers) else Inl (RuntimeError ''timeout''), n + 1)" "0 :: nat" 1 2]
    by simp
qed

section \<open>The root domain\<close>

text \<open>
  A question for the root has an empty normalised name, of which no \<open>DomainName\<close> can be made: unless
  a domain item is empty, the first rule raises, and the query is never forwarded.
\<close>

lemma root_query_raises:
  assumes "dc_rules (ds_config d) = rule # rules" "[] \<notin> normalize_domain ` set (dr_domain rule)"
  shows "pick_nameserver I d [] = Inl (RuntimeError ''domain must not be empty'')"
proof -
  have n: "normalize_domain [] = []" by (simp add: normalize_domain_def)
  have "\<not> list_ex (\<lambda>item. [] = normalize_domain item) (dr_domain rule)" using assms(2) by (auto simp: list_ex_iff)
  moreover have "\<not> dns_match_suffix [] item" "\<not> dns_match_keyword [] item" for item
    by (auto simp: dns_match_suffix_def Let_def ends_with_suffix dns_match_keyword_sublist)
  ultimately show ?thesis
    by (simp add: pick_nameserver_def assms(1) n dns_match_rule_def list_ex_iff host_domain_def domain_name_def)
qed

end
