(* ===== verification/Dns_Inbound.thy ===== *)
theory Dns_Inbound
  imports Dns_Server Text_IP
begin

text \<open>
  \<open>src/dns/dns_inbound.hpp\<close> and \<open>dns_inbound.cpp\<close>: the listening endpoint of the DNS server and the
  handling of one request. What is only written to the log is left out, except where computing it
  can raise. An \<open>endpoint\<close> is an address with a port.
\<close>

fun address_text :: "asio_ip \<Rightarrow> address \<Rightarrow> string" where
  "address_text I (V4 a) = v4_to_string I a"
| "address_text I (V6 a) = v6_to_string I a"

definition endpoint_text :: "asio_ip \<Rightarrow> endpoint \<Rightarrow> string" where
  "endpoint_text I e = address_text I (fst e) @ '':'' @ show_dec (unat (snd e))"

definition listen_port :: "string \<Rightarrow> u16 res" where
  "listen_port text =
     (case from_chars_uint text of
        (Parsed v, rest) \<Rightarrow>
          if rest \<noteq> [] \<or> 65535 < v then Inl (RuntimeError ''invalid DNS listen port'') else Inr (word_of_nat v)
      | _ \<Rightarrow> Inl (RuntimeError ''invalid DNS listen port''))"

text \<open>The host and the port text of \<open>dns.listen\<close>.\<close>

definition split_listen :: "string \<Rightarrow> (string \<times> string) res" where
  "split_listen listen =
     (if starts_with listen ''['' then
        (case find_char listen (CHR '']'') 0 of
           None \<Rightarrow> Inl (RuntimeError ''dns.listen must be [ipv6]:port'')
         | Some close \<Rightarrow>
             if length listen \<le> close + 1 \<or> listen ! (close + 1) \<noteq> CHR '':'' then
               Inl (RuntimeError ''dns.listen must be [ipv6]:port'')
             else Inr (take (close - 1) (drop 1 listen), drop (close + 2) listen))
      else
        (case rfind_char listen (CHR '':'') of
           None \<Rightarrow> Inl (RuntimeError ''dns.listen must be ipv4:port or [ipv6]:port'')
         | Some colon \<Rightarrow>
             if find_char listen (CHR '':'') 0 \<noteq> Some colon then
               Inl (RuntimeError ''dns.listen must be ipv4:port or [ipv6]:port'')
             else Inr (take colon listen, drop (colon + 1) listen)))"

definition parse_endpoint :: "asio_ip \<Rightarrow> string \<Rightarrow> endpoint res" where
  "parse_endpoint I listen =
     bindE (split_listen listen) (\<lambda>(host, port).
     case make_address I host of
       None \<Rightarrow> Inl (RuntimeError (''invalid DNS listen IP: '' @ host))
     | Some a \<Rightarrow> bindE (listen_port port) (\<lambda>p. Inr (a, p)))"

text \<open>The addresses of a response, for the log; it raises when the response does not parse.\<close>

fun ip_list_loop :: "dns_record list \<Rightarrow> string \<Rightarrow> bool \<Rightarrow> string \<times> bool" where
  "ip_list_loop [] out first = (out, first)"
| "ip_list_loop (r # rs) out first =
     (if rec_type r \<noteq> QT_A \<and> rec_type r \<noteq> QT_AAAA then ip_list_loop rs out first
      else ip_list_loop rs (out @ (if \<not> first then '', '' else []) @ rec_value r) False)"

definition ip_list_text :: "bytes \<Rightarrow> string res" where
  "ip_list_text response =
     bindE (parse_response response) (\<lambda>records.
     case ip_list_loop records [] True of (out, first) \<Rightarrow> Inr (if first then ''<empty>'' else out))"

text \<open>
  One request: whatever it raises is caught and logged, so the coroutine always ends normally; the
  client gets an answer only when every step before the sending has succeeded.
\<close>

definition answer_request :: "asio_ip \<Rightarrow> 's net \<Rightarrow> dns_server \<Rightarrow> bytes \<Rightarrow> endpoint \<Rightarrow> ('s, unit) io" where
  "answer_request I N d request client =
     bindIO (query I N d request) (\<lambda>response.
     bindIO (liftE (ip_list_text response)) (\<lambda>_. n_send_to N response client))"

definition handle_request :: "asio_ip \<Rightarrow> 's net \<Rightarrow> dns_server \<Rightarrow> bytes \<Rightarrow> endpoint \<Rightarrow> ('s, unit) io" where
  "handle_request I N d request client = (\<lambda>s. (Inr (), snd (answer_request I N d request client s)))"

section \<open>Lemmas\<close>

lemma listen_port_show: "listen_port (show_dec (unat p)) = Inr p"
proof -
  have "unat p < 65536" using unsigned_less [of p, where ?'a = nat] by simp
  then show ?thesis by (simp add: listen_port_def from_chars_show_dec)
qed

lemma rfind_char_last:
  "c \<notin> set ys \<Longrightarrow> rfind_char (xs @ c # ys) c = Some (length xs)"
  using index_of_append [of c "rev ys" "rev xs"] by (simp add: rfind_char_def)

text \<open>An IPv4 endpoint and a bracketed IPv6 endpoint are read back from their texts.\<close>

lemma parse_endpoint_v4:
  assumes "make_address I t = Some a" "CHR '':'' \<notin> set t" "t \<noteq> []" "hd t \<noteq> CHR ''[''"
  shows "parse_endpoint I (t @ '':'' @ show_dec (unat p)) = Inr (a, p)"
proof -
  let ?port = "show_dec (unat p)"
  have port: "CHR '':'' \<notin> set ?port" by (simp add: show_dec_no_sep is_digit_def)
  have "\<not> starts_with (t @ '':'' @ ?port) ''[''"
    using assms(3,4) by (cases t) (auto simp: starts_with_def)
  then have "split_listen (t @ '':'' @ ?port) = Inr (t, ?port)"
    using rfind_char_last [OF port, of t] index_of_append [OF assms(2), of ?port]
    by (simp add: split_listen_def find_char_def)
  then show ?thesis using assms(1) by (simp add: parse_endpoint_def listen_port_show)
qed

lemma parse_endpoint_v6:
  assumes "make_address I t = Some a" "CHR '']'' \<notin> set t"
  shows "parse_endpoint I (''['' @ t @ '']:'' @ show_dec (unat p)) = Inr (a, p)"
proof -
  let ?l = "''['' @ t @ '']:'' @ show_dec (unat p)"
  have "index_of (CHR '']'') ?l = Some (length t + 1)"
    using index_of_append [of "CHR '']''" "CHR ''['' # t" "CHR '':'' # show_dec (unat p)"] assms(2) by simp
  then have "find_char ?l (CHR '']'') 0 = Some (length t + 1)" by (simp add: find_char_def)
  moreover have "?l ! (length t + 2) = CHR '':''" by (simp add: nth_append)
  ultimately have "split_listen ?l = Inr (t, show_dec (unat p))"
    by (simp add: split_listen_def starts_with_def)
  then show ?thesis using assms(1) by (simp add: parse_endpoint_def listen_port_show)
qed

end
