(* ===== verification/Dns_Service.thy ===== *)
theory Dns_Service
  imports Dns_Inbound Dns_Properties State_Machine "HOL-Library.Multiset" "HOL-Library.Sublist"
begin

text \<open>
  \<open>DnsInbound::start\<close> and \<open>stop\<close> (\<open>src/dns/dns_inbound.cpp\<close>): the coroutine that receives, the
  coroutines that handle one request each, and the call that stops. They share the socket and the
  flag; a request is handled at any time after its arrival, in any order.
\<close>

section \<open>State and steps\<close>

text \<open>
  \<open>Waiting\<close> is the receive that the loop awaits. \<open>sv_received\<close> and \<open>sv_handled\<close> are the history: what
  arrived, and the requests whose coroutine has ended.
\<close>

datatype dns_loop = Not_started | Waiting | Ended

text \<open>The phases of the loop in their order.\<close>

fun dns_phase :: "dns_loop \<Rightarrow> nat" where
  "dns_phase Not_started = 0"
| "dns_phase Waiting = 1"
| "dns_phase Ended = 2"

instantiation dns_loop :: linorder
begin

definition less_eq_dns_loop :: "dns_loop \<Rightarrow> dns_loop \<Rightarrow> bool" where
  "less_eq_dns_loop p q \<longleftrightarrow> dns_phase p \<le> dns_phase q"

definition less_dns_loop :: "dns_loop \<Rightarrow> dns_loop \<Rightarrow> bool" where
  "less_dns_loop p q \<longleftrightarrow> dns_phase p < dns_phase q"

instance
proof
  fix p q :: dns_loop
  show "p \<le> q \<Longrightarrow> q \<le> p \<Longrightarrow> p = q" by (cases p; cases q) (simp_all add: less_eq_dns_loop_def)
qed (auto simp: less_eq_dns_loop_def less_dns_loop_def)

end

lemma phase_bounds [simp]: "Not_started \<le> p" "p \<le> Ended" "Ended \<le> p \<longleftrightarrow> p = Ended"
  by (cases p; simp add: less_eq_dns_loop_def)+

type_synonym dns_request = "bytes \<times> endpoint"

record 's dns_service =
  sv_open :: bool
  sv_stopping :: bool
  sv_loop :: dns_loop
  sv_requests :: "dns_request multiset"
  sv_received :: "dns_request list"
  sv_handled :: "dns_request list"
  sv_net :: 's

definition dns_service_init :: "'s \<Rightarrow> 's dns_service" where
  "dns_service_init n =
     \<lparr>sv_open = False, sv_stopping = False, sv_loop = Not_started, sv_requests = {#}, sv_received = [],
      sv_handled = [], sv_net = n\<rparr>"

text \<open>The test at the head of the loop.\<close>

definition dns_loop_test :: "'s dns_service \<Rightarrow> 's dns_service" where
  "dns_loop_test s = s\<lparr>sv_loop := if sv_stopping s then Ended else Waiting\<rparr>"

definition dns_opened :: "'s dns_service \<Rightarrow> 's dns_service" where
  "dns_opened s = dns_loop_test (s\<lparr>sv_open := True\<rparr>)"

definition dns_received :: "dns_request \<Rightarrow> 's dns_service \<Rightarrow> 's dns_service" where
  "dns_received x s =
     dns_loop_test (s\<lparr>sv_requests := add_mset x (sv_requests s), sv_received := sv_received s @ [x]\<rparr>)"

definition dns_handled :: "dns_request \<Rightarrow> 's \<Rightarrow> 's dns_service \<Rightarrow> 's dns_service" where
  "dns_handled x n s =
     s\<lparr>sv_requests := sv_requests s - {#x#}, sv_handled := sv_handled s @ [x], sv_net := n\<rparr>"

definition dns_stop :: "'s dns_service \<Rightarrow> 's dns_service" where
  "dns_stop s = (if sv_stopping s then s else s\<lparr>sv_stopping := True, sv_open := False\<rparr>)"

text \<open>
  An error while opening leaves \<open>start\<close>, an error of a receive is caught; both end it. A datagram that
  arrived before \<open>stop\<close> may still be delivered after it.
\<close>

inductive dns_step :: "asio_ip \<Rightarrow> 's net \<Rightarrow> dns_server \<Rightarrow> 's dns_service \<Rightarrow> 's dns_service \<Rightarrow> bool" for I N d where
  Opened: "sv_loop s = Not_started \<Longrightarrow> dns_step I N d s (dns_opened s)"
| Open_failed: "sv_loop s = Not_started \<Longrightarrow> dns_step I N d s (s\<lparr>sv_loop := Ended\<rparr>)"
| Received: "sv_loop s = Waiting \<Longrightarrow> length (fst x) \<le> 65535 \<Longrightarrow> dns_step I N d s (dns_received x s)"
| Receive_failed: "sv_loop s = Waiting \<Longrightarrow> dns_step I N d s (s\<lparr>sv_loop := Ended\<rparr>)"
| Handled: "x \<in># sv_requests s \<Longrightarrow> handle_request I N d (fst x) (snd x) (sv_net s) = (r, n) \<Longrightarrow>
    dns_step I N d s (dns_handled x n s)"
| Stopped: "dns_step I N d s (dns_stop s)"

inductive_simps dns_step_iff: "dns_step I N d s t"

lemmas dns_service_simps = dns_opened_def dns_received_def dns_handled_def dns_stop_def dns_loop_test_def

section \<open>What a request sends\<close>

text \<open>
  \<open>sent n\<close> are the datagrams sent from the socket of the inbound: only \<open>send_to\<close> adds one, unless it
  raises; \<open>reliable\<close> if it never does.
\<close>

definition keeps :: "('s \<Rightarrow> 'v) \<Rightarrow> ('s, 'a) io \<Rightarrow> bool" where
  "keeps view m \<longleftrightarrow> (\<forall>s. view (snd (m s)) = view s)"

lemma keeps_bind: "keeps view m \<Longrightarrow> (\<And>x. keeps view (f x)) \<Longrightarrow> keeps view (bindIO m f)"
  by (auto simp: keeps_def bindIO_def split: prod.split sum.split) (metis snd_conv)+

lemma keeps_lift [simp]: "keeps view (liftE r)"
  by (simp add: keeps_def liftE_def)

definition dns_socket :: "'s net \<Rightarrow> bool \<Rightarrow> ('s \<Rightarrow> dns_request list) \<Rightarrow> bool" where
  "dns_socket N reliable sent \<longleftrightarrow>
     (\<forall>b dst. keeps sent (n_connect N b dst)) \<and> (\<forall>name. keeps sent (n_tls_identity N name)) \<and>
     keeps sent (n_handshake N) \<and> (\<forall>m. keeps sent (n_write N m)) \<and> (\<forall>k. keeps sent (n_read N k)) \<and>
     (\<forall>m. keeps sent (n_send N m)) \<and> (\<forall>k. keeps sent (n_receive N k)) \<and> (\<forall>q. keeps sent (n_http N q)) \<and>
     (\<forall>s. sent (n_shutdown N s) = sent s) \<and>
     (\<forall>m c s. case n_send_to N m c s of (r, s') \<Rightarrow>
        sent s' = sent s @ (if r = Inr () then [(m, c)] else []) \<and> (reliable \<longrightarrow> r = Inr ()))"

lemma send_to_logged:
  assumes "dns_socket N reliable sent" "n_send_to N m c s = (r, s')"
  shows "sent s' = sent s @ (if r = Inr () then [(m, c)] else []) \<and> (reliable \<longrightarrow> r = Inr ())"
  using assms(1) [unfolded dns_socket_def, THEN conjunct2, THEN conjunct2, THEN conjunct2, THEN conjunct2, THEN conjunct2,
      THEN conjunct2, THEN conjunct2, THEN conjunct2, THEN conjunct2, THEN spec, THEN spec, THEN spec, of s m c] assms(2)
  by simp

lemma query_keeps:
  assumes "dns_socket N reliable sent"
  shows "keeps sent (query I N d request)"
proof -
  have net: "keeps sent (n_connect N b dst)" "keeps sent (n_tls_identity N name)" "keeps sent (n_handshake N)"
    "keeps sent (n_write N m)" "keeps sent (n_read N k)" "keeps sent (n_send N m)" "keeps sent (n_receive N k)"
    "keeps sent (n_http N q)" "keeps sent (\<lambda>s. (Inr (), n_shutdown N s))" for b dst name m k q
    using assms by (simp_all add: dns_socket_def keeps_def)
  have frame: "keeps sent (framed_exchange N m)" for m
    unfolding framed_exchange_def by (intro keeps_bind keeps_lift net)
  have "keeps sent (query_dns I N ns m)" for ns m
    unfolding query_dns_def async_query_udp_def async_query_tcp_def async_query_tls_def async_query_https_def
    by (auto intro!: keeps_bind net frame split: prod.split)
  then show ?thesis
    unfolding query_def by (auto intro!: keeps_bind)
qed

text \<open>
  A request that the server can answer: its question has a name of at most 255 characters, and what
  the name server serves fits a frame and can be read.
\<close>

definition answerable :: "(bytes \<Rightarrow> bytes) \<Rightarrow> bytes \<Rightarrow> bool" where
  "answerable serve request \<longleftrightarrow>
     (case parse_question request of
        Inl e \<Rightarrow> False
      | Inr q \<Rightarrow> normalize_domain (q_name q) \<noteq> [] \<and> length (normalize_domain (q_name q)) \<le> 255) \<and>
     length request \<le> 65535 \<and> length (serve request) \<le> 65535 \<and>
     (case parse_response (serve request) of Inl e \<Rightarrow> False | Inr records \<Rightarrow> True)"

definition answer_for :: "(bytes \<Rightarrow> bytes) \<Rightarrow> dns_request \<Rightarrow> dns_request" where
  "answer_for serve x = (serve (fst x), snd x)"

text \<open>The server that the program has made, and its surroundings.\<close>

definition dns_surroundings ::
    "asio_ip \<Rightarrow> 's net \<Rightarrow> dns_server \<Rightarrow> ('s \<Rightarrow> bytes) \<Rightarrow> (bytes \<Rightarrow> bytes) \<Rightarrow> bool \<Rightarrow> ('s \<Rightarrow> dns_request list) \<Rightarrow> bool" where
  "dns_surroundings I N d pending serve reliable sent \<longleftrightarrow>
     asio_text I \<and> dns_stream N pending serve \<and> dns_socket N reliable sent \<and>
     (\<exists>config r d0. make_dns_server I config r = Inr d0 \<and> d = set_connector d0 \<and>
        list_all (\<lambda>i. di_type i = ''tcp'' \<or> di_type i = ''tls'') (dc_servers config))"

lemma handle_request_sends:
  assumes S: "dns_surroundings I N d pending serve reliable sent" and ok: "answerable serve request"
  obtains n out where "handle_request I N d request client s = (Inr (), n)" "sent n = sent s @ out"
    "subseq out [(serve request, client)]" "reliable \<longrightarrow> out = [(serve request, client)]"
proof -
  obtain config r d0 where made: "make_dns_server I config r = Inr d0" "d = set_connector d0"
    "list_all (\<lambda>i. di_type i = ''tcp'' \<or> di_type i = ''tls'') (dc_servers config)"
    and env: "asio_text I" "dns_stream N pending serve" "dns_socket N reliable sent"
    using S unfolding dns_surroundings_def by blast
  obtain q records where q: "parse_question request = Inr q" "normalize_domain (q_name q) \<noteq> []"
    "length (normalize_domain (q_name q)) \<le> 255" and len: "length request \<le> 65535" "length (serve request) \<le> 65535"
    and records: "parse_response (serve request) = Inr records"
    using ok by (auto simp: answerable_def split: sum.splits)
  obtain s1 where s1: "query I N d request s = (Inr (serve request), s1)"
    using query_served [OF made(1) env(1) made(3) q len(1) env(2) len(2), of s] unfolding made(2)
    by (cases "query I N (set_connector d0) request s") auto
  have log: "sent s1 = sent s" using query_keeps [OF env(3), of I d request] s1 by (simp add: keeps_def) (metis snd_conv)
  obtain res n where n: "n_send_to N (serve request) client s1 = (res, n)" by fastforce
  have "sent n = sent s1 @ (if res = Inr () then [(serve request, client)] else [])" "reliable \<longrightarrow> res = Inr ()"
    using send_to_logged [OF env(3) n] by simp_all
  moreover obtain t where "ip_list_text (serve request) = Inr t"
    using records by (cases "ip_list_loop records [] True") (simp add: ip_list_text_def)
  then have "handle_request I N d request client s = (Inr (), n)"
    using s1 n by (simp add: handle_request_def answer_request_def bindIO_def liftE_def)
  ultimately show ?thesis using log by (intro that) auto
qed

section \<open>Every request is handled once and answered once\<close>

definition dns_inv :: "asio_ip \<Rightarrow> 's net \<Rightarrow> dns_server \<Rightarrow> ('s \<Rightarrow> bytes) \<Rightarrow> (bytes \<Rightarrow> bytes) \<Rightarrow> bool \<Rightarrow> ('s \<Rightarrow> dns_request list) \<Rightarrow>
    's dns_service \<Rightarrow> bool" where
  "dns_inv I N d pending serve reliable sent s \<longleftrightarrow>
     mset (sv_received s) = sv_requests s + mset (sv_handled s) \<and>
     (dns_surroundings I N d pending serve reliable sent \<longrightarrow> (\<forall>x\<in>set (sv_received s). answerable serve (fst x)) \<longrightarrow>
        subseq (sent (sv_net s)) (map (answer_for serve) (sv_handled s)) \<and>
        (reliable \<longrightarrow> sent (sv_net s) = map (answer_for serve) (sv_handled s)))"

lemma dns_inv_cong:
  assumes "sv_received t = sv_received s" "sv_requests t = sv_requests s" "sv_handled t = sv_handled s" "sv_net t = sv_net s"
  shows "dns_inv I N d pending serve reliable sent t = dns_inv I N d pending serve reliable sent s"
  by (simp add: dns_inv_def assms)

lemma dns_inv_handled:
  assumes inv: "dns_inv I N d pending serve reliable sent s" and x: "x \<in># sv_requests s"
    and run: "handle_request I N d (fst x) (snd x) (sv_net s) = (r, n)"
  shows "dns_inv I N d pending serve reliable sent (dns_handled x n s)"
proof -
  have m: "mset (sv_received s) = sv_requests s - {#x#} + mset (sv_handled s @ [x])"
    using inv x by (simp add: dns_inv_def)
  moreover have "subseq (sent n) (map (answer_for serve) (sv_handled s @ [x])) \<and>
      (reliable \<longrightarrow> sent n = map (answer_for serve) (sv_handled s @ [x]))"
    if S: "dns_surroundings I N d pending serve reliable sent" and ok: "\<forall>x\<in>set (sv_received s). answerable serve (fst x)"
  proof -
    have "x \<in># mset (sv_received s)" unfolding m by simp
    with ok have "answerable serve (fst x)" by simp
    then obtain out where "sent n = sent (sv_net s) @ out" "subseq out [answer_for serve x]" "reliable \<longrightarrow> out = [answer_for serve x]"
      using handle_request_sends [OF S, of "fst x" "snd x" "sv_net s"] run by (auto simp: answer_for_def)
    then show ?thesis using inv S ok by (simp add: dns_inv_def list_emb_append_mono)
  qed
  ultimately show ?thesis by (simp add: dns_inv_def dns_handled_def) blast
qed

lemma dns_inv_step:
  assumes inv: "dns_inv I N d pending serve reliable sent s" and step: "dns_step I N d s t"
  shows "dns_inv I N d pending serve reliable sent t"
  using step
proof cases
  case (Received x)
  then show ?thesis using inv by (auto simp: dns_inv_def dns_service_simps)
next
  case (Handled x r n)
  then show ?thesis using dns_inv_handled [OF inv Handled(2,3)] by simp
qed (use inv in \<open>simp_all add: dns_service_simps cong: dns_inv_cong\<close>)

interpretation dns_service: observed_machine "\<lambda>s. \<exists>n. s = dns_service_init n \<and> sent n = []" "dns_step I N d"
    "dns_inv I N d pending serve reliable sent" sv_handled prefix for I N d pending serve reliable sent
proof (unfold_locales, goal_cases)
  case (1 s)
  then show ?case by (auto simp: dns_inv_def dns_service_init_def)
next
  case (2 s t)
  then show ?case by (rule dns_inv_step)
next
  case (5 s t)
  then show ?case by (auto simp: dns_step_iff dns_service_simps)
qed (auto elim: prefix_order.trans)

text \<open>The loop never goes back to an earlier phase.\<close>

interpretation dns_loop: observed_machine "\<lambda>s. \<exists>n. s = dns_service_init n" "dns_step I N d" "\<lambda>_. True" sv_loop "(\<le>)" for I N d
  by (unfold_locales; auto simp: dns_step_iff dns_service_simps)

lemma ended_no_more:
  assumes "(dns_step I N d)\<^sup>*\<^sup>* s t" "sv_loop s = Ended"
  shows "sv_loop t = Ended"
  using dns_loop.view_run [OF assms(1)] assms(2) by simp

text \<open>After \<open>stop\<close> the loop takes at most the datagram that has arrived already.\<close>

lemma stopped_step:
  assumes "dns_step I N d s t" "sv_stopping s"
  shows "sv_stopping t \<and> (sv_received t = sv_received s \<or> sv_loop s \<noteq> Ended \<and> sv_loop t = Ended \<and> (\<exists>x. sv_received t = sv_received s @ [x]))"
  using assms by (auto simp: dns_step_iff dns_service_simps)

lemma stopped_takes_one:
  assumes "(dns_step I N d)\<^sup>*\<^sup>* s t" "sv_stopping s"
  shows "sv_stopping t \<and> length (sv_received t) \<le> length (sv_received s) + (if sv_loop s \<noteq> Ended \<and> sv_loop t = Ended then 1 else 0)"
  using assms
proof (induction rule: rtranclp_induct)
  case (step t u)
  then have IH: "sv_stopping t"
    "length (sv_received t) \<le> length (sv_received s) + (if sv_loop s \<noteq> Ended \<and> sv_loop t = Ended then 1 else 0)" by simp_all
  have "sv_loop t = Ended \<Longrightarrow> sv_loop u = Ended" "sv_loop s = Ended \<Longrightarrow> sv_loop t = Ended"
    using ended_no_more [of I N d t u] ended_no_more [OF step.hyps(1)] step.hyps(2) by auto
  then show ?case using IH stopped_step [OF step.hyps(2) IH(1)] by (auto split: if_splits)
qed simp


text \<open>A name server that always gives the same answer, and a client of the inbound.\<close>

definition logged_net :: "bytes \<Rightarrow> (bytes \<times> dns_request list) net" where
  "logged_net response =
     \<lparr>n_connect = (\<lambda>_ _ s. (Inr (), ([], snd s))), n_tls_identity = (\<lambda>_ s. (Inr (), s)), n_handshake = (\<lambda>s. (Inr (), s)),
      n_write = (\<lambda>m s. (Inr (), (frame response, snd s))),
      n_read = (\<lambda>k s. if k \<le> length (fst s) then (Inr (take k (fst s)), (drop k (fst s), snd s)) else (Inl (SystemError ''end of file''), s)),
      n_send = (\<lambda>m s. (Inr (), s)), n_receive = (\<lambda>k s. (Inr response, s)),
      n_send_to = (\<lambda>m c s. (Inr (), (fst s, snd s @ [(m, c)]))),
      n_http = (\<lambda>r s. (Inr (200, response), s)), n_shutdown = (\<lambda>s. s)\<rparr>"

definition sample_response :: bytes where
  "sample_response = encode_response 0 0 [] demo_answers []"

lemma logged_surroundings:
  "dns_surroundings ref_ip (logged_net response) (set_connector sample_dns_server) fst (\<lambda>_. response) True snd"
proof -
  have "dns_stream (logged_net response) fst (\<lambda>_. response)" by (simp add: dns_stream_def logged_net_def)
  moreover have "dns_socket (logged_net response) True snd" by (simp add: dns_socket_def logged_net_def keeps_def)
  moreover have "list_all (\<lambda>i. di_type i = ''tcp'' \<or> di_type i = ''tls'') (dc_servers sample_dns)" by (simp add: sample_dns_def)
  ultimately show ?thesis using sample_dns_server_made asio_text_ref unfolding dns_surroundings_def by blast
qed

lemma sample_answerable: "build_query ''www.a.io'' QT_A = Inr request \<Longrightarrow> answerable (\<lambda>_. sample_response) request"
proof -
  assume q: "build_query ''www.a.io'' QT_A = Inr request"
  have n: "normalize_domain ''www.a.io'' = ''www.a.io''" by code_simp
  have wf: "list_all wf_answer demo_answers"
    by (simp add: demo_answers_def wf_answer_def good_label_def encode_label_def)
  have "parse_response sample_response = Inr (List.map_filter answer_record demo_answers)"
    unfolding sample_response_def by (rule parse_response_encode_eq [OF _ _ wf]) (simp_all add: demo_answers_def)
  moreover have "length sample_response \<le> 65535"
    by (simp add: sample_response_def encode_response_def demo_answers_def encode_answer_def encode_label_def)
  ultimately show ?thesis
    using query_parses [OF q] length_query [OF q] by (simp add: answerable_def n)
qed


end
