(* ===== verification/Socks5.thy ===== *)
theory Socks5
  imports Net
begin

text \<open>
  \<open>src/protocol/socks5.hpp\<close> and \<open>socks5.cpp\<close>: the handshake of a SOCKS5 client (RFC 1928) on its
  socket. What has been written before an error stays written.
\<close>

definition requireIO :: "bool \<Rightarrow> string \<Rightarrow> ('s, unit) io" where
  "requireIO ok message = liftE (require ok message)"

definition read_host :: "'s tcp_socket \<Rightarrow> byte \<Rightarrow> ('s, host) io" where
  "read_host S atyp =
     (if atyp = 0x01 then
        bindIO (so_read S 4) (\<lambda>raw. retIO (IPv4Address (v4_of_bytes raw)))
      else if atyp = 0x04 then
        bindIO (so_read S 16) (\<lambda>raw. retIO (IPv6Address (v6_of_bytes raw)))
      else if atyp = 0x03 then
        bindIO (so_read S 1) (\<lambda>len.
        bindIO (liftE (peek8 len 0)) (\<lambda>n.
        bindIO (requireIO (n > 0) ''empty socks5 domain'') (\<lambda>_.
        bindIO (so_read S (unat n)) (\<lambda>raw. liftE (host_domain (map chr raw))))))
      else liftE (Inl (RuntimeError ''unsupported socks5 address type'')))"

definition socks_success_reply :: bytes where
  "socks_success_reply = [0x05, 0x00, 0x00, 0x01, 0x00, 0x00, 0x00, 0x00, 0x00, 0x00]"

definition socks_write_success_reply :: "'s tcp_socket \<Rightarrow> ('s, unit) io" where
  "socks_write_success_reply S = so_write S socks_success_reply"

definition socks_negotiate :: "'s tcp_socket \<Rightarrow> ('s, unit) io" where
  "socks_negotiate S =
     bindIO (so_read S 2) (\<lambda>greeting.
     bindIO (liftE (peek8 greeting 0)) (\<lambda>version.
     bindIO (requireIO (version = 0x05) ''invalid socks version'') (\<lambda>_.
     bindIO (liftE (peek8 greeting 1)) (\<lambda>n.
     bindIO (requireIO (n > 0) ''empty socks method list'') (\<lambda>_.
     bindIO (so_read S (unat n)) (\<lambda>methods.
     let no_auth = (0x00 \<in> set methods) in
     bindIO (so_write S [0x05, if no_auth then 0x00 else 0xff]) (\<lambda>_.
     requireIO no_auth ''socks no-auth method not supported by client'')))))))"

definition socks_read_request :: "'s tcp_socket \<Rightarrow> ('s, destination) io" where
  "socks_read_request S =
     bindIO (so_read S 4) (\<lambda>header.
     bindIO (liftE (peek8 header 0)) (\<lambda>version.
     bindIO (requireIO (version = 0x05) ''invalid socks request version'') (\<lambda>_.
     bindIO (liftE (peek8 header 1)) (\<lambda>command.
     bindIO (requireIO (command = 0x01) ''only socks CONNECT is supported'') (\<lambda>_.
     bindIO (liftE (peek8 header 2)) (\<lambda>reserved.
     bindIO (requireIO (reserved = 0x00) ''invalid socks reserved byte'') (\<lambda>_.
     bindIO (liftE (peek8 header 3)) (\<lambda>atyp.
     bindIO (read_host S atyp) (\<lambda>h.
     bindIO (so_read S 2) (\<lambda>port.
     bindIO (liftE (peek16 port 0)) (\<lambda>p. retIO \<lparr>dst_host = h, dst_port = p\<rparr>)))))))))))"

definition socks_read_session :: "'s tcp_socket \<Rightarrow> ('s, session) io" where
  "socks_read_session S =
     bindIO (socks_negotiate S) (\<lambda>_.
     bindIO (socks_read_request S) (\<lambda>dst.
     bindIO (socks_write_success_reply S) (\<lambda>_.
     retIO \<lparr>ses_destination = dst, ses_initial_payload = []\<rparr>)))"

section \<open>The messages of a client\<close>

fun socks_host :: "host \<Rightarrow> bytes" where
  "socks_host (IPv4Address a) = 1 # v4_to_bytes a"
| "socks_host (IPv6Address a) = 4 # v6_to_bytes a"
| "socks_host (DomainName d) = 3 # word_of_nat (length d) # map ord d"

definition socks_greeting :: "bytes \<Rightarrow> bytes" where
  "socks_greeting methods = 5 # word_of_nat (length methods) # methods"

definition socks_request :: "destination \<Rightarrow> bytes" where
  "socks_request dst = [5, 1, 0] @ socks_host (dst_host dst) @ be16_bytes (dst_port dst)"

text \<open>A destination a client can name: a domain has 1 to 255 characters, an address no scope.\<close>

fun socks_wf :: "host \<Rightarrow> bool" where
  "socks_wf (DomainName d) \<longleftrightarrow> d \<noteq> [] \<and> length d \<le> 255"
| "socks_wf (IPv6Address a) \<longleftrightarrow> v6_scope a = 0"
| "socks_wf _ \<longleftrightarrow> True"

lemma unat_8_length: "n < 256 \<Longrightarrow> unat (word_of_nat n :: byte) = n"
  by (simp add: unat_of_nat take_bit_nat_eq_self_iff flip: take_bit_eq_mod)

lemma byte_pos: "(word_of_nat n :: byte) > 0 \<longleftrightarrow> 0 < n" if "n < 256"
  using that unat_8_length [of n] by (simp add: word_less_nat_alt)

lemma require_ok [res_simps]: "requireIO True m s = (Inr (), s)" "requireIO False m s = (Inl (RuntimeError m), s)"
  by (simp_all add: requireIO_def liftE_def require_def)

section \<open>A correct handshake succeeds\<close>

lemma negotiate_ok:
  assumes "socket_laws S pending sent" "pending s = socks_greeting methods @ rest"
    and "0 \<in> set methods" "length methods \<le> 255"
  obtains s' where "socks_negotiate S s = (Inr (), s')" "pending s' = rest" "sent s' = sent s @ [5, 0]"
proof -
  have "pending s = [5, word_of_nat (length methods)] @ methods @ rest" using assms(2) by (simp add: socks_greeting_def)
  then obtain s1 where s1: "so_read S 2 s = (Inr [5, word_of_nat (length methods)], s1)"
    "pending s1 = methods @ rest" "sent s1 = sent s" using read_ok [OF assms(1)] by (metis length_Cons list.size(3) numeral_2_eq_2)
  obtain s2 where s2: "so_read S (length methods) s1 = (Inr methods, s2)" "pending s2 = rest" "sent s2 = sent s1"
    using read_ok [OF assms(1) s1(2)] by blast
  obtain s3 where s3: "so_write S [5, 0] s2 = (Inr (), s3)" "pending s3 = pending s2" "sent s3 = sent s2 @ [5, 0]"
    using write_ok [OF assms(1)] .
  have "length methods > 0" using assms(3) by (cases methods) auto
  then have "socks_negotiate S s = (Inr (), s3)"
    using s1(1) s2(1) s3(1) assms(3,4)
    by (simp add: socks_negotiate_def bindIO_def liftE_def peek8_def require_ok byte_pos unat_8_length)
  then show ?thesis using that s1 s2 s3 by simp
qed

lemma read_host_ok:
  assumes "socket_laws S pending sent" "socks_wf h" "pending s = tl (socks_host h) @ rest"
  obtains s' where "read_host S (hd (socks_host h)) s = (Inr h, s')" "pending s' = rest" "sent s' = sent s"
proof (cases h)
  case (IPv4Address a)
  then obtain s' where "so_read S 4 s = (Inr (v4_to_bytes a), s')" "pending s' = rest" "sent s' = sent s"
    using read_ok [OF assms(1), of s "v4_to_bytes a" rest 4] assms(3) by auto
  then show ?thesis using that by (simp add: IPv4Address read_host_def bindIO_def retIO_def)
next
  case (IPv6Address a)
  then obtain s' where "so_read S 16 s = (Inr (v6_to_bytes a), s')" "pending s' = rest" "sent s' = sent s"
    using read_ok [OF assms(1), of s "v6_to_bytes a" rest 16] assms(3) by auto
  then show ?thesis using that assms(2) by (simp add: IPv6Address read_host_def bindIO_def retIO_def)
next
  case (DomainName d)
  then have "pending s = [word_of_nat (length d)] @ map ord d @ rest" using assms(3) by simp
  then obtain s1 where s1: "so_read S 1 s = (Inr [word_of_nat (length d)], s1)" "pending s1 = map ord d @ rest" "sent s1 = sent s"
    by (rule read_ok [OF assms(1)]) auto
  obtain s2 where s2: "so_read S (length d) s1 = (Inr (map ord d), s2)" "pending s2 = rest" "sent s2 = sent s1"
    by (rule read_ok [OF assms(1) s1(2)]) auto
  have "host_domain d = Inr h" "length d < 256" "d \<noteq> []"
    using assms(2) by (auto simp: DomainName host_domain_def domain_name_def)
  then have "read_host S 3 s = (Inr h, s2)"
    using s1(1) s2(1) by (simp add: read_host_def bindIO_def liftE_def peek8_def require_ok byte_pos unat_8_length)
  then show ?thesis using that s1(3) s2(2,3) by (simp add: DomainName)
qed

lemma peek16_be16 [simp]: "peek16 (be16_bytes v) 0 = Inr v"
  by (simp add: peek16_def be16_bytes_def)

lemma request_ok:
  assumes "socket_laws S pending sent" "socks_wf (dst_host dst)" "pending s = socks_request dst @ rest"
  obtains s' where "socks_read_request S s = (Inr dst, s')" "pending s' = rest" "sent s' = sent s"
proof -
  let ?h = "dst_host dst"
  have h: "socks_host ?h = hd (socks_host ?h) # tl (socks_host ?h)" by (cases ?h) simp_all
  then have "pending s = [5, 1, 0, hd (socks_host ?h)] @ tl (socks_host ?h) @ be16_bytes (dst_port dst) @ rest"
    using assms(3) by (metis append_Cons append_Nil append_assoc socks_request_def)
  then obtain s1 where s1: "so_read S 4 s = (Inr [5, 1, 0, hd (socks_host ?h)], s1)"
    "pending s1 = tl (socks_host ?h) @ be16_bytes (dst_port dst) @ rest" "sent s1 = sent s"
    by (rule read_ok [OF assms(1), where k = 4]) auto
  obtain s2 where s2: "read_host S (hd (socks_host ?h)) s1 = (Inr ?h, s2)"
    "pending s2 = be16_bytes (dst_port dst) @ rest" "sent s2 = sent s1"
    by (rule read_host_ok [OF assms(1,2) s1(2)])
  obtain s3 where s3: "so_read S 2 s2 = (Inr (be16_bytes (dst_port dst)), s3)" "pending s3 = rest" "sent s3 = sent s2"
    by (rule read_ok [OF assms(1) s2(2)]) auto
  have "socks_read_request S s = (Inr dst, s3)"
    using s1(1) s2(1) s3(1) by (simp add: socks_read_request_def bindIO_def liftE_def retIO_def peek8_def require_ok)
  then show ?thesis using that s1(3) s2(3) s3(2,3) by simp
qed

section \<open>A handshake that succeeds is correct\<close>

lemma require_inv: "requireIO ok m s = (Inr x, s') \<Longrightarrow> ok \<and> s' = s"
  by (cases ok) (simp_all add: require_ok)

lemma v6_scope_of_bytes: "v6_scope (v6_of_bytes bs) = 0"
  by (simp add: v6_of_bytes_def)

lemma liftE_inv: "liftE r s = (Inr x, s') \<Longrightarrow> r = Inr x \<and> s' = s"
  by (simp add: liftE_def)

lemma peek8_inv: "peek8 bs k = Inr b \<Longrightarrow> k < length bs \<and> b = bs ! k"
  by (simp add: peek8_def split: if_split_asm)

lemma negotiate_inv:
  assumes "socket_laws S pending sent" "socks_negotiate S s = (Inr (), s')"
  obtains methods where "pending s = socks_greeting methods @ pending s'" "0 \<in> set methods"
    "length methods \<le> 255" "sent s' = sent s @ [5, 0]"
proof -
  from assms(2) obtain greeting methods s1 s2 s3 where
    r: "so_read S 2 s = (Inr greeting, s1)" "so_read S (unat (greeting ! 1)) s1 = (Inr methods, s2)"
    and g: "greeting ! 0 = 5" and w: "so_write S [5, if 0 \<in> set methods then 0 else 0xff] s2 = (Inr (), s3)"
    and a: "0 \<in> set methods" "s' = s3"
    unfolding socks_negotiate_def Let_def
    by (elim bindIO_InrE) (auto dest!: require_inv liftE_inv peek8_inv)
  note i1 = read_inv [OF assms(1) r(1)] and i2 = read_inv [OF assms(1) r(2)] and i3 = write_inv [OF assms(1) w]
  have "greeting = [5, greeting ! 1]" using i1 g by (cases greeting; cases "tl greeting") auto
  moreover have "word_of_nat (length methods) = greeting ! 1" using i2 by simp
  ultimately have "pending s = socks_greeting methods @ pending s'"
    using i1 i2 i3 a by (metis append_Cons append_Nil append_assoc socks_greeting_def)
  moreover have "length methods \<le> 255" using i2 byte_less [of "greeting ! 1"] by simp
  ultimately show ?thesis using that i1 i2 i3 a by simp
qed

lemma read_host_inv:
  assumes "socket_laws S pending sent" "read_host S atyp s = (Inr h, s')"
  shows "socks_wf h \<and> atyp # pending s = socks_host h @ pending s' \<and> sent s' = sent s"
proof -
  consider (v4) "atyp = 1" | (v6) "atyp = 4" | (dom) "atyp = 3"
    using assms(2) by (auto simp: read_host_def liftE_def split: if_split_asm)
  then show ?thesis
  proof cases
    case v4
    then obtain raw where r: "so_read S 4 s = (Inr raw, s')" and h: "h = IPv4Address (v4_of_bytes raw)"
      using assms(2) by (auto simp: read_host_def retIO_def elim!: bindIO_InrE)
    show ?thesis using read_inv [OF assms(1) r] v4 h by simp
  next
    case v6
    then obtain raw where r: "so_read S 16 s = (Inr raw, s')" and h: "h = IPv6Address (v6_of_bytes raw)"
      using assms(2) by (auto simp: read_host_def retIO_def elim!: bindIO_InrE)
    show ?thesis using read_inv [OF assms(1) r] v6 h by (simp add: v6_scope_of_bytes)
  next
    case dom
    then obtain len raw s1 where r: "so_read S 1 s = (Inr len, s1)" "so_read S (unat (len ! 0)) s1 = (Inr raw, s')"
      and n: "len ! 0 > 0" and h: "host_domain (map chr raw) = Inr h"
      using assms(2) by (auto simp: read_host_def elim!: bindIO_InrE dest!: require_inv liftE_inv peek8_inv)
    note i1 = read_inv [OF assms(1) r(1)] and i2 = read_inv [OF assms(1) r(2)]
    have "len = [len ! 0]" using i1 by (cases len) auto
    moreover have "word_of_nat (length raw) = len ! 0" using i2 by simp
    moreover have "h = DomainName (map chr raw)" "raw \<noteq> []" "length raw \<le> 255"
      using h by (auto simp: host_domain_def domain_name_def split: if_split_asm)
    ultimately show ?thesis using i1 i2 dom by (auto simp: word_unat_eq_iff)
  qed
qed

lemma request_inv:
  assumes "socket_laws S pending sent" "socks_read_request S s = (Inr dst, s')"
  shows "socks_wf (dst_host dst) \<and> pending s = socks_request dst @ pending s' \<and> sent s' = sent s"
proof -
  from assms(2) obtain header h port s1 s2 where
    r: "so_read S 4 s = (Inr header, s1)" "read_host S (header ! 3) s1 = (Inr h, s2)" "so_read S 2 s2 = (Inr port, s')"
    and hd: "header ! 0 = 5" "header ! 1 = 1" "header ! 2 = 0"
    and p: "dst = \<lparr>dst_host = h, dst_port = be16 (port ! 0) (port ! 1)\<rparr>"
    unfolding socks_read_request_def
    by (elim bindIO_InrE) (auto simp: retIO_def peek16_def dest!: require_inv liftE_inv peek8_inv split: if_split_asm)
  note i1 = read_inv [OF assms(1) r(1)] and i2 = read_host_inv [OF assms(1) r(2)] and i3 = read_inv [OF assms(1) r(3)]
  have "header = [5, 1, 0, header ! 3]" using i1 hd by (auto simp: length_Suc_conv eval_nat_numeral)
  moreover have "port = be16_bytes (dst_port dst)" using i3 p by (auto simp: length_Suc_conv eval_nat_numeral be16_bytes_def)
  ultimately show ?thesis
    using i1 i2 i3 p by (metis append_Cons append_Nil append_assoc destination.select_convs(1) socks_request_def)
qed

section \<open>Properties\<close>

lemma socks_session_ok:
  assumes "socket_laws S pending sent" "socks_wf (dst_host dst)" "0 \<in> set methods" "length methods \<le> 255"
    and "pending s = socks_greeting methods @ socks_request dst @ rest"
  obtains s' where "socks_read_session S s = (Inr \<lparr>ses_destination = dst, ses_initial_payload = []\<rparr>, s')"
    "pending s' = rest" "sent s' = sent s @ [5, 0] @ socks_success_reply"
proof -
  obtain s1 where s1: "socks_negotiate S s = (Inr (), s1)" "pending s1 = socks_request dst @ rest" "sent s1 = sent s @ [5, 0]"
    by (rule negotiate_ok [OF assms(1,5,3,4)])
  obtain s2 where s2: "socks_read_request S s1 = (Inr dst, s2)" "pending s2 = rest" "sent s2 = sent s1"
    using request_ok [OF assms(1) _ s1(2)] assms(2) by blast
  obtain s3 where s3: "so_write S socks_success_reply s2 = (Inr (), s3)" "pending s3 = pending s2"
    "sent s3 = sent s2 @ socks_success_reply" by (rule write_ok [OF assms(1)])
  have "socks_read_session S s = (Inr \<lparr>ses_destination = dst, ses_initial_payload = []\<rparr>, s3)"
    using s1(1) s2(1) s3(1) by (simp add: socks_read_session_def socks_write_success_reply_def bindIO_def retIO_def)
  then show ?thesis using that s1(3) s2(2,3) s3(2,3) by auto
qed

text \<open>
  C16: the SOCKS5 server accepts exactly the handshakes of RFC 1928 without authentication: it
  returns a session for a destination when the client's bytes are a greeting that offers no
  authentication and a CONNECT request for that destination, it consumes just these bytes, and it
  has then sent the two replies.
\<close>

theorem socks_handshake:
  assumes "socket_laws S pending sent"
  shows "(\<exists>s'. socks_read_session S s = (Inr \<lparr>ses_destination = dst, ses_initial_payload = []\<rparr>, s') \<and>
      pending s' = rest \<and> sent s' = sent s @ [5, 0] @ socks_success_reply) \<longleftrightarrow>
    socks_wf (dst_host dst) \<and> (\<exists>methods. 0 \<in> set methods \<and> length methods \<le> 255 \<and>
      pending s = socks_greeting methods @ socks_request dst @ rest)"
  (is "?run \<longleftrightarrow> ?client")
proof
  assume ?run
  then obtain s' s1 s2 where n: "socks_negotiate S s = (Inr (), s1)" and q: "socks_read_request S s1 = (Inr dst, s2)"
    and w: "so_write S socks_success_reply s2 = (Inr (), s')" and rest: "pending s' = rest"
    unfolding socks_read_session_def socks_write_success_reply_def by (auto simp: retIO_def elim!: bindIO_InrE)
  obtain methods where "pending s = socks_greeting methods @ pending s1" "0 \<in> set methods" "length methods \<le> 255"
    by (rule negotiate_inv [OF assms n])
  then show ?client
    using request_inv [OF assms q] write_inv [OF assms w] rest by auto
next
  assume ?client
  then obtain methods where "0 \<in> set methods" "length methods \<le> 255" "socks_wf (dst_host dst)"
    "pending s = socks_greeting methods @ socks_request dst @ rest" by blast
  then show ?run using socks_session_ok [OF assms, of dst methods s rest] by metis
qed

theorem socks_handshake_witness:
  "\<exists>s'. socks_read_session mem_socket ([5, 2, 2, 0] @ [5, 1, 0, 3, 4, 97, 46, 105, 111, 1, 187] @ [22, 3], []) =
     (Inr \<lparr>ses_destination = \<lparr>dst_host = DomainName ''a.io'', dst_port = 443\<rparr>, ses_initial_payload = []\<rparr>, s') \<and>
   fst s' = [22, 3] \<and> snd s' = [5, 0] @ socks_success_reply"
proof -
  let ?dst = "\<lparr>dst_host = DomainName ''a.io'', dst_port = 443\<rparr>"
  have "be16_bytes 443 = [1, 187]" by code_simp
  then have "socks_request ?dst = [5, 1, 0, 3, 4, 97, 46, 105, 111, 1, 187]"
    by (simp add: socks_request_def ord_def)
  moreover have "socks_greeting [2, 0] = [5, 2, 2, 0]" by (simp add: socks_greeting_def)
  ultimately have "socks_wf (dst_host ?dst) \<and> (\<exists>methods. 0 \<in> set methods \<and> length methods \<le> 255 \<and>
      fst ([5, 2, 2, 0] @ [5, 1, 0, 3, 4, 97, 46, 105, 111, 1, 187] @ [22, 3], [] :: bytes)
        = socks_greeting methods @ socks_request ?dst @ [22, 3])"
    by (intro conjI exI [of _ "[2, 0]"]) simp_all
  then show ?thesis
    using socks_handshake [OF socket_laws_mem, of "([5, 2, 2, 0] @ [5, 1, 0, 3, 4, 97, 46, 105, 111, 1, 187] @ [22, 3], [])" ?dst "[22, 3]"]
    by (metis append_Nil snd_conv)
qed

end
