(* ===== verification/Http_Proxy.thy ===== *)
theory Http_Proxy
  imports Net Text_IP
begin

text \<open>
  \<open>src/protocol/http_proxy.hpp\<close> and \<open>http_proxy.cpp\<close>: a proxy request of an HTTP client. A \<open>CONNECT\<close>
  request names its destination, any other request must have a target in absolute form and is
  rewritten into origin form; its header and the bytes after it are the initial payload.
\<close>

abbreviation crlf :: string where
  "crlf \<equiv> [CHR 0x0D, CHR 0x0A]"

section \<open>Authorities\<close>

definition http_port :: "string \<Rightarrow> u16 res" where
  "http_port text =
     bindE (require (text \<noteq> []) ''missing port'') (\<lambda>_.
     case from_chars_uint text of
       (Parsed v, rest) \<Rightarrow>
         bindE (require (rest = [] \<and> 0 < v \<and> v \<le> 65535) ''invalid port'') (\<lambda>_. Inr (word_of_nat v))
     | _ \<Rightarrow> Inl (RuntimeError ''invalid port''))"

definition parse_authority :: "asio_ip \<Rightarrow> string \<Rightarrow> u16 \<Rightarrow> bool \<Rightarrow> destination res" where
  "parse_authority I authority default_port explicit =
     bindE (require (authority \<noteq> []) ''empty authority'') (\<lambda>_.
     if hd authority = CHR ''['' then
       (case find_char authority (CHR '']'') 0 of
          None \<Rightarrow> Inl (RuntimeError ''invalid IPv6 authority'')
        | Some close \<Rightarrow>
            let text = take (close - 1) (drop 1 authority); tail = drop (close + 1) authority in
            bindE (if tail = [] then
                bindE (require (\<not> explicit) ''missing IPv6 port'') (\<lambda>_. Inr default_port)
              else
                bindE (require (hd tail = CHR '':'') ''invalid IPv6 authority'') (\<lambda>_. http_port (drop 1 tail))) (\<lambda>port.
            bindE (host_ipv6 I text) (\<lambda>h. Inr \<lparr>dst_host = h, dst_port = port\<rparr>)))
     else
       bindE (case rfind_char authority (CHR '':'') of
           None \<Rightarrow> bindE (require (\<not> explicit) ''missing port'') (\<lambda>_. Inr (authority, default_port))
         | Some colon \<Rightarrow>
             let text = take colon authority in
             bindE (http_port (drop (colon + 1) authority)) (\<lambda>port.
             bindE (require (find_char text (CHR '':'') 0 = None) ''IPv6 address must use brackets'') (\<lambda>_.
             Inr (text, port)))) (\<lambda>(text, port).
       bindE (require (text \<noteq> []) ''empty host'') (\<lambda>_.
       bindE (host_parse I text) (\<lambda>h. Inr \<lparr>dst_host = h, dst_port = port\<rparr>))))"

definition parse_connect_target :: "asio_ip \<Rightarrow> string \<Rightarrow> destination res" where
  "parse_connect_target I target = parse_authority I target 0 True"

definition http_prefix :: string where
  "http_prefix = ''http://''"

definition parse_http_absolute_target :: "asio_ip \<Rightarrow> string \<Rightarrow> destination res" where
  "parse_http_absolute_target I target =
     bindE (require (starts_with target http_prefix) ''only absolute-form HTTP requests are supported'') (\<lambda>_.
     let rest = drop (length http_prefix) target
     in parse_authority I (case find_char rest (CHR ''/'') 0 of None \<Rightarrow> rest | Some slash \<Rightarrow> take slash rest) 80 False)"

section \<open>The rewritten request\<close>

definition hop_header :: "string \<Rightarrow> bool" where
  "hop_header line \<longleftrightarrow>
     (let lower = map tolower line
      in starts_with lower ''proxy-connection:'' \<or> starts_with lower ''proxy-authorization:'')"

lemma find_str_ge: "find_str s t p = Some i \<Longrightarrow> p \<le> i"
  by (auto simp: find_str_def split: if_split_asm)

text \<open>The loop over the header lines from \<open>pos\<close>; \<open>out\<close> is the request rewritten so far.\<close>

function copy_headers :: "string \<Rightarrow> nat \<Rightarrow> nat \<Rightarrow> string \<Rightarrow> string" where
  "copy_headers header header_size pos out =
     (if pos < header_size then
        (case find_str header crlf pos of
           None \<Rightarrow> out
         | Some next_end \<Rightarrow>
             if next_end = pos then out
             else
               let line = take (next_end - pos) (drop pos header)
               in copy_headers header header_size (next_end + 2)
                    (if hop_header line then out else out @ line @ crlf))
      else out)"
  by pat_completeness auto
termination
  by (relation "measure (\<lambda>(header, header_size, pos, out). header_size - pos)") (auto dest!: find_str_ge)

declare copy_headers.simps [simp del]

text \<open>
  Without a line end, \<open>find\<close> returns \<open>npos\<close> and \<open>npos + 2\<close> wraps around to 1; \<open>read_session\<close> calls
  this only with a header that has one.
\<close>

definition build_initial_payload :: "string \<Rightarrow> nat \<Rightarrow> string \<Rightarrow> string \<Rightarrow> string \<Rightarrow> bytes" where
  "build_initial_payload header header_size method target version =
     (let rest = drop (length http_prefix) target;
          path = (case find_char rest (CHR ''/'') 0 of None \<Rightarrow> ''/'' | Some slash \<Rightarrow> drop slash rest);
          path = (if path = [] then ''/'' else path);
          rewritten = method @ '' '' @ path @ '' '' @ version @ crlf;
          pos = (case find_str header crlf 0 of None \<Rightarrow> 1 | Some e \<Rightarrow> e + 2);
          rewritten = copy_headers header header_size pos rewritten @ crlf;
          rewritten = rewritten @ (if header_size < length header then drop header_size header else [])
      in map ord rewritten)"

section \<open>Reading a session\<close>

text \<open>\<open>stream >> word\<close>: the next word and the rest of the text.\<close>

definition next_word :: "string \<Rightarrow> string \<times> string" where
  "next_word s = (let t = dropWhile isspace s in (takeWhile (\<lambda>c. \<not> isspace c) t, dropWhile (\<lambda>c. \<not> isspace c) t))"

definition http_success_reply :: bytes where
  "http_success_reply =
     map ord (''HTTP/1.1 200 Connection Established'' @ crlf @ ''Proxy-Agent: cppbox-cpp/0.1'' @ crlf @ crlf)"

definition http_write_success_reply :: "'s tcp_socket \<Rightarrow> ('s, unit) io" where
  "http_write_success_reply S = so_write S http_success_reply"

definition http_read_session :: "asio_ip \<Rightarrow> 's tcp_socket \<Rightarrow> ('s, session) io" where
  "http_read_session I S =
     bindIO (so_read_until S (crlf @ crlf)) (\<lambda>(header, header_size).
     bindIO (liftE (case find_str header crlf 0 of
         None \<Rightarrow> Inl (RuntimeError ''invalid HTTP proxy request'')
       | Some line_end \<Rightarrow> Inr (take line_end header))) (\<lambda>request_line.
     case next_word request_line of (method, r1) \<Rightarrow>
     case next_word r1 of (target, r2) \<Rightarrow>
     case next_word r2 of (version, _) \<Rightarrow>
     bindIO (liftE (require (method \<noteq> []) ''empty HTTP method'')) (\<lambda>_.
     bindIO (liftE (require (target \<noteq> []) ''empty HTTP target'')) (\<lambda>_.
     bindIO (liftE (require (starts_with version ''HTTP/'') ''invalid HTTP version'')) (\<lambda>_.
     if method = ''CONNECT'' then
       bindIO (liftE (parse_connect_target I target)) (\<lambda>dst.
       bindIO (http_write_success_reply S) (\<lambda>_.
       retIO \<lparr>ses_destination = dst, ses_initial_payload = []\<rparr>))
     else
       bindIO (liftE (parse_http_absolute_target I target)) (\<lambda>dst.
       retIO \<lparr>ses_destination = dst,
         ses_initial_payload = build_initial_payload header header_size method target version\<rparr>))))))"

end
