(* ===== verification/Http_Properties.thy ===== *)
theory Http_Properties
  imports Http_Proxy
begin

text \<open>
  What the HTTP proxy protocol promises: authorities are read back, and a request is rewritten
  without losing a byte.
\<close>

section \<open>Finding line ends\<close>

lemma index_of_str_skip:
  "(\<And>k. k < length xs \<Longrightarrow> \<not> prefix t (drop k (xs @ ys))) \<Longrightarrow>
     index_of_str t (xs @ ys) = map_option ((+) (length xs)) (index_of_str t ys)"
proof (induction xs)
  case (Cons x xs)
  have "\<not> prefix t (x # xs @ ys)" using Cons.prems [of 0] by simp
  moreover have "index_of_str t (xs @ ys) = map_option ((+) (length xs)) (index_of_str t ys)"
    using Cons.prems [of "Suc _"] by (intro Cons.IH) auto
  ultimately show ?case by (simp add: option.map_comp comp_def)
qed (cases "index_of_str t ys"; simp)

lemma prefix_drop_nth:
  assumes "prefix (xs @ [c]) (drop k s)" "k < length s"
  shows "s ! (k + length xs) = c"
proof -
  obtain zs where "drop k s = xs @ c # zs" using assms(1) by (auto simp: prefix_def)
  then have "drop k s ! length xs = c" by simp
  then show ?thesis using assms(2) by (simp add: nth_drop)
qed

lemma no_crlf_in_line:
  assumes "CHR 0x0A \<notin> set l" "k < length l" "ys \<noteq> [] \<longrightarrow> hd ys \<noteq> CHR 0x0A"
  shows "\<not> prefix crlf (drop k (l @ ys))"
proof
  assume p: "prefix crlf (drop k (l @ ys))"
  then have "(l @ ys) ! (k + 1) = CHR 0x0A"
    using prefix_drop_nth [of "[CHR 0x0D]" "CHR 0x0A" k "l @ ys"] assms(2) by simp
  moreover have "k + 1 < length (l @ ys)" using p prefix_length_le assms(2) by fastforce
  ultimately show False
    using assms by (cases "k + 1 < length l") (auto simp: nth_append hd_conv_nth dest: nth_mem)
qed

definition line_ok :: "string \<Rightarrow> bool" where
  "line_ok l \<longleftrightarrow> l \<noteq> [] \<and> CHR 0x0A \<notin> set l"

lemma find_line_end:
  assumes "CHR 0x0A \<notin> set l"
  shows "index_of_str crlf (l @ crlf @ ys) = Some (length l)"
proof -
  have "\<not> prefix crlf (drop k (l @ crlf @ ys))" if "k < length l" for k
    using assms that by (intro no_crlf_in_line) simp_all
  then show ?thesis using index_of_str_skip [of l crlf "crlf @ ys"] by simp
qed

definition header_lines :: "string list \<Rightarrow> string" where
  "header_lines lines = concat (map (\<lambda>l. l @ crlf) lines)"

lemma header_lines_simps [simp]:
  "header_lines [] = []" "header_lines (l # ls) = l @ crlf @ header_lines ls"
  by (simp_all add: header_lines_def)

lemma not_header_end:
  assumes "CHR 0x0A \<notin> set l" "line_ok l'" "k < length (l @ crlf)"
  shows "\<not> prefix (crlf @ crlf) (drop k ((l @ crlf) @ l' @ crlf @ ys))"
proof
  let ?s = "(l @ crlf) @ l' @ crlf @ ys"
  assume "prefix (crlf @ crlf) (drop k ?s)"
  then have p: "prefix ([CHR 0x0D, CHR 0x0A, CHR 0x0D] @ [CHR 0x0A]) (drop k ?s)" by simp
  have "prefix ([CHR 0x0D] @ [CHR 0x0A]) (drop k ?s)" "prefix ([] @ [CHR 0x0D]) (drop k ?s)"
    using p by (auto simp: prefix_def)
  then have at: "?s ! k = CHR 0x0D" "?s ! (k + 1) = CHR 0x0A" "?s ! (k + 3) = CHR 0x0A"
    using prefix_drop_nth [OF p] prefix_drop_nth [of "[CHR 0x0D]" _ k ?s] prefix_drop_nth [of "[]" _ k ?s] assms(3)
    by (simp_all add: numeral_3_eq_3)
  consider "k + 1 < length l" | "k + 1 = length l" | "k = length l" | "k = length l + 1" using assms(3) by force
  then show False
  proof cases
    case 1
    then show False using at(2) assms(1) by (auto simp: nth_append dest: nth_mem)
  next
    case 2
    then show False using at(2) by (simp add: nth_append)
  next
    case 3
    then have "(l' @ crlf @ ys) ! 1 = CHR 0x0A" using at(3) by (simp add: nth_append numeral_3_eq_3)
    then show False using assms(2) by (cases l'; cases "tl l'") (auto simp: line_ok_def)
  next
    case 4
    then show False using at(1) by (simp add: nth_append)
  qed
qed

lemma find_header_end:
  assumes "CHR 0x0A \<notin> set l" "list_all line_ok lines"
  shows "index_of_str (crlf @ crlf) (l @ crlf @ header_lines lines @ crlf @ ys) =
    Some (length (l @ crlf @ header_lines lines) - 2)"
  using assms
proof (induction lines arbitrary: l)
  case Nil
  have "\<not> prefix (crlf @ crlf) (drop k (l @ crlf @ crlf @ ys))" if "k < length l" for k
    using no_crlf_in_line [of l k "crlf @ crlf @ ys"] that Nil.prems(1) by (auto simp: prefix_def)
  then show ?case using index_of_str_skip [of l "crlf @ crlf" "crlf @ crlf @ ys"] by simp
next
  case (Cons l' lines)
  let ?rest = "l' @ crlf @ header_lines lines @ crlf @ ys"
  have "index_of_str (crlf @ crlf) ((l @ crlf) @ ?rest) = map_option ((+) (length (l @ crlf))) (index_of_str (crlf @ crlf) ?rest)"
    using not_header_end [of l l' _ "header_lines lines @ crlf @ ys"] Cons.prems by (intro index_of_str_skip) auto
  moreover have "index_of_str (crlf @ crlf) ?rest = Some (length (l' @ crlf @ header_lines lines) - 2)"
    using Cons.IH [of l'] Cons.prems by (auto simp: line_ok_def)
  ultimately show ?case by simp
qed

section \<open>The rewritten header\<close>

lemma find_line_end_at:
  assumes "drop pos header = l @ crlf @ ys" "CHR 0x0A \<notin> set l"
  shows "find_str header crlf pos = Some (pos + length l)"
proof -
  have "pos \<le> length header" using assms(1) by (cases "pos \<le> length header") auto
  then show ?thesis using find_line_end [OF assms(2), of ys] by (simp only: find_str_def assms(1)) simp
qed

lemma copy_headers_lines:
  assumes "drop pos header = header_lines lines @ crlf @ ys" "list_all line_ok lines"
    and "header_size = pos + length (header_lines lines) + 2"
  shows "copy_headers header header_size pos out = out @ header_lines (filter (\<lambda>l. \<not> hop_header l) lines)"
  using assms
proof (induction lines arbitrary: pos out)
  case Nil
  then have "find_str header crlf pos = Some pos" using find_line_end_at [of pos header "[]" ys] by simp
  then show ?case using Nil.prems(3) by (subst copy_headers.simps) simp
next
  case (Cons l lines)
  have l: "line_ok l" and d: "drop pos header = l @ crlf @ header_lines lines @ crlf @ ys" using Cons.prems by simp_all
  then have find: "find_str header crlf pos = Some (pos + length l)" using find_line_end_at by (auto simp: line_ok_def)
  have "drop (pos + (length l + 2)) header = drop (length l + 2) (drop pos header)" by (simp add: add.commute)
  also have "\<dots> = header_lines lines @ crlf @ ys" by (simp only: d) simp
  finally have IH: "copy_headers header header_size (pos + (length l + 2)) out' =
      out' @ header_lines (filter (\<lambda>l. \<not> hop_header l) lines)" for out'
    using Cons.IH [of "pos + (length l + 2)"] Cons.prems by simp
  have "take (length l) (drop pos header) = l" by (simp only: d) simp
  moreover have "length l \<noteq> 0" using l by (simp add: line_ok_def)
  ultimately show ?case
    using Cons.prems(3) IH find by (subst copy_headers.simps) (simp add: add.assoc)
qed

definition word_ok :: "string \<Rightarrow> bool" where
  "word_ok w \<longleftrightarrow> w \<noteq> [] \<and> list_all (\<lambda>c. \<not> isspace c) w"

lemma word_no_newline: "word_ok w \<Longrightarrow> CHR 0x0A \<notin> set w"
  by (auto simp: word_ok_def list_all_iff isspace_def)

lemma next_word_space: "word_ok w \<Longrightarrow> next_word (w @ CHR 0x20 # s) = (w, CHR 0x20 # s)"
  by (cases w) (auto simp: next_word_def Let_def word_ok_def list_all_iff isspace_def takeWhile_append dropWhile_append)

lemma next_word_skip: "next_word (CHR 0x20 # s) = next_word s"
  by (simp add: next_word_def isspace_def)

lemma next_word_last: "word_ok w \<Longrightarrow> next_word w = (w, [])"
  by (cases w) (auto simp: next_word_def Let_def word_ok_def list_all_iff)

definition http_request_text :: "string \<Rightarrow> string \<Rightarrow> string \<Rightarrow> string list \<Rightarrow> string" where
  "http_request_text method target version lines =
     (method @ '' '' @ target @ '' '' @ version) @ crlf @ header_lines lines @ crlf"

lemma request_line_words:
  assumes "word_ok method" "word_ok target" "word_ok version"
  shows "next_word (method @ '' '' @ target @ '' '' @ version) = (method, CHR 0x20 # target @ '' '' @ version)"
    "next_word (CHR 0x20 # target @ '' '' @ version) = (target, CHR 0x20 # version)"
    "next_word (CHR 0x20 # version) = (version, [])"
  using assms by (simp_all add: next_word_space next_word_skip next_word_last)

lemma request_no_newline:
  "word_ok method \<Longrightarrow> word_ok target \<Longrightarrow> word_ok version \<Longrightarrow> CHR 0x0A \<notin> set (method @ '' '' @ target @ '' '' @ version)"
  by (auto simp: word_no_newline)

text \<open>What \<open>async_read_until\<close> delivers of a request that is followed by other bytes.\<close>

lemma read_request:
  assumes "socket_laws S pending sent" "word_ok method" "word_ok target" "word_ok version" "list_all line_ok lines"
    and "pending s = map ord (http_request_text method target version lines) @ extra"
  obtains s' early where
    "so_read_until S (crlf @ crlf) s =
      (Inr (http_request_text method target version lines @ map chr early, length (http_request_text method target version lines)), s')"
    "extra = early @ pending s'" "sent s' = sent s"
proof -
  let ?text = "http_request_text method target version lines"
  let ?line = "method @ '' '' @ target @ '' '' @ version"
  have len: "length ?text = length (?line @ crlf @ header_lines lines) + 2" by (simp add: http_request_text_def)
  have "index_of_str (crlf @ crlf) (map chr (pending s)) = Some (length (?line @ crlf @ header_lines lines) - 2)"
    using find_header_end [OF request_no_newline [OF assms(2-4)] assms(5), of "map chr extra"]
    by (simp add: assms(6) http_request_text_def)
  then obtain s' n where n: "length (?line @ crlf @ header_lines lines) - 2 + length (crlf @ crlf) \<le> n" "n \<le> length (pending s)"
    and r: "so_read_until S (crlf @ crlf) s =
      (Inr (map chr (take n (pending s)), length (?line @ crlf @ header_lines lines) - 2 + length (crlf @ crlf)), s')"
    and s': "pending s' = drop n (pending s)" "sent s' = sent s"
    using assms(1) unfolding socket_laws_def by blast
  have size: "length (?line @ crlf @ header_lines lines) - 2 + length (crlf @ crlf) = length ?text" by (simp add: len)
  then have "length ?text \<le> n" using n(1) by simp
  then have "take n (pending s) = map ord ?text @ take (n - length ?text) extra"
    "drop n (pending s) = drop (n - length ?text) extra" by (simp_all add: assms(6))
  then show ?thesis
    using that [of "take (n - length ?text) extra" s'] r size s' by (simp add: http_request_text_def)
qed

lemma drop_line: "drop (length l + 2) (l @ crlf @ ys) = ys"
  by simp

lemma payload_of_request:
  assumes "word_ok method" "word_ok target" "word_ok version" "list_all line_ok lines"
    and "target = http_prefix @ authority @ path" "CHR ''/'' \<notin> set authority" "path = [] \<or> hd path = CHR ''/''"
  shows "build_initial_payload (http_request_text method target version lines @ early)
      (length (http_request_text method target version lines)) method target version =
    map ord (http_request_text method (if path = [] then ''/'' else path) version (filter (\<lambda>l. \<not> hop_header l) lines) @ early)"
proof -
  let ?text = "http_request_text method target version lines"
  let ?line = "method @ '' '' @ target @ '' '' @ version"
  have whole: "?text @ early = ?line @ crlf @ header_lines lines @ crlf @ early" by (simp add: http_request_text_def)
  define header header_size where "header = ?text @ early" and "header_size = length ?text"
  have "find_str header crlf 0 = Some (0 + length ?line)"
    by (rule find_line_end_at [OF _ request_no_newline [OF assms(1-3)], of _ _ "header_lines lines @ crlf @ early"])
      (simp add: header_def whole)
  moreover have "copy_headers header header_size (length ?line + 2) out =
      out @ header_lines (filter (\<lambda>l. \<not> hop_header l) lines)" for out
    using copy_headers_lines [OF _ assms(4), of "length ?line + 2" header early]
    unfolding header_def header_size_def whole drop_line by (simp add: http_request_text_def add.assoc)
  moreover have "(case find_char (drop (length http_prefix) target) (CHR ''/'') 0 of
      None \<Rightarrow> ''/'' | Some slash \<Rightarrow> drop slash (drop (length http_prefix) target)) = (if path = [] then ''/'' else path)"
    using assms(5-7) by (cases path) (auto simp: find_char_def index_of_append index_of_notin)
  moreover have "(if header_size < length header then drop header_size header else []) = early"
    by (simp add: header_def header_size_def)
  ultimately have "build_initial_payload header header_size method target version =
    map ord (http_request_text method (if path = [] then ''/'' else path) version (filter (\<lambda>l. \<not> hop_header l) lines) @ early)"
    by (simp add: build_initial_payload_def Let_def http_request_text_def cong: if_cong)
  then show ?thesis by (simp only: header_def header_size_def)
qed

section \<open>Sessions\<close>

lemma http_absolute_session:
  assumes "socket_laws S pending sent"
    and "word_ok method" "method \<noteq> ''CONNECT''" "word_ok version" "starts_with version ''HTTP/''" "list_all line_ok lines"
    and "word_ok (http_prefix @ authority @ path)" "CHR ''/'' \<notin> set authority" "path = [] \<or> hd path = CHR ''/''"
    and "parse_authority I authority 80 False = Inr dst"
    and "pending s = map ord (http_request_text method (http_prefix @ authority @ path) version lines) @ extra"
  shows "\<exists>payload s'. http_read_session I S s = (Inr \<lparr>ses_destination = dst, ses_initial_payload = payload\<rparr>, s') \<and>
    payload @ pending s' = map ord (http_request_text method (if path = [] then ''/'' else path) version
      (filter (\<lambda>l. \<not> hop_header l) lines)) @ extra \<and> sent s' = sent s"
proof -
  let ?target = "http_prefix @ authority @ path"
  let ?text = "http_request_text method ?target version lines"
  let ?line = "method @ '' '' @ ?target @ '' '' @ version"
  obtain s' early where r: "so_read_until S (crlf @ crlf) s = (Inr (?text @ map chr early, length ?text), s')"
    and e: "extra = early @ pending s'" "sent s' = sent s"
    using read_request [OF assms(1,2,7,4,6,11)] by blast
  have "find_str (?text @ map chr early) crlf 0 = Some (0 + length ?line)"
    by (intro find_line_end_at [where ys = "header_lines lines @ crlf @ map chr early"] request_no_newline assms(2,7,4))
      (simp add: http_request_text_def)
  moreover have "take (length ?line) (?text @ map chr early) = ?line" by (simp add: http_request_text_def)
  moreover have "parse_http_absolute_target I ?target = Inr dst"
    using assms(8,9,10) by (cases path)
      (auto simp: parse_http_absolute_target_def require_def starts_with_def find_char_def index_of_append index_of_notin)
  moreover have "method \<noteq> []" "?target \<noteq> []" using assms(2) by (auto simp: word_ok_def http_prefix_def)
  moreover note request_line_words [OF assms(2,7,4)]
  ultimately have "http_read_session I S s = (Inr \<lparr>ses_destination = dst, ses_initial_payload =
      build_initial_payload (?text @ map chr early) (length ?text) method ?target version\<rparr>, s')"
    using r assms(3,5) by (simp add: http_read_session_def bindIO_def liftE_def require_def retIO_def)
  then show ?thesis
    using payload_of_request [OF assms(2,7,4,6) refl assms(8,9), of "map chr early"] e by simp
qed

lemma http_connect_session:
  assumes "socket_laws S pending sent" "word_ok target" "word_ok version" "starts_with version ''HTTP/''" "list_all line_ok lines"
    and "parse_connect_target I target = Inr dst"
    and "pending s = map ord (http_request_text ''CONNECT'' target version lines)"
  shows "\<exists>s'. http_read_session I S s = (Inr \<lparr>ses_destination = dst, ses_initial_payload = []\<rparr>, s') \<and>
    pending s' = [] \<and> sent s' = sent s @ http_success_reply"
proof -
  let ?text = "http_request_text ''CONNECT'' target version lines"
  let ?line = "''CONNECT'' @ '' '' @ target @ '' '' @ version"
  have word: "word_ok ''CONNECT''" by (simp add: word_ok_def isspace_def)
  have "pending s = map ord ?text @ []" using assms(7) by simp
  then obtain s1 early where r: "so_read_until S (crlf @ crlf) s = (Inr (?text @ map chr early, length ?text), s1)"
    and e: "[] = early @ pending s1" "sent s1 = sent s"
    using read_request [OF assms(1) word assms(2,3,5)] by metis
  obtain s2 where w: "so_write S http_success_reply s1 = (Inr (), s2)" "pending s2 = pending s1" "sent s2 = sent s1 @ http_success_reply"
    by (rule write_ok [OF assms(1)])
  have "find_str (?text @ map chr early) crlf 0 = Some (0 + length ?line)"
    by (intro find_line_end_at [where ys = "header_lines lines @ crlf @ map chr early"] request_no_newline word assms(2,3))
      (simp add: http_request_text_def)
  moreover have "take (length ?line) (?text @ map chr early) = ?line" by (simp add: http_request_text_def)
  moreover have "target \<noteq> []" using assms(2) by (simp add: word_ok_def)
  moreover note request_line_words [OF word assms(2,3)]
  ultimately have "http_read_session I S s = (Inr \<lparr>ses_destination = dst, ses_initial_payload = []\<rparr>, s2)"
    using r w(1) assms(4,6) by (simp add: http_read_session_def bindIO_def liftE_def require_def retIO_def http_write_success_reply_def)
  then show ?thesis using w e by simp
qed

section \<open>Properties\<close>

text \<open>
  C17: a proxy request in absolute form becomes a session for its authority, and no byte is lost: the
  initial payload followed by what is left on the socket is the request in origin form, without the
  two header lines meant for the proxy, followed by everything the client sent after it.
\<close>

theorem http_request_rewritten:
  assumes "socket_laws S pending sent"
    and "word_ok method" "method \<noteq> ''CONNECT''" "word_ok version" "starts_with version ''HTTP/''" "list_all line_ok lines"
    and "word_ok (http_prefix @ authority @ path)" "CHR ''/'' \<notin> set authority" "path = [] \<or> hd path = CHR ''/''"
    and "parse_authority I authority 80 False = Inr dst"
    and "pending s = map ord (http_request_text method (http_prefix @ authority @ path) version lines) @ extra"
  shows "\<exists>payload s'. http_read_session I S s = (Inr \<lparr>ses_destination = dst, ses_initial_payload = payload\<rparr>, s') \<and>
    payload @ pending s' = map ord (http_request_text method (if path = [] then ''/'' else path) version
      (filter (\<lambda>l. \<not> hop_header l) lines)) @ extra \<and> sent s' = sent s"
  by (rule http_absolute_session [OF assms])

section \<open>Authorities\<close>

text \<open>The form of a host in an authority, and what is relied on: address texts have none of the separators.\<close>

fun authority_host :: "asio_ip \<Rightarrow> host \<Rightarrow> string" where
  "authority_host I (IPv4Address a) = v4_to_string I a"
| "authority_host I (IPv6Address a) = ''['' @ v6_to_string I a @ '']''"
| "authority_host I (DomainName d) = d"

definition authority_chars :: "asio_ip \<Rightarrow> bool" where
  "authority_chars I \<longleftrightarrow>
     (\<forall>a. v4_to_string I a \<noteq> [] \<and> hd (v4_to_string I a) \<noteq> CHR ''['' \<and> CHR '':'' \<notin> set (v4_to_string I a)) \<and>
     (\<forall>a. CHR '']'' \<notin> set (v6_to_string I a))"

fun authority_wf :: "asio_ip \<Rightarrow> host \<Rightarrow> bool" where
  "authority_wf I (IPv4Address a) \<longleftrightarrow> True"
| "authority_wf I (IPv6Address a) \<longleftrightarrow> v6_scope a = 0"
| "authority_wf I (DomainName d) \<longleftrightarrow> d \<noteq> [] \<and> length d \<le> 255 \<and> hd d \<noteq> CHR ''['' \<and> CHR '':'' \<notin> set d \<and> \<not> is_ip_literal I d"

lemma http_port_show:
  "http_port (show_dec n) = (if 0 < n \<and> n \<le> 65535 then Inr (word_of_nat n) else Inl (RuntimeError ''invalid port''))"
proof -
  have "from_chars_uint (show_dec n) = (if 2 ^ 32 \<le> n then (Too_large, []) else (Parsed n, []))"
    by (simp add: from_chars_uint_def Let_def takeWhile_all dropWhile_all show_dec_digits)
  then show ?thesis by (simp add: http_port_def require_def)
qed

lemma authority_no_bracket:
  assumes "t \<noteq> []" "hd t \<noteq> CHR ''[''" "CHR '':'' \<notin> set t" "host_parse I t = Inr h"
  shows "parse_authority I (t @ '':'' @ show_dec n) dp explicit =
    (if 0 < n \<and> n \<le> 65535 then Inr \<lparr>dst_host = h, dst_port = word_of_nat n\<rparr> else Inl (RuntimeError ''invalid port''))"
proof -
  have "CHR '':'' \<notin> set (show_dec n)" by (simp add: show_dec_no_sep is_digit_def)
  then have "rfind_char (t @ '':'' @ show_dec n) (CHR '':'') = Some (length t)"
    using index_of_append [of "CHR '':''" "rev (show_dec n)" "rev t"] by (simp add: rfind_char_def)
  moreover have "hd (t @ '':'' @ show_dec n) \<noteq> CHR ''[''" using assms(1,2) by simp
  ultimately show ?thesis
    using assms by (simp add: parse_authority_def require_def http_port_show find_char_def index_of_notin)
qed

lemma authority_bracket:
  assumes "CHR '']'' \<notin> set t" "host_ipv6 I t = Inr h"
  shows "parse_authority I (''['' @ t @ '']'' @ '':'' @ show_dec n) dp explicit =
    (if 0 < n \<and> n \<le> 65535 then Inr \<lparr>dst_host = h, dst_port = word_of_nat n\<rparr> else Inl (RuntimeError ''invalid port''))"
proof -
  have "index_of (CHR '']'') (''['' @ t @ '']'' @ '':'' @ show_dec n) = Some (length t + 1)"
    using index_of_append [of "CHR '']''" "CHR ''['' # t" "'':'' @ show_dec n"] assms(1) by simp
  then show ?thesis using assms(2) by (simp add: parse_authority_def require_def http_port_show find_char_def)
qed

text \<open>
  The authority of a host and a port number is read back as this destination, IPv6 addresses in
  brackets included, exactly when the number is a valid port: 0 and every number above 65535 is
  rejected.
\<close>

theorem authority_round_trip:
  assumes "asio_text I" "authority_chars I" "authority_wf I h"
  shows "parse_authority I (authority_host I h @ '':'' @ show_dec n) dp explicit =
    (if 0 < n \<and> n \<le> 65535 then Inr \<lparr>dst_host = h, dst_port = word_of_nat n\<rparr> else Inl (RuntimeError ''invalid port''))"
proof (cases h)
  case (IPv4Address a)
  have "host_parse I (v4_to_string I a) = Inr h" using assms(1) by (simp add: IPv4Address host_parse_eq asio_text_def)
  then show ?thesis
    using assms(2) authority_no_bracket [of "v4_to_string I a"] by (simp add: IPv4Address authority_chars_def)
next
  case (IPv6Address a)
  have "host_ipv6 I (v6_to_string I a) = Inr h"
    using assms(1,3) by (simp add: IPv6Address host_ipv6_def ipv6_parse_def asio_text_def)
  then show ?thesis
    using assms(2) authority_bracket [of "v6_to_string I a"] by (simp add: IPv6Address authority_chars_def)
next
  case (DomainName d)
  have "make_address I d = None" using assms(3) by (simp add: DomainName is_ip_literal_def)
  then have "make_address_v4 I d = None" "make_address_v6 I d = None"
    using assms(1) by (auto simp: asio_text_def split: option.split_asm)
  then have "host_parse I d = Inr h" using assms(3) by (simp add: DomainName host_parse_eq domain_name_def)
  then show ?thesis using assms(3) authority_no_bracket [of d] by (simp add: DomainName)
qed

theorem http_request_rewritten_witness:
  "\<exists>payload s'. http_read_session ref_ip mem_socket
      (map ord (http_request_text ''GET'' (http_prefix @ ''a.io:81'' @ ''/x'') ''HTTP/1.1''
        [''Host: a.io'', ''Proxy-Connection: close'']) @ [1, 2], []) =
    (Inr \<lparr>ses_destination = \<lparr>dst_host = DomainName ''a.io'', dst_port = 81\<rparr>, ses_initial_payload = payload\<rparr>, s') \<and>
    payload @ fst s' = map ord (http_request_text ''GET'' ''/x'' ''HTTP/1.1'' [''Host: a.io'']) @ [1, 2]"
proof -
  have "host_parse ref_ip ''a.io'' = Inr (DomainName ''a.io'')"
    by (simp add: host_parse_eq parse_quad_def parse_groups_def domain_name_def)
  moreover have "show_dec 81 = ''81''" by code_simp
  ultimately have dst: "parse_authority ref_ip ''a.io:81'' 80 False = Inr \<lparr>dst_host = DomainName ''a.io'', dst_port = 81\<rparr>"
    using authority_no_bracket [of "''a.io''" ref_ip "DomainName ''a.io''" 81 80 False] by simp
  have hop: "filter (\<lambda>l. \<not> hop_header l) [''Host: a.io'', ''Proxy-Connection: close''] = [''Host: a.io'']" by code_simp
  have words: "word_ok ''GET''" "word_ok ''HTTP/1.1''" "starts_with ''HTTP/1.1'' ''HTTP/''"
    "list_all line_ok [''Host: a.io'', ''Proxy-Connection: close'']" "word_ok (http_prefix @ ''a.io:81'' @ ''/x'')"
    by code_simp+
  have authority: "(CHR ''/'') \<notin> set ''a.io:81''" "''GET'' \<noteq> ''CONNECT''" "''/x'' = [] \<or> hd ''/x'' = CHR ''/''" by simp_all
  let ?s = "(map ord (http_request_text ''GET'' (http_prefix @ ''a.io:81'' @ ''/x'') ''HTTP/1.1''
      [''Host: a.io'', ''Proxy-Connection: close'']) @ [1, 2], [] :: bytes)"
  have "\<exists>payload s'. http_read_session ref_ip mem_socket ?s =
      (Inr \<lparr>ses_destination = \<lparr>dst_host = DomainName ''a.io'', dst_port = 81\<rparr>, ses_initial_payload = payload\<rparr>, s') \<and>
    payload @ fst s' = map ord (http_request_text ''GET'' (if ''/x'' = [] then ''/'' else ''/x'') ''HTTP/1.1''
      (filter (\<lambda>l. \<not> hop_header l) [''Host: a.io'', ''Proxy-Connection: close''])) @ [1, 2] \<and> snd s' = snd ?s"
    by (rule http_request_rewritten [OF socket_laws_mem words(1) authority(2) words(2-5) authority(1,3) dst]) (rule fst_conv)
  then show ?thesis unfolding hop by auto
qed

lemma authority_chars_ref: "authority_chars ref_ip"
proof -
  have "dotted_quad (v4_to_bytes a) \<noteq> [] \<and> hd (dotted_quad (v4_to_bytes a)) \<noteq> CHR ''[''" for a
  proof -
    have "set (dotted_quad (v4_to_bytes a)) \<subseteq> insert (CHR ''.'') (\<Union> (set (map set (map (\<lambda>b. show_dec (unat b)) (v4_to_bytes a)))))"
      unfolding dotted_quad_def by (rule set_join_with)
    then have "CHR ''['' \<notin> set (dotted_quad (v4_to_bytes a))"
      using show_dec_no_sep [of "CHR ''[''"] by (auto simp: is_digit_def)
    moreover have "dotted_quad (v4_to_bytes a) \<noteq> []"
      by (simp add: dotted_quad_def v4_to_bytes_def upt_rec)
    ultimately show ?thesis by (metis hd_in_set)
  qed
  moreover have "CHR '':'' \<notin> set (dotted_quad (v4_to_bytes a))" for a
    using parse_quad_no_colon [of "dotted_quad (v4_to_bytes a)"] by (simp add: parse_quad_dotted)
  moreover have "CHR '']'' \<notin> set (group_text bs)" for bs
  proof -
    have "CHR '']'' \<notin> set (show_hex n)" for n
      using show_hex_hex [of n] by (auto simp: list_all_iff is_hex_def hex_value_def tolower_def Let_def)
    moreover have "set (group_text bs) \<subseteq> insert (CHR '':'') (\<Union> (set (map set (map (\<lambda>g. show_hex (unat g)) (groups bs)))))"
      unfolding group_text_def by (rule set_join_with)
    ultimately show ?thesis by auto
  qed
  ultimately show ?thesis by (simp add: authority_chars_def)
qed

theorem authority_round_trip_witness:
  "parse_authority ref_ip (authority_host ref_ip (IPv6Address \<lparr>v6_bits = 1, v6_scope = 0\<rparr>) @ '':'' @ show_dec 8443) 80 True =
     Inr \<lparr>dst_host = IPv6Address \<lparr>v6_bits = 1, v6_scope = 0\<rparr>, dst_port = 8443\<rparr> \<and>
   parse_authority ref_ip (authority_host ref_ip (IPv4Address 0x0A000001) @ '':'' @ show_dec 65536) 80 True =
     Inl (RuntimeError ''invalid port'')"
  using authority_round_trip [OF asio_text_ref authority_chars_ref, of "IPv6Address \<lparr>v6_bits = 1, v6_scope = 0\<rparr>" 8443]
    authority_round_trip [OF asio_text_ref authority_chars_ref, of "IPv4Address 0x0A000001" 65536]
  by simp

section \<open>Early data of a CONNECT request\<close>

text \<open>
  What the client sends together with a \<open>CONNECT\<close> request is read into the header string and then
  dropped: the session has no initial payload and the bytes are no longer on the socket.
\<close>

lemma connect_drops_early_data:
  assumes "word_ok target" "word_ok version" "starts_with version ''HTTP/''" "list_all line_ok lines"
    and "parse_connect_target I target = Inr dst"
  shows "http_read_session I mem_socket (map ord (http_request_text ''CONNECT'' target version lines) @ early, []) =
    (Inr \<lparr>ses_destination = dst, ses_initial_payload = []\<rparr>, ([], http_success_reply))"
proof -
  let ?text = "http_request_text ''CONNECT'' target version lines"
  let ?line = "''CONNECT'' @ '' '' @ target @ '' '' @ version"
  have word: "word_ok ''CONNECT''" by code_simp
  have "index_of_str (crlf @ crlf) (map chr (map ord ?text @ early)) = Some (length (?line @ crlf @ header_lines lines) - 2)"
    using find_header_end [OF request_no_newline [OF word assms(1,2)] assms(4), of "map chr early"] by (simp add: http_request_text_def)
  then have r: "so_read_until mem_socket (crlf @ crlf) (map ord ?text @ early, []) =
      (Inr (?text @ map chr early, length (?line @ crlf @ header_lines lines) - 2 + length (crlf @ crlf)), ([], []))"
    by (simp add: mem_socket_def)
  have "find_str (?text @ map chr early) crlf 0 = Some (0 + length ?line)"
    by (rule find_line_end_at [OF _ request_no_newline [OF word assms(1,2)], of _ _ "header_lines lines @ crlf @ map chr early"])
      (simp add: http_request_text_def)
  moreover have "take (length ?line) (?text @ map chr early) = ?line" by (simp add: http_request_text_def)
  moreover have "target \<noteq> []" using assms(1) by (simp add: word_ok_def)
  moreover have "so_write mem_socket http_success_reply ([], []) = (Inr (), ([], http_success_reply))" by (simp add: mem_socket_def)
  ultimately show ?thesis
    using r assms(3,5) request_line_words [OF word assms(1,2)]
    by (simp add: http_read_session_def bindIO_def liftE_def require_def retIO_def http_write_success_reply_def)
qed

end
