(* ===== verification/Transport.thy ===== *)
theory Transport
  imports Net Config_Types
begin

text \<open>
  \<open>src/transport/\<close>: the stream interface with its two implementations (\<open>stream.hpp\<close>,
  \<open>stream_utils.hpp\<close>), the TCP and WebSocket clients (\<open>tcp_client.cpp\<close>, \<open>ws_client.cpp\<close>) and the
  connector (\<open>connector.cpp\<close>). Reads, writes and handshakes are Asio's, Beast's and OpenSSL's.
\<close>

section \<open>Streams\<close>

text \<open>
  \<open>Stream\<close>: \<open>st_read\<close> returns the empty sequence at the end of the stream. The operations under it
  report an error code; \<open>Ws_closed\<close> is Beast's \<open>websocket::error::closed\<close>.
\<close>

datatype stream_error = Io io_error | Ws_closed

record 's stream =
  st_read :: "('s, bytes) io"
  st_write :: "bytes \<Rightarrow> ('s, unit) io"
  st_close :: "'s \<Rightarrow> 's"

record 's raw_stream =
  rs_read :: "'s \<Rightarrow> (stream_error + bytes) \<times> 's"
  rs_write :: "bytes \<Rightarrow> 's \<Rightarrow> stream_error option \<times> 's"
  rs_close :: "'s \<Rightarrow> 's"

fun is_closed_code :: "io_error \<Rightarrow> bool" where
  "is_closed_code (Other_error m) = False"
| "is_closed_code _ = True"

fun is_stream_closed :: "stream_error \<Rightarrow> bool" where
  "is_stream_closed (Io e) = is_closed_code e"
| "is_stream_closed Ws_closed = False"

definition is_websocket_closed :: "stream_error \<Rightarrow> bool" where
  "is_websocket_closed e \<longleftrightarrow> is_stream_closed e \<or> e = Ws_closed"

fun error_text :: "stream_error \<Rightarrow> string" where
  "error_text (Io (Other_error m)) = m"
| "error_text (Io Eof) = ''end of file''"
| "error_text (Io Connection_reset) = ''connection reset''"
| "error_text (Io Operation_aborted) = ''operation aborted''"
| "error_text Ws_closed = ''websocket closed''"

text \<open>The two \<open>read\<close>s and the two \<open>write\<close>s differ only in which codes mean that the stream is closed.\<close>

definition impl_read :: "(stream_error \<Rightarrow> bool) \<Rightarrow> 's raw_stream \<Rightarrow> ('s, bytes) io" where
  "impl_read closed R = (\<lambda>s.
     case rs_read R s of
       (Inr bs, s') \<Rightarrow> (Inr bs, s')
     | (Inl e, s') \<Rightarrow> if closed e then (Inr [], s') else (Inl (SystemError (error_text e)), s'))"

definition impl_write :: "(stream_error \<Rightarrow> bool) \<Rightarrow> 's raw_stream \<Rightarrow> bytes \<Rightarrow> ('s, unit) io" where
  "impl_write closed R bs = (\<lambda>s.
     case rs_write R bs s of
       (None, s') \<Rightarrow> (Inr (), s')
     | (Some e, s') \<Rightarrow> if closed e then (Inr (), s') else (Inl (SystemError (error_text e)), s'))"

definition tcp_stream_impl :: "'s raw_stream \<Rightarrow> 's stream" where
  "tcp_stream_impl R =
     \<lparr>st_read = impl_read is_stream_closed R, st_write = impl_write is_stream_closed R, st_close = rs_close R\<rparr>"

definition ws_stream_impl :: "'s raw_stream \<Rightarrow> 's stream" where
  "ws_stream_impl R =
     \<lparr>st_read = impl_read is_websocket_closed R, st_write = impl_write is_websocket_closed R, st_close = rs_close R\<rparr>"

section \<open>Clients\<close>

text \<open>
  The steps of setting a client connection up: \<open>Connector::connect\<close>, the functions of \<open>core/tls.cpp\<close>
  and the handshakes, a WebSocket one with its host header and path.
\<close>

record 's dialer =
  d_connect :: "destination \<Rightarrow> ('s, unit) io"
  d_tls_context :: "bool \<Rightarrow> ('s, unit) io"
  d_tls_identity :: "string \<Rightarrow> bool \<Rightarrow> ('s, unit) io"
  d_tls_handshake :: "('s, unit) io"
  d_ws_handshake :: "string \<Rightarrow> string \<Rightarrow> ('s, unit) io"

record client_config =
  cc_server :: destination
  cc_path :: string
  cc_host_header :: string
  cc_tls :: tls_config

text \<open>Reading a member that was never set is undefined.\<close>

definition read_member :: "'a option \<Rightarrow> string \<Rightarrow> 'a res" where
  "read_member x name = (case x of None \<Rightarrow> Inl (Undefined name) | Some v \<Rightarrow> Inr v)"

text \<open>The part of both constructors that concerns TLS.\<close>

definition client_tls_setup :: "asio_ip \<Rightarrow> 's dialer \<Rightarrow> client_config \<Rightarrow> ('s, client_config) io" where
  "client_tls_setup I D c =
     (if tc_enabled (cc_tls c) then
        let tls = cc_tls c;
            tls = (if tc_server_name tls = [] then tls\<lparr>tc_server_name := host_to_string I (dst_host (cc_server c))\<rparr> else tls)
        in bindIO (liftE (read_member (tc_insecure tls) ''TlsConfig::insecure'')) (\<lambda>insecure.
           bindIO (d_tls_context D insecure) (\<lambda>_. retIO (c\<lparr>cc_tls := tls\<rparr>)))
      else retIO c)"

definition tls_upgrade :: "'s dialer \<Rightarrow> tls_config \<Rightarrow> ('s, unit) io" where
  "tls_upgrade D tls =
     bindIO (liftE (read_member (tc_insecure tls) ''TlsConfig::insecure'')) (\<lambda>insecure.
     bindIO (d_tls_identity D (tc_server_name tls) insecure) (\<lambda>_. d_tls_handshake D))"

definition tcp_client_connect :: "asio_ip \<Rightarrow> 's dialer \<Rightarrow> 's raw_stream \<Rightarrow> client_config \<Rightarrow> ('s, 's stream) io" where
  "tcp_client_connect I D R config =
     bindIO (client_tls_setup I D config) (\<lambda>c.
     bindIO (d_connect D (cc_server c)) (\<lambda>_.
     if \<not> tc_enabled (cc_tls c) then retIO (tcp_stream_impl R)
     else bindIO (tls_upgrade D (cc_tls c)) (\<lambda>_. retIO (tcp_stream_impl R))))"

definition ws_client_connect :: "asio_ip \<Rightarrow> 's dialer \<Rightarrow> 's raw_stream \<Rightarrow> client_config \<Rightarrow> ('s, 's stream) io" where
  "ws_client_connect I D R config =
     (let config = (if cc_host_header config = [] then config\<lparr>cc_host_header := host_to_string I (dst_host (cc_server config))\<rparr> else config) in
     bindIO (client_tls_setup I D config) (\<lambda>c.
     bindIO (d_connect D (cc_server c)) (\<lambda>_.
     bindIO (if tc_enabled (cc_tls c) then tls_upgrade D (cc_tls c) else retIO ()) (\<lambda>_.
     bindIO (d_ws_handshake D (cc_host_header c) (cc_path c)) (\<lambda>_. retIO (ws_stream_impl R))))))"

section \<open>The connector\<close>

text \<open>
  The calls on a socket: closing it, opening it for the protocol of an address, choosing the
  interface (\<open>setsockopt\<close> with \<open>IP_UNICAST_IF\<close> or \<open>IPV6_UNICAST_IF\<close>) and connecting it; an error is its message.
\<close>

record 's socket_calls =
  k_close :: "'s \<Rightarrow> 's"
  k_open :: "address \<Rightarrow> 's \<Rightarrow> string option \<times> 's"
  k_unicast_if :: "address \<Rightarrow> u32 \<Rightarrow> 's \<Rightarrow> bool \<times> 's"
  k_connect :: "address \<Rightarrow> u16 \<Rightarrow> 's \<Rightarrow> string option \<times> 's"

text \<open>The connector keeps the index of the interface for outgoing connections; 0 is any.\<close>

record connector =
  outbound_interface_index :: u32

definition connector_init :: connector where
  "connector_init = \<lparr>outbound_interface_index = 0\<rparr>"

definition set_outbound_interface_index :: "u32 \<Rightarrow> connector \<Rightarrow> connector" where
  "set_outbound_interface_index index c = c\<lparr>outbound_interface_index := index\<rparr>"

definition htonl :: "u32 \<Rightarrow> u32" where
  "htonl v = be32 (le_byte 0 v) (le_byte 1 v) (le_byte 2 v) (le_byte 3 v)"

definition bind_socket_to_interface :: "'s socket_calls \<Rightarrow> address \<Rightarrow> u32 \<Rightarrow> 's \<Rightarrow> bool \<times> 's" where
  "bind_socket_to_interface K a index s =
     (if index = 0 then (True, s)
      else case a of
          V4 _ \<Rightarrow> k_unicast_if K a (htonl index) s
        | V6 _ \<Rightarrow> k_unicast_if K a index s)"

definition resolve_destination :: "(string \<Rightarrow> ('s, address list) io) \<Rightarrow> destination \<Rightarrow> ('s, address list) io" where
  "resolve_destination resolve dst =
     (if host_is_ip (dst_host dst) then bindIO (liftE (host_asio_address (dst_host dst))) (\<lambda>a. retIO [a])
      else bindIO (liftE (host_domain_value (dst_host dst))) resolve)"

text \<open>The loop over the addresses, with the last error code.\<close>

fun connect_loop :: "'s socket_calls \<Rightarrow> u32 \<Rightarrow> u16 \<Rightarrow> address list \<Rightarrow> string \<Rightarrow> ('s, unit) io" where
  "connect_loop K index port [] last_error s = (Inl (RuntimeError (''connect failed: '' @ last_error)), s)"
| "connect_loop K index port (a # addresses) last_error s =
     (case k_open K a (k_close K s) of
        (Some e, s1) \<Rightarrow> connect_loop K index port addresses e s1
      | (None, s1) \<Rightarrow>
          (case bind_socket_to_interface K a index s1 of
             (False, s2) \<Rightarrow> (Inl (RuntimeError ''failed to bind outbound socket to interface''), k_close K s2)
           | (True, s2) \<Rightarrow>
               (case k_connect K a port s2 of
                  (None, s3) \<Rightarrow> (Inr (), s3)
                | (Some e, s3) \<Rightarrow> connect_loop K index port addresses e s3)))"

definition connect_tcp :: "asio_ip \<Rightarrow> 's socket_calls \<Rightarrow> (string \<Rightarrow> ('s, address list) io) \<Rightarrow> connector \<Rightarrow> destination \<Rightarrow> ('s, unit) io" where
  "connect_tcp I K resolve c dst =
     bindIO (resolve_destination resolve dst) (\<lambda>addresses.
     if addresses = [] then liftE (Inl (RuntimeError (''no endpoint resolved for: '' @ destination_to_string I dst)))
     else connect_loop K (outbound_interface_index c) (dst_port dst) addresses [])"

definition connect_udp :: "asio_ip \<Rightarrow> 's socket_calls \<Rightarrow> (string \<Rightarrow> ('s, address list) io) \<Rightarrow> connector \<Rightarrow> destination \<Rightarrow> ('s, unit) io" where
  "connect_udp I K resolve c dst =
     bindIO (resolve_destination resolve dst) (\<lambda>addresses.
     case addresses of
       [] \<Rightarrow> liftE (Inl (RuntimeError (''no endpoint resolved for: '' @ destination_to_string I dst)))
     | a # _ \<Rightarrow> (\<lambda>s.
         case k_open K a (k_close K s) of
           (Some e, s1) \<Rightarrow> (Inl (RuntimeError (''udp open failed: '' @ e)), s1)
         | (None, s1) \<Rightarrow>
             (case bind_socket_to_interface K a (outbound_interface_index c) s1 of
                (False, s2) \<Rightarrow> (Inl (RuntimeError ''failed to bind outbound UDP socket to interface''), k_close K s2)
              | (True, s2) \<Rightarrow>
                  (case k_connect K a (dst_port dst) s2 of
                     (None, s3) \<Rightarrow> (Inr (), s3)
                   | (Some e, s3) \<Rightarrow> (Inl (RuntimeError (''udp connect failed: '' @ e)), s3)))))"

end
