(* ===== verification/Outbound.thy ===== *)
theory Outbound
  imports Transport Vless Tls_Sniffer Router
begin

text \<open>
  \<open>src/outbound/\<close> and the table of outbounds of \<open>src/main.cpp\<close>: the direct, the block and the
  VLESS outbound. A relay loop runs until its source ends, so it is a partial function; \<open>race\<close>
  stands for Boost's \<open>operator||\<close> on awaitables, which runs two coroutines until one of them ends
  without an exception, or both have raised.
\<close>

section \<open>Relays\<close>

text \<open>\<open>DirectOutbound::relay\<close>: what is read from one socket is written to the other.\<close>

definition raise_code :: "stream_error \<Rightarrow> unit res" where
  "raise_code e = (if is_stream_closed e then Inr () else Inl (SystemError (error_text e)))"

partial_function (option) direct_relay :: "'s raw_stream \<Rightarrow> 's raw_stream \<Rightarrow> 's \<Rightarrow> (unit res \<times> 's) option" where
  "direct_relay from_socket to_socket s =
     (case rs_read from_socket s of
        (Inl e, s1) \<Rightarrow> Some (raise_code e, s1)
      | (Inr bs, s1) \<Rightarrow>
          (case rs_write to_socket bs s1 of
             (Some e, s2) \<Rightarrow> Some (Inl (SystemError (error_text e)), s2)
           | (None, s2) \<Rightarrow> direct_relay from_socket to_socket s2))"

partial_function (option) relay_tcp_to_stream :: "'s raw_stream \<Rightarrow> 's stream \<Rightarrow> 's \<Rightarrow> (unit res \<times> 's) option" where
  "relay_tcp_to_stream tcp stream s =
     (case rs_read tcp s of
        (Inl e, s1) \<Rightarrow> Some (raise_code e, s1)
      | (Inr bs, s1) \<Rightarrow>
          (case st_write stream bs s1 of
             (Inl e, s2) \<Rightarrow> Some (Inl e, s2)
           | (Inr _, s2) \<Rightarrow> relay_tcp_to_stream tcp stream s2))"

text \<open>The first message loses its response header, each message on its own.\<close>

definition relayed_bytes :: "bool \<Rightarrow> bytes \<Rightarrow> bytes res" where
  "relayed_bytes first_message bs = (if first_message then strip_response_header bs else Inr bs)"

partial_function (option) relay_stream_to_tcp :: "'s stream \<Rightarrow> 's raw_stream \<Rightarrow> bool \<Rightarrow> 's \<Rightarrow> (unit res \<times> 's) option" where
  "relay_stream_to_tcp stream tcp first_message s =
     (case st_read stream s of
        (Inl e, s1) \<Rightarrow> Some (Inl e, s1)
      | (Inr bs, s1) \<Rightarrow>
          if bs = [] then Some (Inr (), s1)
          else (case relayed_bytes first_message bs of
             Inl e \<Rightarrow> Some (Inl e, s1)
           | Inr out \<Rightarrow>
               (case rs_write tcp out s1 of
                  (Some e, s2) \<Rightarrow> Some (raise_code e, s2)
                | (None, s2) \<Rightarrow> relay_stream_to_tcp stream tcp False s2)))"

section \<open>The VLESS outbound\<close>

record vless_outbound_config =
  vo_server :: destination
  vo_vless :: vless_config
  vo_tls :: "tls_config option"
  vo_transport :: "transport_config option"
  vo_override_address :: bool

text \<open>Without a configuration \<open>out.enabled\<close> is read uninitialised.\<close>

definition normalize_tls :: "tls_config option \<Rightarrow> string \<Rightarrow> tls_config res" where
  "normalize_tls tls server =
     bindE (read_member tls ''TlsConfig::enabled'') (\<lambda>out.
     Inr (if tc_enabled out \<and> tc_server_name out = [] then out\<lparr>tc_server_name := server\<rparr> else out))"

text \<open>\<open>R\<close> are the operations of the stream under a TCP and under a WebSocket client.\<close>

definition connect_stream :: "asio_ip \<Rightarrow> 's dialer \<Rightarrow> 's raw_stream \<Rightarrow> vless_outbound_config \<Rightarrow> ('s, 's stream) io" where
  "connect_stream I D R config =
     (let server_text = host_to_string I (dst_host (vo_server config)) in
     bindIO (liftE (normalize_tls (vo_tls config) server_text)) (\<lambda>tls.
     case vo_transport config of
       None \<Rightarrow> tcp_client_connect I D R \<lparr>cc_server = vo_server config, cc_path = ''/'', cc_host_header = [], cc_tls = tls\<rparr>
     | Some t \<Rightarrow>
         if tr_type t = [] then
           tcp_client_connect I D R \<lparr>cc_server = vo_server config, cc_path = ''/'', cc_host_header = [], cc_tls = tls\<rparr>
         else if tr_type t = ''ws'' then
           ws_client_connect I D R \<lparr>cc_server = vo_server config, cc_path = tr_path t, cc_host_header = server_text, cc_tls = tls\<rparr>
         else liftE (Inl (RuntimeError ''unsupported vless transport''))))"

definition read_initial_payload :: "'s raw_stream \<Rightarrow> ('s, bytes) io" where
  "read_initial_payload tcp = (\<lambda>s.
     case rs_read tcp s of
       (Inr bs, s') \<Rightarrow> (Inr bs, s')
     | (Inl e, s') \<Rightarrow> if is_stream_closed e then (Inr [], s') else (Inl (SystemError (error_text e)), s'))"

definition override_destination :: "asio_ip \<Rightarrow> destination \<Rightarrow> bytes \<Rightarrow> destination res" where
  "override_destination I dst payload =
     bindE (sniff_tls_sni payload) (\<lambda>sni.
     case sni of
       None \<Rightarrow> Inr dst
     | Some name \<Rightarrow>
         if host_to_string I (dst_host dst) \<noteq> name
         then bindE (host_domain name) (\<lambda>h. Inr (dst\<lparr>dst_host := h\<rparr>))
         else Inr dst)"

text \<open>The destination to ask for and the payload to send first.\<close>

definition vless_target :: "asio_ip \<Rightarrow> vless_outbound_config \<Rightarrow> 's raw_stream \<Rightarrow> session \<Rightarrow> ('s, destination \<times> bytes) io" where
  "vless_target I config tcp ses =
     (if vo_override_address config then
        bindIO (if ses_initial_payload ses = [] then read_initial_payload tcp else retIO (ses_initial_payload ses)) (\<lambda>payload.
        if payload \<noteq> [] then
          bindIO (liftE (override_destination I (ses_destination ses) payload)) (\<lambda>dst. retIO (dst, payload))
        else retIO (ses_destination ses, payload))
      else retIO (ses_destination ses, ses_initial_payload ses))"

definition vless_send_start :: "vless_outbound_config \<Rightarrow> 's stream \<Rightarrow> destination \<Rightarrow> bytes \<Rightarrow> ('s, unit) io" where
  "vless_send_start config stream dst payload =
     bindIO (liftE (build_request (vo_vless config) dst)) (\<lambda>request.
     bindIO (st_write stream request) (\<lambda>_.
     if payload \<noteq> [] then st_write stream payload else retIO ()))"

text \<open>
  \<open>VlessOutbound::handle\<close>: an exception is logged; a stream that was made is closed, and so is the
  socket of the client. \<open>None\<close> is a race that does not end.
\<close>

definition vless_handle :: "asio_ip \<Rightarrow> 's dialer \<Rightarrow> 's raw_stream \<Rightarrow>
    (('s \<Rightarrow> (unit res \<times> 's) option) \<Rightarrow> ('s \<Rightarrow> (unit res \<times> 's) option) \<Rightarrow> 's \<Rightarrow> (unit res \<times> 's) option) \<Rightarrow>
    vless_outbound_config \<Rightarrow> 's raw_stream \<Rightarrow> session \<Rightarrow> 's \<Rightarrow> 's option" where
  "vless_handle I D R race config tcp ses s =
     (case bindIO (vless_target I config tcp ses) (\<lambda>(dst, payload).
             bindIO (connect_stream I D R config) (\<lambda>stream. retIO (dst, payload, stream))) s of
        (Inl e, s1) \<Rightarrow> Some (rs_close tcp s1)
      | (Inr (dst, payload, stream), s1) \<Rightarrow>
          (case vless_send_start config stream dst payload s1 of
             (Inl e, s2) \<Rightarrow> Some (rs_close tcp (st_close stream s2))
           | (Inr _, s2) \<Rightarrow>
               map_option (\<lambda>(r, s3). rs_close tcp (st_close stream s3))
                 (race (relay_tcp_to_stream tcp stream) (relay_stream_to_tcp stream tcp True) s2)))"

section \<open>The direct and the block outbound\<close>

text \<open>\<open>connect\<close> is \<open>Connector::connect\<close> on the outbound socket; errors are logged.\<close>

definition direct_handle ::
    "(('s \<Rightarrow> (unit res \<times> 's) option) \<Rightarrow> ('s \<Rightarrow> (unit res \<times> 's) option) \<Rightarrow> 's \<Rightarrow> (unit res \<times> 's) option) \<Rightarrow>
    (destination \<Rightarrow> ('s, unit) io) \<Rightarrow> 's raw_stream \<Rightarrow> 's raw_stream \<Rightarrow> session \<Rightarrow> 's \<Rightarrow> 's option" where
  "direct_handle race connect outbound inbound ses s =
     (case connect (ses_destination ses) s of
        (Inl e, s1) \<Rightarrow> Some s1
      | (Inr _, s1) \<Rightarrow>
          if ses_initial_payload ses \<noteq> [] then
            (case rs_write outbound (ses_initial_payload ses) s1 of
               (Some e, s2) \<Rightarrow> Some s2
             | (None, s2) \<Rightarrow> map_option snd (race (direct_relay inbound outbound) (direct_relay outbound inbound) s2))
          else map_option snd (race (direct_relay inbound outbound) (direct_relay outbound inbound) s1))"

definition block_handle :: "'s raw_stream \<Rightarrow> 's \<Rightarrow> 's" where
  "block_handle tcp s = rs_close tcp s"

section \<open>The outbounds of the program\<close>

datatype outbound = Direct | Vless vless_outbound_config | Block

text \<open>The table by tag; a later outbound replaces an earlier one with its tag, unknown types are skipped.\<close>

definition make_outbound :: "asio_ip \<Rightarrow> bool \<Rightarrow> outbound_config \<Rightarrow> outbound option res" where
  "make_outbound I override item =
     (if oc_type item = ''direct'' then Inr (Some Direct)
      else if oc_type item = ''vless'' then
        bindE (host_parse I (oc_server item)) (\<lambda>h.
        bindE (read_member (oc_server_port item) ''OutboundConfig::server_port'') (\<lambda>port.
        Inr (Some (Vless \<lparr>vo_server = \<lparr>dst_host = h, dst_port = port\<rparr>, vo_vless = \<lparr>vc_uuid = oc_uuid item\<rparr>,
          vo_tls = oc_tls item, vo_transport = oc_transport item, vo_override_address = override\<rparr>))))
      else if oc_type item = ''block'' then Inr (Some Block)
      else Inr None)"

fun make_outbounds :: "asio_ip \<Rightarrow> bool \<Rightarrow> outbound_config list \<Rightarrow> (string \<times> outbound) list \<Rightarrow> (string \<times> outbound) list res" where
  "make_outbounds I override [] table = Inr table"
| "make_outbounds I override (item # items) table =
     bindE (make_outbound I override item) (\<lambda>out.
     make_outbounds I override items
       (case out of None \<Rightarrow> table | Some x \<Rightarrow> AList.update (oc_tag item) x table))"

end
