(* ===== verification/Transport_Properties.thy ===== *)
theory Transport_Properties
  imports Outbound Text_IP
begin

text \<open>
  What the transports promise: the connector tries the addresses in order, and a relay ends with
  its source and delivers its bytes.
\<close>

section \<open>The connector\<close>

text \<open>
  A network in which sockets open and bind, an address is reachable or refuses with an error, and
  \<open>attempts\<close> records the endpoints that were tried.
\<close>

definition calls_laws :: "'s socket_calls \<Rightarrow> ('s \<Rightarrow> (address \<times> u16) list) \<Rightarrow> (address \<Rightarrow> string option) \<Rightarrow> bool" where
  "calls_laws K attempts refusal \<longleftrightarrow>
     (\<forall>a s. \<exists>s'. k_open K a (k_close K s) = (None, s') \<and> attempts s' = attempts s) \<and>
     (\<forall>a i s. \<exists>s'. k_unicast_if K a i s = (True, s') \<and> attempts s' = attempts s) \<and>
     (\<forall>a p s. \<exists>s'. k_connect K a p s = (refusal a, s') \<and> attempts s' = attempts s @ [(a, p)])"

lemma bind_ok:
  assumes "calls_laws K attempts refusal"
  obtains s' where "bind_socket_to_interface K a index s = (True, s')" "attempts s' = attempts s"
proof (cases "index = 0")
  case False
  have "\<exists>s'. k_unicast_if K a i s = (True, s') \<and> attempts s' = attempts s" for i
    using assms unfolding calls_laws_def by blast
  then have "\<exists>s'. bind_socket_to_interface K a index s = (True, s') \<and> attempts s' = attempts s"
    using False by (cases a) (simp_all add: bind_socket_to_interface_def)
  then show ?thesis using that by blast
qed (use that in \<open>simp add: bind_socket_to_interface_def\<close>)

lemma attempt_ok:
  assumes "calls_laws K attempts refusal"
  obtains s1 s2 s3 where "k_open K a (k_close K s) = (None, s1)" "bind_socket_to_interface K a index s1 = (True, s2)"
    "k_connect K a port s2 = (refusal a, s3)" "attempts s3 = attempts s @ [(a, port)]"
proof -
  obtain s1 where s1: "k_open K a (k_close K s) = (None, s1)" "attempts s1 = attempts s"
    using assms unfolding calls_laws_def by blast
  obtain s2 where s2: "bind_socket_to_interface K a index s1 = (True, s2)" "attempts s2 = attempts s1"
    by (rule bind_ok [OF assms])
  obtain s3 where "k_connect K a port s2 = (refusal a, s3)" "attempts s3 = attempts s2 @ [(a, port)]"
    using assms unfolding calls_laws_def by blast
  with that s1 s2 show ?thesis by simp
qed

lemma connect_loop_order:
  assumes "calls_laws K attempts refusal"
  shows "\<exists>s'. connect_loop K index port addrs e s =
      (if list_all (\<lambda>a. refusal a \<noteq> None) addrs
       then Inl (RuntimeError (''connect failed: '' @ (if addrs = [] then e else the (refusal (last addrs))))) else Inr (), s') \<and>
    attempts s' = attempts s @ map (\<lambda>a. (a, port))
      (takeWhile (\<lambda>a. refusal a \<noteq> None) addrs @ take 1 (dropWhile (\<lambda>a. refusal a \<noteq> None) addrs))"
proof (induction addrs arbitrary: e s)
  case (Cons a addrs)
  obtain s1 s2 s3 where *: "k_open K a (k_close K s) = (None, s1)" "bind_socket_to_interface K a index s1 = (True, s2)"
    "k_connect K a port s2 = (refusal a, s3)" "attempts s3 = attempts s @ [(a, port)]"
    by (rule attempt_ok [OF assms])
  show ?case
  proof (cases "refusal a")
    case None
    then show ?thesis using * by simp
  next
    case (Some e')
    obtain s' where "connect_loop K index port addrs e' s3 =
      (if list_all (\<lambda>a. refusal a \<noteq> None) addrs
       then Inl (RuntimeError (''connect failed: '' @ (if addrs = [] then e' else the (refusal (last addrs))))) else Inr (), s')"
      "attempts s' = attempts s3 @ map (\<lambda>a. (a, port))
        (takeWhile (\<lambda>a. refusal a \<noteq> None) addrs @ take 1 (dropWhile (\<lambda>a. refusal a \<noteq> None) addrs))"
      using Cons.IH by blast
    then show ?thesis using * Some by auto
  qed
qed simp

text \<open>
  C36: connecting to a destination tries its addresses in the order the resolver gave them and stops
  at the first one that accepts; when all refuse, the last refusal is raised. A literal address is
  not resolved.
\<close>

theorem connect_tries_in_order:
  assumes "calls_laws K attempts refusal"
    and "resolve_destination resolve dst s = (Inr addrs, s0)" "addrs \<noteq> []"
  shows "\<exists>s'. connect_tcp I K resolve c dst s =
      (if list_all (\<lambda>a. refusal a \<noteq> None) addrs
       then Inl (RuntimeError (''connect failed: '' @ the (refusal (last addrs)))) else Inr (), s') \<and>
    attempts s' = attempts s0 @ map (\<lambda>a. (a, dst_port dst))
      (takeWhile (\<lambda>a. refusal a \<noteq> None) addrs @ take 1 (dropWhile (\<lambda>a. refusal a \<noteq> None) addrs))"
proof -
  have loop: "connect_tcp I K resolve c dst s = connect_loop K (outbound_interface_index c) (dst_port dst) addrs [] s0"
    using assms(2,3) by (simp add: connect_tcp_def bindIO_def)
  show ?thesis
    using connect_loop_order [OF assms(1), of "outbound_interface_index c" "dst_port dst" addrs "[]" s0]
    unfolding loop if_not_P [OF assms(3)] .
qed

text \<open>A network in memory: addresses that end in an odd number refuse.\<close>

definition mem_calls :: "(address \<times> u16) list socket_calls" where
  "mem_calls =
     \<lparr>k_close = (\<lambda>s. s), k_open = (\<lambda>_ s. (None, s)), k_unicast_if = (\<lambda>_ _ s. (True, s)),
      k_connect = (\<lambda>a p s. (case a of V4 v \<Rightarrow> if odd (unat v) then Some ''refused'' else None | V6 _ \<Rightarrow> None, s @ [(a, p)]))\<rparr>"

theorem connect_tries_in_order_witness:
  "\<exists>s'. connect_tcp ref_ip mem_calls (\<lambda>d s. (Inr [V4 1, V4 4, V4 6], s)) \<lparr>outbound_interface_index = 7\<rparr> \<lparr>dst_host = DomainName ''a.io'', dst_port = 80\<rparr> []
      = (Inr (), s') \<and> s' = [(V4 1, 80), (V4 4, 80)]"
proof -
  have laws: "calls_laws mem_calls (\<lambda>s. s) (\<lambda>a. case a of V4 v \<Rightarrow> if odd (unat v) then Some ''refused'' else None | V6 _ \<Rightarrow> None)"
    by (simp add: calls_laws_def mem_calls_def)
  show ?thesis
    using connect_tries_in_order [OF laws, of "\<lambda>d s. (Inr [V4 1, V4 4, V4 6], s)" "\<lparr>dst_host = DomainName ''a.io'', dst_port = 80\<rparr>" "[]"
        "[V4 1, V4 4, V4 6]" "[]" ref_ip "\<lparr>outbound_interface_index = 7\<rparr>"]
    by (simp add: resolve_destination_def host_is_ip_def bindIO_def liftE_def)
qed

section \<open>The relay of the VLESS outbound\<close>

text \<open>
  A stream that delivers the messages \<open>chunks\<close> and then ends, and a client socket that takes what is
  written to it; \<open>delivered\<close> are the bytes the client has got.
\<close>

definition relay_laws :: "'s stream \<Rightarrow> 's raw_stream \<Rightarrow> ('s \<Rightarrow> bytes list) \<Rightarrow> ('s \<Rightarrow> bytes) \<Rightarrow> bool" where
  "relay_laws stream tcp chunks delivered \<longleftrightarrow>
     (\<forall>s. \<exists>s'. st_read stream s = (Inr (case chunks s of [] \<Rightarrow> [] | c # _ \<Rightarrow> c), s') \<and>
        chunks s' = drop 1 (chunks s) \<and> delivered s' = delivered s) \<and>
     (\<forall>bs s. \<exists>s'. rs_write tcp bs s = (None, s') \<and> chunks s' = chunks s \<and> delivered s' = delivered s @ bs)"

lemma relay_step:
  assumes "relay_laws stream tcp chunks delivered" "chunks s = c # cs" "c \<noteq> []" "relayed_bytes first c = Inr bs"
  obtains s' where "relay_stream_to_tcp stream tcp first s = relay_stream_to_tcp stream tcp False s'"
    "chunks s' = cs" "delivered s' = delivered s @ bs"
proof -
  have "\<exists>s'. st_read stream s = (Inr (case chunks s of [] \<Rightarrow> [] | c # _ \<Rightarrow> c), s') \<and>
      chunks s' = drop 1 (chunks s) \<and> delivered s' = delivered s"
    using assms(1) unfolding relay_laws_def by blast
  then obtain s1 where s1: "st_read stream s = (Inr c, s1)" "chunks s1 = cs" "delivered s1 = delivered s"
    using assms(2) by auto
  obtain s2 where "rs_write tcp bs s1 = (None, s2)" "chunks s2 = cs" "delivered s2 = delivered s @ bs"
    using assms(1) s1(2,3) unfolding relay_laws_def by metis
  then show ?thesis using that s1(1) assms(3,4) by (subst (asm) relay_stream_to_tcp.simps) simp
qed

lemma relay_end:
  assumes "relay_laws stream tcp chunks delivered" "chunks s = []"
  obtains s' where "relay_stream_to_tcp stream tcp first s = Some (Inr (), s')" "delivered s' = delivered s"
proof -
  have "\<exists>s'. st_read stream s = (Inr (case chunks s of [] \<Rightarrow> [] | c # _ \<Rightarrow> c), s') \<and>
      chunks s' = drop 1 (chunks s) \<and> delivered s' = delivered s"
    using assms(1) unfolding relay_laws_def by blast
  then obtain s' where "st_read stream s = (Inr [], s')" "delivered s' = delivered s" using assms(2) by auto
  then show ?thesis using that by (subst (asm) relay_stream_to_tcp.simps) simp
qed

lemma relay_rest:
  assumes "relay_laws stream tcp chunks delivered" "[] \<notin> set (chunks s)"
  shows "\<exists>s'. relay_stream_to_tcp stream tcp False s = Some (Inr (), s') \<and> delivered s' = delivered s @ concat (chunks s)"
  using assms(2)
proof (induction "chunks s" arbitrary: s)
  case Nil
  then show ?case using relay_end [OF assms(1), of s False] by (metis append_Nil2 concat.simps(1))
next
  case (Cons c cs)
  have "chunks s = c # cs" using Cons.hyps(2) by simp
  moreover from this have "c \<noteq> []" using Cons.prems by auto
  ultimately obtain s1 where s1: "relay_stream_to_tcp stream tcp False s = relay_stream_to_tcp stream tcp False s1"
    "chunks s1 = cs" "delivered s1 = delivered s @ c"
    using relay_step [OF assms(1), of s c cs False c] by (auto simp: relayed_bytes_def)
  then have "cs = chunks s1" "[] \<notin> set (chunks s1)" using Cons.prems \<open>chunks s = c # cs\<close> by simp_all
  from Cons.hyps(1) [OF this] show ?case using s1 \<open>chunks s = c # cs\<close> by auto
qed

text \<open>
  The relay from a stream to the client ends when the stream does and has then delivered all
  bytes of all messages in order, except for the response header at the start of the first message.
  The header must be complete in this message: otherwise the relay raises and delivers nothing.
\<close>

theorem relay_delivers:
  assumes "relay_laws stream tcp chunks delivered" "[] \<notin> set (chunks s)"
  shows "\<exists>r s'. relay_stream_to_tcp stream tcp True s = Some (r, s') \<and>
    (case chunks s of
       [] \<Rightarrow> r = Inr () \<and> delivered s' = delivered s
     | (version # n # rest) # cs \<Rightarrow>
         if unat n \<le> length rest
         then r = Inr () \<and> delivered s' = delivered s @ drop (unat n) rest @ concat cs
         else r = Inl (RuntimeError ''incomplete vless header'') \<and> delivered s' = delivered s
     | _ \<Rightarrow> r = Inl (RuntimeError ''short vless response header'') \<and> delivered s' = delivered s)"
proof (cases "chunks s")
  case Nil
  then show ?thesis using relay_end [OF assms(1), of s True] by auto
next
  case (Cons c cs)
  have "\<exists>s'. st_read stream s = (Inr (case chunks s of [] \<Rightarrow> [] | c # _ \<Rightarrow> c), s') \<and>
      chunks s' = drop 1 (chunks s) \<and> delivered s' = delivered s"
    using assms(1) unfolding relay_laws_def by blast
  then obtain s1 where s1: "st_read stream s = (Inr c, s1)" "delivered s1 = delivered s" using Cons by auto
  have c: "c \<noteq> []" using assms(2) Cons by auto
  show ?thesis
  proof (cases "strip_response_header c")
    case (Inl e)
    then have "relay_stream_to_tcp stream tcp True s = Some (Inl e, s1)"
      using s1(1) c by (subst relay_stream_to_tcp.simps) (simp add: relayed_bytes_def)
    then show ?thesis
      using Inl s1(2) c unfolding Cons strip_response_header_spec by (auto split: list.splits if_splits)
  next
    case (Inr bs)
    then obtain s2 where s2: "relay_stream_to_tcp stream tcp True s = relay_stream_to_tcp stream tcp False s2"
      "chunks s2 = cs" "delivered s2 = delivered s @ bs"
      using relay_step [OF assms(1) Cons c, of True bs] by (auto simp: relayed_bytes_def)
    then obtain s' where "relay_stream_to_tcp stream tcp True s = Some (Inr (), s')" "delivered s' = delivered s2 @ concat cs"
      using relay_rest [OF assms(1), of s2] assms(2) Cons by auto
    then show ?thesis
      using Inr s2(3) unfolding Cons strip_response_header_spec by (auto split: list.splits if_splits)
  qed
qed

text \<open>A stream in memory: the messages to come and the bytes delivered.\<close>

definition mem_stream :: "(bytes list \<times> bytes) stream" where
  "mem_stream =
     \<lparr>st_read = (\<lambda>(cs, d). case cs of [] \<Rightarrow> (Inr [], ([], d)) | c # cs \<Rightarrow> (Inr c, (cs, d))),
      st_write = (\<lambda>_ s. (Inr (), s)), st_close = (\<lambda>s. s)\<rparr>"

definition mem_client :: "(bytes list \<times> bytes) raw_stream" where
  "mem_client =
     \<lparr>rs_read = (\<lambda>s. (Inl (Io Eof), s)), rs_write = (\<lambda>bs (cs, d). (None, (cs, d @ bs))), rs_close = (\<lambda>s. s)\<rparr>"

lemma relay_laws_mem: "relay_laws mem_stream mem_client fst snd"
  by (auto simp: relay_laws_def mem_stream_def mem_client_def split: list.split)

theorem relay_delivers_witness:
  "\<exists>s'. relay_stream_to_tcp mem_stream mem_client True ([[0, 1, 9, 65], [66, 67]], []) = Some (Inr (), s') \<and> snd s' = [65, 66, 67]"
  using relay_delivers [OF relay_laws_mem, of "([[0, 1, 9, 65], [66, 67]], [])"] by auto

end
