(* ===== verification/Tun_Route.thy ===== *)
theory Tun_Route
  imports Address
begin

text \<open>
  \<open>src/inbound/tun_route.hpp\<close> and \<open>tun_route.cpp\<close>: the address and the default route of the TUN
  adapter, and the interface of the default route. The calls of the Windows IP helper library are
  the parameters of a record; each returns its error code.
\<close>

type_synonym u64 = "64 word"

section \<open>The rows and the calls\<close>

text \<open>
  The members of \<open>MIB_UNICASTIPADDRESS_ROW\<close> and \<open>MIB_IPFORWARD_ROW2\<close> that the code sets or reads;
  \<open>ua_manual\<close> is both origins \<open>Manual\<close> and the DAD state \<open>Preferred\<close>. \<open>wn_init_address\<close> and
  \<open>wn_init_route\<close> are rows as the initialisers leave them.
\<close>

record unicast_row =
  ua_luid :: u64
  ua_address :: u32
  ua_prefix_length :: byte
  ua_manual :: bool

record forward_row =
  fr_luid :: u64
  fr_index :: u32
  fr_prefix :: u32
  fr_prefix_length :: byte
  fr_next_hop :: u32
  fr_metric :: u32
  fr_protocol :: u32

record 's windows =
  wn_init_address :: unicast_row
  wn_create_address :: "unicast_row \<Rightarrow> 's \<Rightarrow> u32 \<times> 's"
  wn_delete_address :: "unicast_row \<Rightarrow> 's \<Rightarrow> u32 \<times> 's"
  wn_init_route :: forward_row
  wn_create_route :: "forward_row \<Rightarrow> 's \<Rightarrow> u32 \<times> 's"
  wn_delete_route :: "forward_row \<Rightarrow> 's \<Rightarrow> u32 \<times> 's"
  wn_forward_table :: "'s \<Rightarrow> u32 \<times> forward_row list"
  wn_interface_metric :: "u64 \<Rightarrow> 's \<Rightarrow> u32 \<times> u32"

definition NO_ERROR :: u32 where
  "NO_ERROR = 0"

definition ERROR_OBJECT_ALREADY_EXISTS :: u32 where
  "ERROR_OBJECT_ALREADY_EXISTS = 5010"

definition ERROR_NOT_FOUND :: u32 where
  "ERROR_NOT_FOUND = 1168"

definition MIB_IPPROTO_NETMGMT :: u32 where
  "MIB_IPPROTO_NETMGMT = 3"

definition ok_or_exists :: "u32 \<Rightarrow> bool" where
  "ok_or_exists error \<longleftrightarrow> error = NO_ERROR \<or> error = ERROR_OBJECT_ALREADY_EXISTS"

section \<open>The operations\<close>

definition add_tun_address :: "asio_ip \<Rightarrow> 's windows \<Rightarrow> u64 \<Rightarrow> string \<Rightarrow> ('s, bool) io" where
  "add_tun_address I W luid tun_ip =
     bindIO (liftE (ipv4_to_net_order_u32 I tun_ip)) (\<lambda>address s.
     case wn_create_address W ((wn_init_address W)
         \<lparr>ua_luid := luid, ua_address := address, ua_prefix_length := 24, ua_manual := True\<rparr>) s of
       (error, s') \<Rightarrow> (Inr (ok_or_exists error), s'))"

definition delete_tun_address :: "asio_ip \<Rightarrow> 's windows \<Rightarrow> u64 \<Rightarrow> string \<Rightarrow> ('s, bool) io" where
  "delete_tun_address I W luid tun_ip =
     bindIO (liftE (ipv4_to_net_order_u32 I tun_ip)) (\<lambda>address s.
     case wn_delete_address W ((wn_init_address W)\<lparr>ua_luid := luid, ua_address := address\<rparr>) s of
       (error, s') \<Rightarrow> (Inr (\<not> (error \<noteq> NO_ERROR \<and> error \<noteq> ERROR_NOT_FOUND)), s'))"

definition add_default_route :: "asio_ip \<Rightarrow> 's windows \<Rightarrow> u64 \<Rightarrow> string \<Rightarrow> ('s, bool) io" where
  "add_default_route I W luid tun_next_ip =
     bindIO (liftE (ipv4_to_net_order_u32 I tun_next_ip)) (\<lambda>hop s.
     case wn_create_route W ((wn_init_route W)
         \<lparr>fr_luid := luid, fr_prefix := 0, fr_prefix_length := 0, fr_next_hop := hop,
          fr_metric := 1, fr_protocol := MIB_IPPROTO_NETMGMT\<rparr>) s of
       (error, s') \<Rightarrow> (Inr (ok_or_exists error), s'))"

definition delete_default_route :: "asio_ip \<Rightarrow> 's windows \<Rightarrow> u64 \<Rightarrow> string \<Rightarrow> ('s, bool) io" where
  "delete_default_route I W luid tun_next_ip =
     bindIO (liftE (ipv4_to_net_order_u32 I tun_next_ip)) (\<lambda>hop s.
     case wn_delete_route W ((wn_init_route W)
         \<lparr>fr_luid := luid, fr_prefix := 0, fr_prefix_length := 0, fr_next_hop := hop\<rparr>) s of
       (error, s') \<Rightarrow> (Inr (\<not> (error \<noteq> NO_ERROR \<and> error \<noteq> ERROR_NOT_FOUND)), s'))"

definition configure_tun_routes :: "asio_ip \<Rightarrow> 's windows \<Rightarrow> u64 \<Rightarrow> string \<Rightarrow> string \<Rightarrow> ('s, bool) io" where
  "configure_tun_routes I W luid tun_ip tun_next_ip =
     bindIO (add_tun_address I W luid tun_ip) (\<lambda>ok.
     if \<not> ok then retIO False
     else bindIO (add_default_route I W luid tun_next_ip) (\<lambda>ok.
       if \<not> ok then bindIO (delete_tun_address I W luid tun_ip) (\<lambda>_. retIO False)
       else retIO True))"

definition cleanup_tun_routes :: "asio_ip \<Rightarrow> 's windows \<Rightarrow> u64 \<Rightarrow> string \<Rightarrow> string \<Rightarrow> ('s, bool) io" where
  "cleanup_tun_routes I W luid tun_ip tun_next_ip =
     bindIO (delete_default_route I W luid tun_next_ip) (\<lambda>route_ok.
     bindIO (delete_tun_address I W luid tun_ip) (\<lambda>address_ok. retIO (route_ok \<and> address_ok)))"

text \<open>The metrics are added as 64-bit numbers; \<open>INADDR_ANY\<close> is 0.\<close>

definition effective_metric :: "forward_row \<Rightarrow> u32 \<Rightarrow> u64" where
  "effective_metric route interface = ucast (fr_metric route) + ucast interface"

fun best_route :: "'s windows \<Rightarrow> 's \<Rightarrow> forward_row list \<Rightarrow> (u32 \<times> u64) option \<Rightarrow> (u32 \<times> u64) option" where
  "best_route W s [] best = best"
| "best_route W s (route # routes) best =
     (if fr_prefix_length route \<noteq> 0 \<or> fr_prefix route \<noteq> 0 then best_route W s routes best
      else case wn_interface_metric W (fr_luid route) s of
        (error, interface) \<Rightarrow>
          if error \<noteq> NO_ERROR then best_route W s routes best
          else let metric = effective_metric route interface in
            if (case best of None \<Rightarrow> True | Some (_, m) \<Rightarrow> metric < m)
            then best_route W s routes (Some (fr_index route, metric))
            else best_route W s routes best)"

definition find_default_route_interface_index :: "'s windows \<Rightarrow> 's \<Rightarrow> u32 option" where
  "find_default_route_interface_index W s =
     (case wn_forward_table W s of
        (error, table) \<Rightarrow> if error \<noteq> NO_ERROR then None else map_option fst (best_route W s table None))"

section \<open>The interface of the default route\<close>

text \<open>A route that counts, and its metric as a number.\<close>

definition default_route :: "'s windows \<Rightarrow> 's \<Rightarrow> forward_row \<Rightarrow> bool" where
  "default_route W s r \<longleftrightarrow>
     fr_prefix_length r = 0 \<and> fr_prefix r = 0 \<and> fst (wn_interface_metric W (fr_luid r) s) = NO_ERROR"

definition route_metric :: "'s windows \<Rightarrow> 's \<Rightarrow> forward_row \<Rightarrow> nat" where
  "route_metric W s r = unat (fr_metric r) + unat (snd (wn_interface_metric W (fr_luid r) s))"

lemma unat_effective_metric: "unat (effective_metric r interface) = unat (fr_metric r) + unat interface"
proof -
  have "unat (fr_metric r) < 2 ^ 32" "unat interface < 2 ^ 32" using unsigned_less [of "fr_metric r"] unsigned_less [of interface] by simp_all
  then show ?thesis by (simp add: effective_metric_def unat_word_ariths unsigned_ucast_eq take_bit_eq_mod)
qed

text \<open>The first route with the least metric, as a function on the list of the routes that count.\<close>

fun first_least :: "('a \<Rightarrow> nat) \<Rightarrow> 'a list \<Rightarrow> 'a option" where
  "first_least f [] = None"
| "first_least f (x # xs) =
     (case first_least f xs of None \<Rightarrow> Some x | Some y \<Rightarrow> if f y < f x then Some y else Some x)"

lemma first_least_None: "first_least f xs = None \<longleftrightarrow> xs = []"
  by (cases xs) (auto split: option.split)

lemma first_least_Some:
  assumes "first_least f xs = Some y"
  shows "\<exists>us vs. xs = us @ y # vs \<and> (\<forall>u\<in>set us. f y < f u) \<and> (\<forall>v\<in>set vs. f y \<le> f v)"
  using assms
proof (induction xs arbitrary: y)
  case (Cons x xs)
  show ?case
  proof (cases "first_least f xs")
    case None
    with Cons.prems have "x # xs = [] @ y # []" by (simp add: first_least_None)
    then show ?thesis by fastforce
  next
    case (Some z)
    obtain us vs where xs: "xs = us @ z # vs" "\<forall>u\<in>set us. f z < f u" "\<forall>v\<in>set vs. f z \<le> f v"
      using Cons.IH [OF Some] by blast
    show ?thesis
    proof (cases "f z < f x")
      case True
      then have "x # xs = (x # us) @ y # vs" "\<forall>u\<in>set (x # us). f y < f u" "\<forall>v\<in>set vs. f y \<le> f v"
        using Some Cons.prems xs by simp_all
      then show ?thesis by blast
    next
      case False
      have "f x \<le> f v" if "v \<in> set xs" for v
        using that xs False by (auto dest: bspec)
      moreover have "x # xs = [] @ y # xs" using Some False Cons.prems by simp
      ultimately show ?thesis using Some False Cons.prems by (intro exI [of _ "[]"] exI [of _ xs]) simp
    qed
  qed
qed simp

text \<open>The loop keeps the best route so far; \<open>effective\<close> is the metric the loop computes for a route.\<close>

definition effective :: "'s windows \<Rightarrow> 's \<Rightarrow> forward_row \<Rightarrow> u64" where
  "effective W s r = effective_metric r (snd (wn_interface_metric W (fr_luid r) s))"

lemma unat_effective: "unat (effective W s r) = route_metric W s r"
  by (simp add: effective_def route_metric_def unat_effective_metric)

lemma best_route_Cons:
  "best_route W s (r # rs) best =
     (if default_route W s r \<and> (case best of None \<Rightarrow> True | Some (_, m) \<Rightarrow> route_metric W s r < unat m)
      then best_route W s rs (Some (fr_index r, effective W s r)) else best_route W s rs best)"
  by (auto simp: default_route_def effective_def Let_def word_less_nat_alt
      simp flip: unat_effective split: prod.splits option.splits)

lemma best_route_first_least:
  "best_route W s rs best =
     (case first_least (route_metric W s) (filter (default_route W s) rs) of
        None \<Rightarrow> best
      | Some r \<Rightarrow> if (case best of None \<Rightarrow> True | Some (_, m) \<Rightarrow> route_metric W s r < unat m)
          then Some (fr_index r, effective W s r) else best)"
proof (induction rs arbitrary: best)
  case (Cons r rs)
  show ?case
    unfolding best_route_Cons Cons.IH
    by (auto simp: unat_effective split: option.splits)
qed simp

text \<open>
  C39: the interface of the TUN set-up is the one of a default route of least metric, of the first
  one in the table if there are several; the metric is the sum of the route's and the interface's
  as numbers, without wrap-around. There is none only if no default route has an interface entry.
\<close>

theorem default_interface_least:
  assumes "wn_forward_table W s = (NO_ERROR, table)"
  shows "case find_default_route_interface_index W s of
      None \<Rightarrow> filter (default_route W s) table = []
    | Some i \<Rightarrow> \<exists>us r vs. filter (default_route W s) table = us @ r # vs \<and> fr_index r = i \<and>
        (\<forall>u\<in>set us. route_metric W s r < route_metric W s u) \<and> (\<forall>v\<in>set vs. route_metric W s r \<le> route_metric W s v)"
proof -
  have "find_default_route_interface_index W s =
      map_option fr_index (first_least (route_metric W s) (filter (default_route W s) table))"
    by (simp add: find_default_route_interface_index_def assms best_route_first_least split: option.split)
  then show ?thesis
    by (auto simp: first_least_None dest!: first_least_Some split: option.split)
qed

text \<open>Two default routes with the same sum, one without an interface entry, and one that is not a default route.\<close>

definition sample_route :: "u64 \<Rightarrow> u32 \<Rightarrow> u32 \<Rightarrow> byte \<Rightarrow> forward_row" where
  "sample_route luid index metric len =
     \<lparr>fr_luid = luid, fr_index = index, fr_prefix = 0, fr_prefix_length = len, fr_next_hop = 0, fr_metric = metric, fr_protocol = 3\<rparr>"

definition sample_table :: "forward_row list" where
  "sample_table = [sample_route 1 2 100 0, sample_route 2 4 25 0, sample_route 3 6 35 0, sample_route 4 8 0 0, sample_route 1 9 0 8]"

definition table_windows :: "unit windows" where
  "table_windows =
     \<lparr>wn_init_address = \<lparr>ua_luid = 0, ua_address = 0, ua_prefix_length = 0, ua_manual = False\<rparr>,
      wn_create_address = (\<lambda>r m. (0, m)), wn_delete_address = (\<lambda>r m. (0, m)),
      wn_init_route = sample_route 0 0 0 0, wn_create_route = (\<lambda>r m. (0, m)), wn_delete_route = (\<lambda>r m. (0, m)),
      wn_forward_table = (\<lambda>m. (0, sample_table)),
      wn_interface_metric = (\<lambda>l m. if l = 2 then (0, 10) else if l = 4 then (1168, 0) else (0, 0))\<rparr>"

theorem default_interface_least_witness:
  "find_default_route_interface_index table_windows () = Some 4 \<and>
   (\<exists>us r vs. filter (default_route table_windows ()) sample_table = us @ r # vs \<and> fr_index r = 4 \<and>
      (\<forall>u\<in>set us. route_metric table_windows () r < route_metric table_windows () u) \<and>
      (\<forall>v\<in>set vs. route_metric table_windows () r \<le> route_metric table_windows () v))"
proof -
  have table: "wn_forward_table table_windows () = (NO_ERROR, sample_table)" by (simp add: table_windows_def NO_ERROR_def)
  have index: "find_default_route_interface_index table_windows () = Some 4"
    by (simp add: find_default_route_interface_index_def table_windows_def sample_table_def sample_route_def NO_ERROR_def
        effective_metric_def Let_def)
  show ?thesis using default_interface_least [OF table] index by simp
qed

end
