(* ===== verification/Wintun.thy ===== *)
theory Wintun
  imports Prelude
begin

text \<open>
  \<open>src/inbound/tun_wintun.hpp\<close> and \<open>tun_wintun.cpp\<close>: the wrapper of \<open>wintun.dll\<close>. The functions of the
  library (\<open>wintun.h\<close>) and of Windows are the parameters of a record; a handle is a number, a null
  handle is \<open>None\<close>.
\<close>

record 's wintun_dll =
  wd_load_library :: "string \<Rightarrow> 's \<Rightarrow> nat option \<times> 's"
  wd_free_library :: "nat \<Rightarrow> 's \<Rightarrow> 's"
  wd_get_proc :: "nat \<Rightarrow> string \<Rightarrow> bool"
  wd_create_adapter :: "string \<Rightarrow> string \<Rightarrow> 's \<Rightarrow> nat option \<times> 's"
  wd_close_adapter :: "nat \<Rightarrow> 's \<Rightarrow> 's"
  wd_adapter_luid :: "nat \<Rightarrow> 64 word"
  wd_start_session :: "nat \<Rightarrow> u32 \<Rightarrow> 's \<Rightarrow> nat option \<times> 's"
  wd_end_session :: "nat \<Rightarrow> 's \<Rightarrow> 's"
  wd_receive_packet :: "nat \<Rightarrow> 's \<Rightarrow> (nat \<times> u32) option \<times> 's"
  wd_release_packet :: "nat \<Rightarrow> nat \<Rightarrow> 's \<Rightarrow> 's"
  wd_allocate_packet :: "nat \<Rightarrow> u32 \<Rightarrow> 's \<Rightarrow> nat option \<times> 's"
  wd_send_packet :: "nat \<Rightarrow> nat \<Rightarrow> bytes \<Rightarrow> 's \<Rightarrow> 's"
  wd_read_wait_event :: "nat \<Rightarrow> nat"

text \<open>\<open>wt_procs\<close> are the names of the function pointers that are not null.\<close>

record wintun =
  wt_dll :: "nat option"
  wt_procs :: "string list"
  wt_adapter :: "nat option"
  wt_session :: "nat option"

definition wintun_init :: wintun where
  "wintun_init = \<lparr>wt_dll = None, wt_procs = [], wt_adapter = None, wt_session = None\<rparr>"

definition wintun_functions :: "string list" where
  "wintun_functions =
     [''WintunCreateAdapter'', ''WintunCloseAdapter'', ''WintunStartSession'', ''WintunEndSession'',
      ''WintunGetReadWaitEvent'', ''WintunReceivePacket'', ''WintunReleaseReceivePacket'',
      ''WintunAllocateSendPacket'', ''WintunSendPacket'', ''WintunGetAdapterLUID'']"

text \<open>A call through a function pointer, and the use of a handle, that is null is undefined.\<close>

definition need_proc :: "wintun \<Rightarrow> string \<Rightarrow> unit res" where
  "need_proc w name = (if name \<in> set (wt_procs w) then Inr () else Inl (Undefined name))"

definition need_handle :: "nat option \<Rightarrow> nat res" where
  "need_handle h = (case h of None \<Rightarrow> Inl (Undefined ''null handle'') | Some x \<Rightarrow> Inr x)"

definition wintun_load :: "'s wintun_dll \<Rightarrow> (wintun \<times> 's, bool) io" where
  "wintun_load Y = (\<lambda>(w, s).
     case wd_load_library Y ''wintun.dll'' s of
       (None, s') \<Rightarrow> (Inr False, (w\<lparr>wt_dll := None\<rparr>, s'))
     | (Some dll, s') \<Rightarrow>
         let procs = filter (wd_get_proc Y dll) wintun_functions
         in (Inr (procs = wintun_functions), (w\<lparr>wt_dll := Some dll, wt_procs := procs\<rparr>, s')))"

definition wintun_open_adapter :: "'s wintun_dll \<Rightarrow> string \<Rightarrow> (wintun \<times> 's, bool) io" where
  "wintun_open_adapter Y name = (\<lambda>(w, s).
     case need_proc w ''WintunCreateAdapter'' of
       Inl e \<Rightarrow> (Inl e, (w, s))
     | Inr _ \<Rightarrow> (case wd_create_adapter Y name ''Wintun'' s of
         (adapter, s') \<Rightarrow> (Inr (adapter \<noteq> None), (w\<lparr>wt_adapter := adapter\<rparr>, s'))))"

definition wintun_start_session :: "'s wintun_dll \<Rightarrow> u32 \<Rightarrow> (wintun \<times> 's, bool) io" where
  "wintun_start_session Y capacity = (\<lambda>(w, s).
     case bindE (need_proc w ''WintunStartSession'') (\<lambda>_. need_handle (wt_adapter w)) of
       Inl e \<Rightarrow> (Inl e, (w, s))
     | Inr adapter \<Rightarrow> (case wd_start_session Y adapter capacity s of
         (session, s') \<Rightarrow> (Inr (session \<noteq> None), (w\<lparr>wt_session := session\<rparr>, s'))))"

text \<open>A packet is its address and size, or null; \<open>write\<close> copies the bytes into an allocated packet.\<close>

definition wintun_receive :: "'s wintun_dll \<Rightarrow> (wintun \<times> 's, (nat \<times> u32) option) io" where
  "wintun_receive Y = (\<lambda>(w, s).
     case bindE (need_proc w ''WintunReceivePacket'') (\<lambda>_. need_handle (wt_session w)) of
       Inl e \<Rightarrow> (Inl e, (w, s))
     | Inr session \<Rightarrow> (case wd_receive_packet Y session s of (packet, s') \<Rightarrow> (Inr packet, (w, s'))))"

definition wintun_release :: "'s wintun_dll \<Rightarrow> (nat \<times> u32) option \<Rightarrow> (wintun \<times> 's, unit) io" where
  "wintun_release Y packet = (\<lambda>(w, s).
     case packet of
       None \<Rightarrow> (Inr (), (w, s))
     | Some (data, _) \<Rightarrow>
         (case bindE (need_proc w ''WintunReleaseReceivePacket'') (\<lambda>_. need_handle (wt_session w)) of
            Inl e \<Rightarrow> (Inl e, (w, s))
          | Inr session \<Rightarrow> (Inr (), (w, wd_release_packet Y session data s))))"

definition wintun_write :: "'s wintun_dll \<Rightarrow> bytes \<Rightarrow> (wintun \<times> 's, bool) io" where
  "wintun_write Y data = (\<lambda>(w, s).
     case bindE (need_proc w ''WintunAllocateSendPacket'') (\<lambda>_. need_handle (wt_session w)) of
       Inl e \<Rightarrow> (Inl e, (w, s))
     | Inr session \<Rightarrow>
         (case wd_allocate_packet Y session (word_of_nat (length data)) s of
            (None, s') \<Rightarrow> (Inr False, (w, s'))
          | (Some packet, s') \<Rightarrow>
              (case need_proc w ''WintunSendPacket'' of
                 Inl e \<Rightarrow> (Inl e, (w, s'))
               | Inr _ \<Rightarrow> (Inr True, (w, wd_send_packet Y session packet data s')))))"

definition wintun_read_wait_event :: "'s wintun_dll \<Rightarrow> wintun \<Rightarrow> nat res" where
  "wintun_read_wait_event Y w =
     bindE (need_proc w ''WintunGetReadWaitEvent'') (\<lambda>_.
     bindE (need_handle (wt_session w)) (\<lambda>session. Inr (wd_read_wait_event Y session)))"

definition wintun_adapter_luid :: "'s wintun_dll \<Rightarrow> wintun \<Rightarrow> 64 word option" where
  "wintun_adapter_luid Y w =
     (case wt_adapter w of
        None \<Rightarrow> None
      | Some adapter \<Rightarrow>
          if ''WintunGetAdapterLUID'' \<notin> set (wt_procs w) then None else Some (wd_adapter_luid Y adapter))"

text \<open>The destructor: the session, the adapter, the library.\<close>

definition wintun_end_session :: "'s wintun_dll \<Rightarrow> wintun \<Rightarrow> ('s, unit) io" where
  "wintun_end_session Y w =
     (case wt_session w of
        None \<Rightarrow> retIO ()
      | Some h \<Rightarrow> bindIO (liftE (need_proc w ''WintunEndSession'')) (\<lambda>_ s. (Inr (), wd_end_session Y h s)))"

definition wintun_close_adapter :: "'s wintun_dll \<Rightarrow> wintun \<Rightarrow> ('s, unit) io" where
  "wintun_close_adapter Y w =
     (case wt_adapter w of
        None \<Rightarrow> retIO ()
      | Some h \<Rightarrow> bindIO (liftE (need_proc w ''WintunCloseAdapter'')) (\<lambda>_ s. (Inr (), wd_close_adapter Y h s)))"

definition wintun_free_library :: "'s wintun_dll \<Rightarrow> wintun \<Rightarrow> ('s, unit) io" where
  "wintun_free_library Y w =
     (case wt_dll w of None \<Rightarrow> retIO () | Some h \<Rightarrow> (\<lambda>s. (Inr (), wd_free_library Y h s)))"

definition wintun_destroy :: "'s wintun_dll \<Rightarrow> wintun \<Rightarrow> ('s, unit) io" where
  "wintun_destroy Y w =
     bindIO (wintun_end_session Y w) (\<lambda>_. bindIO (wintun_close_adapter Y w) (\<lambda>_. wintun_free_library Y w))"

end
