(* ===== verification/Tun_Start.thy ===== *)
theory Tun_Start
  imports Tun_Route Wintun Tun_Inbound
begin

text \<open>
  \<open>TunInbound::start\<close>, \<open>stop\<close> and the destructor (\<open>src/inbound/tun_inbound.cpp\<close>): how the inbound takes
  the adapter, the session, the address, the route and the acceptor, and gives them back. The
  packets that pass in between are the subject of the theories on the packet handlers: a start that
  succeeds returns the state they begin with.
\<close>

section \<open>The object and its set-up\<close>

record tun_inbound_config =
  ti_tun_ip :: string
  ti_tun_next_ip :: string

record tun_device =
  td_wintun :: wintun
  td_luid :: u64
  td_routes_configured :: bool
  td_acceptor_open :: bool
  td_thread :: bool
  td_stopping :: bool

definition device_init :: tun_device where
  "device_init =
     \<lparr>td_wintun = wintun_init, td_luid = 0, td_routes_configured = False, td_acceptor_open = False,
      td_thread = False, td_stopping = False\<rparr>"

text \<open>The calls on the acceptor; an error is its message.\<close>

record 's acceptor_calls =
  ap_open :: "'s \<Rightarrow> string option \<times> 's"
  ap_reuse_address :: "'s \<Rightarrow> string option \<times> 's"
  ap_bind :: "address_v4 \<Rightarrow> u16 \<Rightarrow> 's \<Rightarrow> string option \<times> 's"
  ap_listen :: "'s \<Rightarrow> string option \<times> 's"
  ap_local_port :: "'s \<Rightarrow> string + u16"
  ap_close :: "'s \<Rightarrow> 's"

definition on_wintun :: "(wintun \<times> 's, 'a) io \<Rightarrow> (tun_device \<times> 's, 'a) io" where
  "on_wintun m = (\<lambda>(t, s). case m (td_wintun t, s) of (r, (w, s')) \<Rightarrow> (r, (t\<lparr>td_wintun := w\<rparr>, s')))"

definition on_system :: "('s, 'a) io \<Rightarrow> (tun_device \<times> 's, 'a) io" where
  "on_system m = (\<lambda>(t, s). case m s of (r, s') \<Rightarrow> (r, (t, s')))"

definition change :: "(tun_device \<Rightarrow> tun_device) \<Rightarrow> (tun_device \<times> 's, unit) io" where
  "change f = (\<lambda>(t, s). (Inr (), (f t, s)))"

definition check :: "string \<Rightarrow> (tun_device \<times> 's, bool) io \<Rightarrow> (tun_device \<times> 's, unit) io" where
  "check message m = bindIO m (\<lambda>ok. liftE (require ok message))"

definition stage :: "string \<Rightarrow> ('s \<Rightarrow> string option \<times> 's) \<Rightarrow> (tun_device \<times> 's, unit) io" where
  "stage name f = on_system (\<lambda>s. case f s of
       (None, s') \<Rightarrow> (Inr (), s')
     | (Some e, s') \<Rightarrow> (Inl (RuntimeError (''tun acceptor '' @ name @ '' failed: '' @ e)), s'))"

definition tun_listen :: "'s acceptor_calls \<Rightarrow> u32 \<Rightarrow> (tun_device \<times> 's, u16) io" where
  "tun_listen A ip =
     bindIO (stage ''open'' (ap_open A)) (\<lambda>_.
     bindIO (change (td_acceptor_open_update (\<lambda>_. True))) (\<lambda>_.
     bindIO (stage ''set_option'' (ap_reuse_address A)) (\<lambda>_.
     bindIO (stage ''bind'' (ap_bind A (address_v4_from_net_order_u32 ip) 0)) (\<lambda>_.
     bindIO (stage ''listen'' (ap_listen A)) (\<lambda>_.
     on_system (\<lambda>s. (case ap_local_port A s of
         Inl e \<Rightarrow> Inl (RuntimeError (''tun acceptor local_endpoint failed: '' @ e)) | Inr port \<Rightarrow> Inr port, s)))))))"

definition take_luid :: "'s wintun_dll \<Rightarrow> (tun_device \<times> 's, bool) io" where
  "take_luid Y = (\<lambda>(t, s).
     case wintun_adapter_luid Y (td_wintun t) of
       None \<Rightarrow> (Inr False, (t, s)) | Some luid \<Rightarrow> (Inr True, (t\<lparr>td_luid := luid\<rparr>, s)))"

definition take_routes :: "asio_ip \<Rightarrow> 's windows \<Rightarrow> tun_inbound_config \<Rightarrow> (tun_device \<times> 's, bool) io" where
  "take_routes I W config = (\<lambda>(t, s).
     on_system (configure_tun_routes I W (td_luid t) (ti_tun_ip config) (ti_tun_next_ip config)) (t, s))"

definition tun_start ::
    "asio_ip \<Rightarrow> 's windows \<Rightarrow> 's wintun_dll \<Rightarrow> 's acceptor_calls \<Rightarrow> tun_inbound_config \<Rightarrow> (tun_device \<times> 's, tun_inbound) io" where
  "tun_start I W Y A config =
     bindIO (liftE (ipv4_to_net_order_u32 I (ti_tun_ip config))) (\<lambda>ip.
     bindIO (liftE (ipv4_to_net_order_u32 I (ti_tun_next_ip config))) (\<lambda>next_ip.
     bindIO (check ''failed to load wintun.dll'' (on_wintun (wintun_load Y))) (\<lambda>_.
     bindIO (check ''failed to open wintun adapter'' (on_wintun (wintun_open_adapter Y ''cppboxTun''))) (\<lambda>_.
     bindIO (check ''failed to start wintun session'' (on_wintun (wintun_start_session Y 0x800000))) (\<lambda>_.
     bindIO (check ''failed to get wintun adapter luid'' (take_luid Y)) (\<lambda>_.
     bindIO (check ''failed to configure tun routes'' (take_routes I W config)) (\<lambda>_.
     bindIO (change (td_routes_configured_update (\<lambda>_. True))) (\<lambda>_.
     bindIO (tun_listen A ip) (\<lambda>port.
     bindIO (change (td_thread_update (\<lambda>_. True))) (\<lambda>_.
     retIO (tun_init ip next_ip port)))))))))))"

text \<open>\<open>stop\<close> on these members; what it does to the flows is \<open>tun_stop\<close>. It is \<open>noexcept\<close>.\<close>

definition device_stop :: "asio_ip \<Rightarrow> 's windows \<Rightarrow> 's acceptor_calls \<Rightarrow> tun_inbound_config \<Rightarrow> (tun_device \<times> 's, unit) io" where
  "device_stop I W A config = (\<lambda>(t, s).
     if td_stopping t then (Inr (), (t, s))
     else
       let t1 = t\<lparr>td_stopping := True, td_acceptor_open := False\<rparr>; s1 = ap_close A s
       in bindIO (if td_routes_configured t1
            then bindIO (on_system (cleanup_tun_routes I W (td_luid t1) (ti_tun_ip config) (ti_tun_next_ip config)))
              (\<lambda>_. change (td_routes_configured_update (\<lambda>_. False)))
            else retIO ())
          (\<lambda>_. change (td_thread_update (\<lambda>_. False))) (t1, s1))"

definition device_destroy ::
    "asio_ip \<Rightarrow> 's windows \<Rightarrow> 's wintun_dll \<Rightarrow> 's acceptor_calls \<Rightarrow> tun_inbound_config \<Rightarrow> tun_device \<times> 's \<Rightarrow> unit res \<times> 's" where
  "device_destroy I W Y A config c =
     (case device_stop I W A config c of
        (Inl e, (t, s)) \<Rightarrow> (Inl e, s)
      | (Inr _, (t, s)) \<Rightarrow> wintun_destroy Y (td_wintun t) s)"

end
