(* ===== verification/Tun_Lifecycle.thy ===== *)
theory Tun_Lifecycle
  imports Tun_Start Text_IP
begin

text \<open>
  The resources of the TUN inbound over its life: whatever step of the start fails, the destructor
  gives back what was taken. The proofs use pre- and postconditions for actions that may raise.
\<close>

section \<open>Pre- and postconditions\<close>

text \<open>\<open>Q\<close> holds after a normal return, \<open>R\<close> after an exception.\<close>

definition triple :: "('s \<Rightarrow> bool) \<Rightarrow> ('s, 'a) io \<Rightarrow> ('a \<Rightarrow> 's \<Rightarrow> bool) \<Rightarrow> ('s \<Rightarrow> bool) \<Rightarrow> bool" where
  "triple P m Q R \<longleftrightarrow> (\<forall>st. P st \<longrightarrow> (case m st of (Inr x, st') \<Rightarrow> Q x st' | (Inl e, st') \<Rightarrow> R st'))"

lemma tripleD:
  assumes "triple P m Q R" "P st"
  shows "m st = (Inr x, st') \<Longrightarrow> Q x st'" "m st = (Inl e, st') \<Longrightarrow> R st'"
  using assms(1) [unfolded triple_def, THEN spec, THEN mp, OF assms(2)] by simp_all

lemma tripleI:
  assumes "\<And>st x st'. P st \<Longrightarrow> m st = (Inr x, st') \<Longrightarrow> Q x st'" "\<And>st e st'. P st \<Longrightarrow> m st = (Inl e, st') \<Longrightarrow> R st'"
  shows "triple P m Q R"
  unfolding triple_def
proof (intro allI impI)
  fix st assume "P st"
  obtain r st' where "m st = (r, st')" by fastforce
  then show "case m st of (Inr x, st') \<Rightarrow> Q x st' | (Inl e, st') \<Rightarrow> R st'"
    using assms [OF \<open>P st\<close>] by (cases r) simp_all
qed

lemma bindIO_InlE:
  assumes "bindIO m f s = (Inl e, s2)"
  obtains "m s = (Inl e, s2)" | x s1 where "m s = (Inr x, s1)" "f x s1 = (Inl e, s2)"
  using assms by (auto simp: bindIO_def split: prod.splits sum.splits)

lemma triple_bind:
  assumes m: "triple P m Q R" and f: "\<And>x. triple (Q x) (f x) Q' R"
  shows "triple P (bindIO m f) Q' R"
proof (rule tripleI)
  fix st y st2 assume P: "P st" and run: "bindIO m f st = (Inr y, st2)"
  from run obtain x st1 where "m st = (Inr x, st1)" "f x st1 = (Inr y, st2)" by (rule bindIO_InrE)
  then show "Q' y st2" using tripleD(1) [OF m P] tripleD(1) [OF f] by blast
next
  fix st e st2 assume P: "P st" and "bindIO m f st = (Inl e, st2)"
  from this(2) show "R st2"
  proof (cases rule: bindIO_InlE)
    case 1
    then show ?thesis by (rule tripleD(2) [OF m P])
  next
    case (2 x st1)
    then show ?thesis using tripleD(1) [OF m P] tripleD(2) [OF f] by blast
  qed
qed

lemma triple_liftE:
  assumes "\<And>st x. P st \<Longrightarrow> r = Inr x \<Longrightarrow> Q x st" "\<And>st. P st \<Longrightarrow> R st"
  shows "triple P (liftE r) Q R"
  using assms by (cases r) (auto simp: triple_def liftE_def)

lemma triple_ret: "(\<And>st. P st \<Longrightarrow> Q x st) \<Longrightarrow> triple P (retIO x) Q R"
  by (simp add: triple_def retIO_def)

lemma triple_change: "(\<And>t s. P (t, s) \<Longrightarrow> Q () (f t, s)) \<Longrightarrow> triple P (change f) Q R"
  by (auto simp: triple_def change_def)

lemma triple_check:
  assumes "triple P m (\<lambda>ok st. if ok then Q () st else R st) R"
  shows "triple P (check message m) Q R"
  unfolding check_def
proof (rule triple_bind [OF assms])
  fix ok show "triple (\<lambda>st. if ok then Q () st else R st) (liftE (require ok message)) Q R"
    by (cases ok) (simp_all add: triple_def liftE_def require_def)
qed

section \<open>The machine\<close>

text \<open>
  What the calls take from the machine: references to libraries, adapters, sessions, addresses of
  adapters and routes (adapter, prefix, prefix length and next hop).
\<close>

record machine =
  mc_dlls :: nat
  mc_adapters :: "nat set"
  mc_sessions :: "nat set"
  mc_addresses :: "(u64 \<times> u32) set"
  mc_routes :: "(u64 \<times> u32 \<times> byte \<times> u32) set"

definition unused_luid :: "machine \<Rightarrow> u64 \<Rightarrow> bool" where
  "unused_luid m luid \<longleftrightarrow> luid \<notin> fst ` mc_addresses m \<and> luid \<notin> fst ` mc_routes m"

lemma unused_luid_simps [simp]:
  "unused_luid (m\<lparr>mc_dlls := d\<rparr>) luid = unused_luid m luid"
  "unused_luid (m\<lparr>mc_dlls := d, mc_adapters := a\<rparr>) luid = unused_luid m luid"
  by (simp_all add: unused_luid_def)

text \<open>
  A call that succeeds takes one thing that was not there, or gives one back; one that fails changes
  nothing. A new adapter has no address and no route. Deleting what is there succeeds.
\<close>

definition wintun_laws :: "'s wintun_dll \<Rightarrow> ('s \<Rightarrow> machine) \<Rightarrow> bool" where
  "wintun_laws Y view \<longleftrightarrow>
     (\<forall>n s. case wd_load_library Y n s of
        (None, s') \<Rightarrow> view s' = view s | (Some h, s') \<Rightarrow> view s' = (view s)\<lparr>mc_dlls := Suc (mc_dlls (view s))\<rparr>) \<and>
     (\<forall>h s. view (wd_free_library Y h s) = (view s)\<lparr>mc_dlls := mc_dlls (view s) - 1\<rparr>) \<and>
     (\<forall>n k s. case wd_create_adapter Y n k s of
        (None, s') \<Rightarrow> view s' = view s
      | (Some h, s') \<Rightarrow> h \<notin> mc_adapters (view s) \<and> unused_luid (view s) (wd_adapter_luid Y h) \<and>
          view s' = (view s)\<lparr>mc_adapters := insert h (mc_adapters (view s))\<rparr>) \<and>
     (\<forall>h s. view (wd_close_adapter Y h s) = (view s)\<lparr>mc_adapters := mc_adapters (view s) - {h}\<rparr>) \<and>
     (\<forall>a k s. case wd_start_session Y a k s of
        (None, s') \<Rightarrow> view s' = view s
      | (Some h, s') \<Rightarrow> h \<notin> mc_sessions (view s) \<and> view s' = (view s)\<lparr>mc_sessions := insert h (mc_sessions (view s))\<rparr>) \<and>
     (\<forall>h s. view (wd_end_session Y h s) = (view s)\<lparr>mc_sessions := mc_sessions (view s) - {h}\<rparr>)"

lemma wintun_lawsD:
  assumes "wintun_laws Y view"
  shows "\<forall>n s. case wd_load_library Y n s of
        (None, s') \<Rightarrow> view s' = view s | (Some h, s') \<Rightarrow> view s' = (view s)\<lparr>mc_dlls := Suc (mc_dlls (view s))\<rparr>"
    and "\<forall>h s. view (wd_free_library Y h s) = (view s)\<lparr>mc_dlls := mc_dlls (view s) - 1\<rparr>"
    and "\<forall>n k s. case wd_create_adapter Y n k s of
        (None, s') \<Rightarrow> view s' = view s
      | (Some h, s') \<Rightarrow> h \<notin> mc_adapters (view s) \<and> unused_luid (view s) (wd_adapter_luid Y h) \<and>
          view s' = (view s)\<lparr>mc_adapters := insert h (mc_adapters (view s))\<rparr>"
    and "\<forall>h s. view (wd_close_adapter Y h s) = (view s)\<lparr>mc_adapters := mc_adapters (view s) - {h}\<rparr>"
    and "\<forall>a k s. case wd_start_session Y a k s of
        (None, s') \<Rightarrow> view s' = view s
      | (Some h, s') \<Rightarrow> h \<notin> mc_sessions (view s) \<and> view s' = (view s)\<lparr>mc_sessions := insert h (mc_sessions (view s))\<rparr>"
    and "\<forall>h s. view (wd_end_session Y h s) = (view s)\<lparr>mc_sessions := mc_sessions (view s) - {h}\<rparr>"
  by (rule assms [unfolded wintun_laws_def, THEN conjunct1],
      rule assms [unfolded wintun_laws_def, THEN conjunct2, THEN conjunct1],
      rule assms [unfolded wintun_laws_def, THEN conjunct2, THEN conjunct2, THEN conjunct1],
      rule assms [unfolded wintun_laws_def, THEN conjunct2, THEN conjunct2, THEN conjunct2, THEN conjunct1],
      rule assms [unfolded wintun_laws_def, THEN conjunct2, THEN conjunct2, THEN conjunct2, THEN conjunct2, THEN conjunct1],
      rule assms [unfolded wintun_laws_def, THEN conjunct2, THEN conjunct2, THEN conjunct2, THEN conjunct2, THEN conjunct2])

definition address_key :: "unicast_row \<Rightarrow> u64 \<times> u32" where
  "address_key r = (ua_luid r, ua_address r)"

definition route_key :: "forward_row \<Rightarrow> u64 \<times> u32 \<times> byte \<times> u32" where
  "route_key r = (fr_luid r, fr_prefix r, fr_prefix_length r, fr_next_hop r)"

definition windows_laws :: "'s windows \<Rightarrow> ('s \<Rightarrow> machine) \<Rightarrow> bool" where
  "windows_laws W view \<longleftrightarrow>
     (\<forall>r s. case wn_create_address W r s of (e, s') \<Rightarrow>
        if e = NO_ERROR then view s' = (view s)\<lparr>mc_addresses := insert (address_key r) (mc_addresses (view s))\<rparr>
        else view s' = view s \<and> (e = ERROR_OBJECT_ALREADY_EXISTS \<longrightarrow> address_key r \<in> mc_addresses (view s))) \<and>
     (\<forall>r s. case wn_delete_address W r s of (e, s') \<Rightarrow>
        (e = NO_ERROR \<or> e = ERROR_NOT_FOUND) \<and> view s' = (view s)\<lparr>mc_addresses := mc_addresses (view s) - {address_key r}\<rparr>) \<and>
     (\<forall>r s. case wn_create_route W r s of (e, s') \<Rightarrow>
        if e = NO_ERROR then view s' = (view s)\<lparr>mc_routes := insert (route_key r) (mc_routes (view s))\<rparr>
        else view s' = view s \<and> (e = ERROR_OBJECT_ALREADY_EXISTS \<longrightarrow> route_key r \<in> mc_routes (view s))) \<and>
     (\<forall>r s. case wn_delete_route W r s of (e, s') \<Rightarrow>
        (e = NO_ERROR \<or> e = ERROR_NOT_FOUND) \<and> view s' = (view s)\<lparr>mc_routes := mc_routes (view s) - {route_key r}\<rparr>)"

definition acceptor_laws :: "'s acceptor_calls \<Rightarrow> ('s \<Rightarrow> machine) \<Rightarrow> bool" where
  "acceptor_laws A view \<longleftrightarrow>
     (\<forall>s. view (snd (ap_open A s)) = view s) \<and> (\<forall>s. view (snd (ap_reuse_address A s)) = view s) \<and>
     (\<forall>a p s. view (snd (ap_bind A a p s)) = view s) \<and> (\<forall>s. view (snd (ap_listen A s)) = view s) \<and>
     (\<forall>s. view (ap_close A s) = view s)"

section \<open>Address and route\<close>

lemma add_address_view:
  assumes "windows_laws W view" "ipv4_to_net_order_u32 I ip_text = Inr ip" "(luid, ip) \<notin> mc_addresses (view s)"
  obtains ok s' where "add_tun_address I W luid ip_text s = (Inr ok, s')"
    "view s' = (if ok then (view s)\<lparr>mc_addresses := insert (luid, ip) (mc_addresses (view s))\<rparr> else view s)"
proof -
  define row where "row = (wn_init_address W)\<lparr>ua_luid := luid, ua_address := ip, ua_prefix_length := 24, ua_manual := True\<rparr>"
  obtain e s' where call: "wn_create_address W row s = (e, s')" by fastforce
  have "if e = NO_ERROR then view s' = (view s)\<lparr>mc_addresses := insert (address_key row) (mc_addresses (view s))\<rparr>
      else view s' = view s \<and> (e = ERROR_OBJECT_ALREADY_EXISTS \<longrightarrow> address_key row \<in> mc_addresses (view s))"
    using assms(1) [unfolded windows_laws_def, THEN conjunct1, THEN spec, THEN spec, of row s] unfolding call by simp
  moreover have "address_key row = (luid, ip)" by (simp add: address_key_def row_def)
  ultimately have "view s' = (if ok_or_exists e then (view s)\<lparr>mc_addresses := insert (luid, ip) (mc_addresses (view s))\<rparr> else view s)"
    using assms(3) by (auto simp: ok_or_exists_def split: if_splits)
  moreover have "add_tun_address I W luid ip_text s = (Inr (ok_or_exists e), s')"
    using assms(2) call by (simp add: add_tun_address_def bindIO_def liftE_def row_def)
  ultimately show ?thesis using that by blast
qed

lemma add_route_view:
  assumes "windows_laws W view" "ipv4_to_net_order_u32 I hop_text = Inr hop" "(luid, 0, 0, hop) \<notin> mc_routes (view s)"
  obtains ok s' where "add_default_route I W luid hop_text s = (Inr ok, s')"
    "view s' = (if ok then (view s)\<lparr>mc_routes := insert (luid, 0, 0, hop) (mc_routes (view s))\<rparr> else view s)"
proof -
  define row where "row = (wn_init_route W)\<lparr>fr_luid := luid, fr_prefix := 0, fr_prefix_length := 0, fr_next_hop := hop,
      fr_metric := 1, fr_protocol := MIB_IPPROTO_NETMGMT\<rparr>"
  obtain e s' where call: "wn_create_route W row s = (e, s')" by fastforce
  have "if e = NO_ERROR then view s' = (view s)\<lparr>mc_routes := insert (route_key row) (mc_routes (view s))\<rparr>
      else view s' = view s \<and> (e = ERROR_OBJECT_ALREADY_EXISTS \<longrightarrow> route_key row \<in> mc_routes (view s))"
    using assms(1) [unfolded windows_laws_def, THEN conjunct2, THEN conjunct2, THEN conjunct1, THEN spec, THEN spec, of row s] unfolding call by simp
  moreover have "route_key row = (luid, 0, 0, hop)" by (simp add: route_key_def row_def)
  ultimately have "view s' = (if ok_or_exists e then (view s)\<lparr>mc_routes := insert (luid, 0, 0, hop) (mc_routes (view s))\<rparr> else view s)"
    using assms(3) by (auto simp: ok_or_exists_def split: if_splits)
  moreover have "add_default_route I W luid hop_text s = (Inr (ok_or_exists e), s')"
    using assms(2) call by (simp add: add_default_route_def bindIO_def liftE_def row_def)
  ultimately show ?thesis using that by blast
qed

lemma delete_address_view:
  assumes "windows_laws W view" "ipv4_to_net_order_u32 I ip_text = Inr ip"
  obtains s' where "delete_tun_address I W luid ip_text s = (Inr True, s')"
    "view s' = (view s)\<lparr>mc_addresses := mc_addresses (view s) - {(luid, ip)}\<rparr>"
proof -
  define row where "row = (wn_init_address W)\<lparr>ua_luid := luid, ua_address := ip\<rparr>"
  obtain e s' where call: "wn_delete_address W row s = (e, s')" by fastforce
  have "(e = NO_ERROR \<or> e = ERROR_NOT_FOUND) \<and> view s' = (view s)\<lparr>mc_addresses := mc_addresses (view s) - {address_key row}\<rparr>"
    using assms(1) [unfolded windows_laws_def, THEN conjunct2, THEN conjunct1, THEN spec, THEN spec, of s row] unfolding call by simp
  then show ?thesis
    using that assms(2) call by (auto simp: delete_tun_address_def bindIO_def liftE_def row_def address_key_def)
qed

lemma delete_route_view:
  assumes "windows_laws W view" "ipv4_to_net_order_u32 I hop_text = Inr hop"
  obtains s' where "delete_default_route I W luid hop_text s = (Inr True, s')"
    "view s' = (view s)\<lparr>mc_routes := mc_routes (view s) - {(luid, 0, 0, hop)}\<rparr>"
proof -
  define row where "row = (wn_init_route W)\<lparr>fr_luid := luid, fr_prefix := 0, fr_prefix_length := 0, fr_next_hop := hop\<rparr>"
  obtain e s' where call: "wn_delete_route W row s = (e, s')" by fastforce
  have "(e = NO_ERROR \<or> e = ERROR_NOT_FOUND) \<and> view s' = (view s)\<lparr>mc_routes := mc_routes (view s) - {route_key row}\<rparr>"
    using assms(1) [unfolded windows_laws_def, THEN conjunct2, THEN conjunct2, THEN conjunct2, THEN spec, THEN spec, of s row] unfolding call by simp
  then show ?thesis
    using that assms(2) call by (auto simp: delete_default_route_def bindIO_def liftE_def row_def route_key_def)
qed

lemma unused_luidD:
  assumes "unused_luid m luid"
  shows "(luid, x) \<notin> mc_addresses m" "(luid, y) \<notin> mc_routes m"
  using assms by (force simp: unused_luid_def)+

lemma configure_view:
  assumes "windows_laws W view" "ipv4_to_net_order_u32 I ip_text = Inr ip" "ipv4_to_net_order_u32 I hop_text = Inr hop"
    and "unused_luid (view s) luid"
  obtains ok s' where "configure_tun_routes I W luid ip_text hop_text s = (Inr ok, s')"
    "view s' = (if ok then (view s)
      \<lparr>mc_addresses := insert (luid, ip) (mc_addresses (view s)), mc_routes := insert (luid, 0, 0, hop) (mc_routes (view s))\<rparr>
    else view s)"
proof -
  note unused = unused_luidD [OF assms(4)]
  obtain ok1 s1 where s1: "add_tun_address I W luid ip_text s = (Inr ok1, s1)"
    "view s1 = (if ok1 then (view s)\<lparr>mc_addresses := insert (luid, ip) (mc_addresses (view s))\<rparr> else view s)"
    by (rule add_address_view [OF assms(1,2) unused(1)])
  have "(luid, 0, 0, hop) \<notin> mc_routes (view s1)" using s1(2) unused(2) by simp
  then obtain ok2 s2 where s2: "add_default_route I W luid hop_text s1 = (Inr ok2, s2)"
    "view s2 = (if ok2 then (view s1)\<lparr>mc_routes := insert (luid, 0, 0, hop) (mc_routes (view s1))\<rparr> else view s1)"
    by (rule add_route_view [OF assms(1,3)])
  obtain s3 where s3: "delete_tun_address I W luid ip_text s2 = (Inr True, s3)"
    "view s3 = (view s2)\<lparr>mc_addresses := mc_addresses (view s2) - {(luid, ip)}\<rparr>"
    by (rule delete_address_view [OF assms(1,2)])
  note steps = s1(1) s2(1) s3(1)
  show ?thesis
  proof (cases ok1)
    case False
    then show ?thesis using that [of False s1] s1 by (simp add: configure_tun_routes_def bindIO_def retIO_def)
  next
    case True
    show ?thesis
    proof (cases ok2)
      case False
      have "view s3 = view s" using s1(2) s2(2) s3(2) True False unused(1) by simp
      then show ?thesis
        using that [of False s3] steps True False by (simp add: configure_tun_routes_def bindIO_def retIO_def)
    next
      case ok2: True
      then show ?thesis
        using that [of True s2] steps s1(2) s2(2) True by (simp add: configure_tun_routes_def bindIO_def retIO_def)
    qed
  qed
qed

lemma cleanup_view:
  assumes "windows_laws W view" "ipv4_to_net_order_u32 I ip_text = Inr ip" "ipv4_to_net_order_u32 I hop_text = Inr hop"
  obtains s' where "cleanup_tun_routes I W luid ip_text hop_text s = (Inr True, s')"
    "view s' = (view s)
      \<lparr>mc_addresses := mc_addresses (view s) - {(luid, ip)}, mc_routes := mc_routes (view s) - {(luid, 0, 0, hop)}\<rparr>"
proof -
  obtain s1 where s1: "delete_default_route I W luid hop_text s = (Inr True, s1)"
    "view s1 = (view s)\<lparr>mc_routes := mc_routes (view s) - {(luid, 0, 0, hop)}\<rparr>"
    by (rule delete_route_view [OF assms(1,3)])
  obtain s2 where s2: "delete_tun_address I W luid ip_text s1 = (Inr True, s2)"
    "view s2 = (view s1)\<lparr>mc_addresses := mc_addresses (view s1) - {(luid, ip)}\<rparr>"
    by (rule delete_address_view [OF assms(1,2)])
  show ?thesis
    using that [of s2] s1 s2 by (simp add: cleanup_tun_routes_def bindIO_def retIO_def)
qed

section \<open>What the inbound holds\<close>

text \<open>The machine with what the wrapper holds and, once it is configured, with the address and the route.\<close>

definition held :: "machine \<Rightarrow> wintun \<Rightarrow> (u64 \<times> u32 \<times> u32) option \<Rightarrow> machine" where
  "held m w net = m
     \<lparr>mc_dlls := mc_dlls m + (case wt_dll w of None \<Rightarrow> 0 | Some _ \<Rightarrow> 1),
      mc_adapters := mc_adapters m \<union> set_option (wt_adapter w),
      mc_sessions := mc_sessions m \<union> set_option (wt_session w),
      mc_addresses := mc_addresses m \<union> (case net of None \<Rightarrow> {} | Some (luid, ip, hop) \<Rightarrow> {(luid, ip)}),
      mc_routes := mc_routes m \<union> (case net of None \<Rightarrow> {} | Some (luid, ip, hop) \<Rightarrow> {(luid, 0, 0, hop)})\<rparr>"

definition wintun_ok :: "'s wintun_dll \<Rightarrow> machine \<Rightarrow> wintun \<Rightarrow> bool" where
  "wintun_ok Y m w \<longleftrightarrow>
     (wt_adapter w \<noteq> None \<or> wt_session w \<noteq> None \<longrightarrow> wt_procs w = wintun_functions) \<and>
     (\<forall>h. wt_adapter w = Some h \<longrightarrow> h \<notin> mc_adapters m \<and> unused_luid m (wd_adapter_luid Y h)) \<and>
     (\<forall>h. wt_session w = Some h \<longrightarrow> h \<notin> mc_sessions m)"

definition holds :: "'s wintun_dll \<Rightarrow> ('s \<Rightarrow> machine) \<Rightarrow> machine \<Rightarrow> u32 \<Rightarrow> u32 \<Rightarrow> tun_device \<times> 's \<Rightarrow> bool" where
  "holds Y view m ip hop = (\<lambda>(t, s).
     view s = held m (td_wintun t) (if td_routes_configured t then Some (td_luid t, ip, hop) else None) \<and>
     wintun_ok Y m (td_wintun t) \<and> \<not> td_stopping t \<and> (td_routes_configured t \<longrightarrow> unused_luid m (td_luid t)))"

lemma wintun_destroy_view:
  assumes "wintun_laws Y view" "wintun_ok Y m w" "view s = held m w None"
  shows "\<exists>s'. wintun_destroy Y w s = (Inr (), s') \<and> view s' = m"
proof -
  note laws = wintun_lawsD(2,4,6) [OF assms(1), rule_format]
  have procs: "need_proc w n = Inr ()" if "n \<in> set wintun_functions" "wt_adapter w \<noteq> None \<or> wt_session w \<noteq> None" for n
    using assms(2) that by (auto simp: need_proc_def wintun_ok_def)
  have names: "''WintunEndSession'' \<in> set wintun_functions" "''WintunCloseAdapter'' \<in> set wintun_functions"
    by (simp_all add: wintun_functions_def)
  have "\<exists>s1. wintun_end_session Y w s = (Inr (), s1) \<and> view s1 = held m (w\<lparr>wt_session := None\<rparr>) None"
    using assms(2,3) procs [OF names(1)]
    by (cases "wt_session w") (auto simp: wintun_end_session_def res_simps held_def wintun_ok_def laws)
  then obtain s1 where s1: "wintun_end_session Y w s = (Inr (), s1)" "view s1 = held m (w\<lparr>wt_session := None\<rparr>) None" by blast
  have "\<exists>s2. wintun_close_adapter Y w s1 = (Inr (), s2) \<and> view s2 = held m (w\<lparr>wt_session := None, wt_adapter := None\<rparr>) None"
    using assms(2) s1(2) procs [OF names(2)]
    by (cases "wt_adapter w") (auto simp: wintun_close_adapter_def res_simps held_def wintun_ok_def laws)
  then obtain s2 where s2: "wintun_close_adapter Y w s1 = (Inr (), s2)"
    "view s2 = held m (w\<lparr>wt_session := None, wt_adapter := None\<rparr>) None" by blast
  have "\<exists>s3. wintun_free_library Y w s2 = (Inr (), s3) \<and> view s3 = m"
    using s2(2) by (cases "wt_dll w") (auto simp: wintun_free_library_def res_simps held_def laws)
  then show ?thesis using s1(1) s2(1) by (auto simp: wintun_destroy_def bindIO_def)
qed

lemma device_destroy_view:
  assumes "wintun_laws Y view" "windows_laws W view" "acceptor_laws A view"
    and "holds Y view m ip hop (t, s)"
    and texts: "td_routes_configured t \<Longrightarrow> ipv4_to_net_order_u32 I (ti_tun_ip config) = Inr ip"
      "td_routes_configured t \<Longrightarrow> ipv4_to_net_order_u32 I (ti_tun_next_ip config) = Inr hop"
  shows "\<exists>s'. device_destroy I W Y A config (t, s) = (Inr (), s') \<and> view s' = m"
proof -
  have close: "view (ap_close A s) = view s" using assms(3) by (simp add: acceptor_laws_def)
  have run: "\<not> td_stopping t" "wintun_ok Y m (td_wintun t)"
    "view s = held m (td_wintun t) (if td_routes_configured t then Some (td_luid t, ip, hop) else None)"
    "td_routes_configured t \<longrightarrow> unused_luid m (td_luid t)"
    using assms(4) by (simp_all add: holds_def)
  show ?thesis
  proof (cases "td_routes_configured t")
    case True
    obtain s1 where s1: "cleanup_tun_routes I W (td_luid t) (ti_tun_ip config) (ti_tun_next_ip config) (ap_close A s) = (Inr True, s1)"
      "view s1 = (view (ap_close A s))\<lparr>mc_addresses := mc_addresses (view (ap_close A s)) - {(td_luid t, ip)},
         mc_routes := mc_routes (view (ap_close A s)) - {(td_luid t, 0, 0, hop)}\<rparr>"
      by (rule cleanup_view [OF assms(2) texts [OF True]])
    have "view s1 = held m (td_wintun t) None"
      using s1(2) close run True unused_luidD [of m "td_luid t"] by (auto simp: held_def)
    from wintun_destroy_view [OF assms(1) run(2) this] show ?thesis
      using run(1) True s1(1)
      by (simp add: device_destroy_def device_stop_def bindIO_def on_system_def change_def Let_def)
  next
    case False
    have "view (ap_close A s) = held m (td_wintun t) None" using close run(3) False by simp
    from wintun_destroy_view [OF assms(1) run(2) this] show ?thesis
      using run(1) False
      by (simp add: device_destroy_def device_stop_def bindIO_def retIO_def change_def Let_def)
  qed
qed

section \<open>The steps of the start\<close>

text \<open>What holds between the steps; an exception at any of them leaves \<open>holds\<close>.\<close>

fun wintun_stage :: "nat \<Rightarrow> wintun \<Rightarrow> bool" where
  "wintun_stage 0 w \<longleftrightarrow> w = wintun_init"
| "wintun_stage (Suc 0) w \<longleftrightarrow> wt_procs w = wintun_functions \<and> wt_adapter w = None \<and> wt_session w = None"
| "wintun_stage (Suc (Suc 0)) w \<longleftrightarrow> wt_procs w = wintun_functions \<and> wt_adapter w \<noteq> None \<and> wt_session w = None"
| "wintun_stage n w \<longleftrightarrow> wt_adapter w \<noteq> None"

definition at_stage :: "nat \<Rightarrow> 's wintun_dll \<Rightarrow> ('s \<Rightarrow> machine) \<Rightarrow> machine \<Rightarrow> u32 \<Rightarrow> u32 \<Rightarrow> tun_device \<times> 's \<Rightarrow> bool" where
  "at_stage n Y view m ip hop = (\<lambda>(t, s).
     holds Y view m ip hop (t, s) \<and> \<not> td_routes_configured t \<and> wintun_stage n (td_wintun t) \<and>
     (n = 4 \<longrightarrow> (\<exists>h. wt_adapter (td_wintun t) = Some h \<and> td_luid t = wd_adapter_luid Y h)))"

lemma at_stage_holds: "at_stage n Y view m ip hop st \<Longrightarrow> holds Y view m ip hop st"
  by (auto simp: at_stage_def)

lemma load_step:
  assumes "wintun_laws Y view"
  shows "triple (at_stage 0 Y view m ip hop) (check msg (on_wintun (wintun_load Y)))
    (\<lambda>_. at_stage 1 Y view m ip hop) (holds Y view m ip hop)"
proof -
  note law = wintun_lawsD(1) [OF assms, THEN spec, THEN spec]
  show ?thesis
  proof (intro triple_check tripleI)
    fix st ok st' assume "at_stage 0 Y view m ip hop st" "on_wintun (wintun_load Y) st = (Inr ok, st')"
    then show "if ok then at_stage 1 Y view m ip hop st' else holds Y view m ip hop st'"
      using law [of "snd st" "''wintun.dll''"]
      by (auto simp: at_stage_def holds_def held_def on_wintun_def wintun_load_def wintun_ok_def wintun_init_def Let_def
          split: prod.splits option.splits)
  next
    fix st e st' assume "on_wintun (wintun_load Y) st = (Inl e, st')"
    then show "holds Y view m ip hop st'"
      by (auto simp: on_wintun_def wintun_load_def Let_def split: prod.splits option.splits)
  qed
qed

lemma adapter_step:
  assumes "wintun_laws Y view"
  shows "triple (at_stage 1 Y view m ip hop) (check msg (on_wintun (wintun_open_adapter Y name)))
    (\<lambda>_. at_stage 2 Y view m ip hop) (holds Y view m ip hop)"
proof -
  note law = wintun_lawsD(3) [OF assms, THEN spec, THEN spec, THEN spec]
  show ?thesis
  proof (intro triple_check tripleI)
    fix st ok st' assume "at_stage 1 Y view m ip hop st" "on_wintun (wintun_open_adapter Y name) st = (Inr ok, st')"
    then show "if ok then at_stage 2 Y view m ip hop st' else holds Y view m ip hop st'"
      using law [of "snd st" name "''Wintun''"]
      by (auto simp: at_stage_def holds_def held_def on_wintun_def wintun_open_adapter_def wintun_ok_def
          numeral_2_eq_2 split: prod.splits option.splits sum.splits)
  next
    fix st e st' assume "at_stage 1 Y view m ip hop st" "on_wintun (wintun_open_adapter Y name) st = (Inl e, st')"
    then show "holds Y view m ip hop st'"
      by (auto simp: at_stage_def on_wintun_def wintun_open_adapter_def split: prod.splits sum.splits)
  qed
qed

lemma session_step:
  assumes "wintun_laws Y view"
  shows "triple (at_stage 2 Y view m ip hop) (check msg (on_wintun (wintun_start_session Y capacity)))
    (\<lambda>_. at_stage 3 Y view m ip hop) (holds Y view m ip hop)"
proof -
  note law = wintun_lawsD(5) [OF assms, THEN spec, THEN spec, THEN spec]
  show ?thesis
  proof (intro triple_check tripleI)
    fix st ok st' assume "at_stage 2 Y view m ip hop st" "on_wintun (wintun_start_session Y capacity) st = (Inr ok, st')"
    then show "if ok then at_stage 3 Y view m ip hop st' else holds Y view m ip hop st'"
      using law [of "snd st" "the (wt_adapter (td_wintun (fst st)))" capacity]
      by (auto simp: at_stage_def holds_def held_def on_wintun_def wintun_start_session_def wintun_ok_def need_handle_def
          bindE_eq_Inr numeral_2_eq_2 numeral_3_eq_3 split: prod.splits option.splits sum.splits)
  next
    fix st e st' assume "at_stage 2 Y view m ip hop st" "on_wintun (wintun_start_session Y capacity) st = (Inl e, st')"
    then show "holds Y view m ip hop st'"
      by (auto simp: at_stage_def on_wintun_def wintun_start_session_def split: prod.splits sum.splits)
  qed
qed

lemma luid_step:
  "triple (at_stage 3 Y view m ip hop) (check msg (take_luid Y)) (\<lambda>_. at_stage 4 Y view m ip hop) (holds Y view m ip hop)"
  by (intro triple_check tripleI)
    (auto simp: at_stage_def holds_def take_luid_def wintun_adapter_luid_def numeral_3_eq_3 eval_nat_numeral
      split: prod.splits option.splits if_splits)

lemma routes_step:
  assumes "windows_laws W view" "ipv4_to_net_order_u32 I (ti_tun_ip config) = Inr ip"
    "ipv4_to_net_order_u32 I (ti_tun_next_ip config) = Inr hop"
  shows "triple (at_stage 4 Y view m ip hop) (check msg (take_routes I W config))
    (\<lambda>_ (t, s). holds Y view m ip hop (t\<lparr>td_routes_configured := True\<rparr>, s)) (holds Y view m ip hop)"
proof (intro triple_check tripleI)
  fix st assume st: "at_stage 4 Y view m ip hop st"
  obtain t s where ts: "st = (t, s)" by fastforce
  have old: "view s = held m (td_wintun t) None" "wintun_ok Y m (td_wintun t)" "\<not> td_stopping t" "\<not> td_routes_configured t"
    using st by (simp_all add: ts at_stage_def holds_def)
  obtain h where "wt_adapter (td_wintun t) = Some h" "td_luid t = wd_adapter_luid Y h"
    using st by (auto simp: ts at_stage_def)
  then have unused: "unused_luid m (td_luid t)" using old(2) by (simp add: wintun_ok_def)
  then have "unused_luid (view s) (td_luid t)" by (simp add: old(1) held_def unused_luid_def)
  then obtain ok s' where run: "configure_tun_routes I W (td_luid t) (ti_tun_ip config) (ti_tun_next_ip config) s = (Inr ok, s')"
    "view s' = (if ok then (view s)
      \<lparr>mc_addresses := insert (td_luid t, ip) (mc_addresses (view s)), mc_routes := insert (td_luid t, 0, 0, hop) (mc_routes (view s))\<rparr>
      else view s)" by (rule configure_view [OF assms])
  have step: "take_routes I W config st = (Inr ok, (t, s'))" by (simp add: ts take_routes_def on_system_def run(1))
  {
    fix ok2 st' assume "take_routes I W config st = (Inr ok2, st')"
    then show "if ok2 then (case st' of (t, s) \<Rightarrow> holds Y view m ip hop (t\<lparr>td_routes_configured := True\<rparr>, s)) else holds Y view m ip hop st'"
      using step run(2) old unused by (auto simp: holds_def held_def)
  }
  {
    fix e st' assume "take_routes I W config st = (Inl e, st')"
    then show "holds Y view m ip hop st'" using step by simp
  }
qed

definition set_up :: "'s wintun_dll \<Rightarrow> ('s \<Rightarrow> machine) \<Rightarrow> machine \<Rightarrow> u32 \<Rightarrow> u32 \<Rightarrow> tun_device \<times> 's \<Rightarrow> bool" where
  "set_up Y view m ip hop st \<longleftrightarrow> holds Y view m ip hop st \<and> td_routes_configured (fst st)"

lemma stage_step:
  assumes "\<And>s. view (snd (f s)) = view s"
  shows "triple (set_up Y view m ip hop) (stage name f) (\<lambda>_. set_up Y view m ip hop) (set_up Y view m ip hop)"
proof (rule tripleI)
  fix st x st' assume st: "set_up Y view m ip hop st" and run: "stage name f st = (Inr x, st')"
  then show "set_up Y view m ip hop st'"
    using assms [of "snd st"] by (auto simp: set_up_def holds_def stage_def on_system_def split: prod.splits option.splits)
next
  fix st e st' assume st: "set_up Y view m ip hop st" and run: "stage name f st = (Inl e, st')"
  then show "set_up Y view m ip hop st'"
    using assms [of "snd st"] by (auto simp: set_up_def holds_def stage_def on_system_def split: prod.splits option.splits)
qed

lemma listen_step:
  assumes "acceptor_laws A view"
  shows "triple (set_up Y view m ip hop) (tun_listen A a) (\<lambda>_. set_up Y view m ip hop) (set_up Y view m ip hop)"
proof -
  have port: "triple (set_up Y view m ip hop) (on_system (\<lambda>s. (case ap_local_port A s of
         Inl e \<Rightarrow> Inl (RuntimeError (''tun acceptor local_endpoint failed: '' @ e)) | Inr port \<Rightarrow> Inr port, s)))
      (\<lambda>_. set_up Y view m ip hop) (set_up Y view m ip hop)"
    by (rule tripleI) (auto simp: on_system_def split: prod.splits)
  have open_flag: "triple (set_up Y view m ip hop) (change (td_acceptor_open_update (\<lambda>_. True)))
      (\<lambda>_. set_up Y view m ip hop) (set_up Y view m ip hop)"
    by (rule triple_change) (simp add: set_up_def holds_def)
  show ?thesis
    unfolding tun_listen_def
    by (intro triple_bind [where Q = "\<lambda>_. set_up Y view m ip hop"] stage_step port open_flag)
      (use assms in \<open>simp_all add: acceptor_laws_def\<close>)
qed

section \<open>The whole life\<close>

lemma triple_weaken:
  assumes "triple P m Q R" "\<And>st. P' st \<Longrightarrow> P st" "\<And>x st. Q x st \<Longrightarrow> Q' x st" "\<And>st. R st \<Longrightarrow> R' st"
  shows "triple P' m Q' R'"
  by (rule tripleI) (use assms(2-4) tripleD [OF assms(1)] in blast)+

lemma start_triple:
  assumes laws: "wintun_laws Y view" "windows_laws W view" "acceptor_laws A view"
    and texts: "ipv4_to_net_order_u32 I (ti_tun_ip config) = Inr ip" "ipv4_to_net_order_u32 I (ti_tun_next_ip config) = Inr hop"
  shows "triple (at_stage 0 Y view m ip hop) (tun_start I W Y A config)
    (\<lambda>r st. set_up Y view m ip hop st \<and> td_thread (fst st) \<and> (\<exists>port. r = tun_init ip hop port)) (holds Y view m ip hop)"
proof -
  have flag: "triple (\<lambda>(t, s). holds Y view m ip hop (t\<lparr>td_routes_configured := True\<rparr>, s))
      (change (td_routes_configured_update (\<lambda>_. True))) (\<lambda>_. set_up Y view m ip hop) (holds Y view m ip hop)"
    by (rule triple_change) (simp add: set_up_def)
  have listen: "triple (set_up Y view m ip hop) (tun_listen A ip) (\<lambda>_. set_up Y view m ip hop) (holds Y view m ip hop)"
    by (rule triple_weaken [OF listen_step [OF laws(3)]]) (auto simp: set_up_def)
  have thread: "triple (set_up Y view m ip hop) (change (td_thread_update (\<lambda>_. True)))
      (\<lambda>_ st. set_up Y view m ip hop st \<and> td_thread (fst st)) (holds Y view m ip hop)"
    by (rule triple_change) (simp add: set_up_def holds_def)
  have result: "triple (\<lambda>st. set_up Y view m ip hop st \<and> td_thread (fst st)) (retIO (tun_init ip hop port))
      (\<lambda>r st. set_up Y view m ip hop st \<and> td_thread (fst st) \<and> (\<exists>port. r = tun_init ip hop port)) (holds Y view m ip hop)" for port
    by (rule triple_ret) auto
  have "tun_start I W Y A config =
     bindIO (check ''failed to load wintun.dll'' (on_wintun (wintun_load Y))) (\<lambda>_.
     bindIO (check ''failed to open wintun adapter'' (on_wintun (wintun_open_adapter Y ''cppboxTun''))) (\<lambda>_.
     bindIO (check ''failed to start wintun session'' (on_wintun (wintun_start_session Y 0x800000))) (\<lambda>_.
     bindIO (check ''failed to get wintun adapter luid'' (take_luid Y)) (\<lambda>_.
     bindIO (check ''failed to configure tun routes'' (take_routes I W config)) (\<lambda>_.
     bindIO (change (td_routes_configured_update (\<lambda>_. True))) (\<lambda>_.
     bindIO (tun_listen A ip) (\<lambda>port.
     bindIO (change (td_thread_update (\<lambda>_. True))) (\<lambda>_.
     retIO (tun_init ip hop port)))))))))"
    unfolding tun_start_def texts by (simp add: bindIO_def liftE_def)
  then show ?thesis
    by (simp only:) (rule triple_bind load_step [OF laws(1)] adapter_step [OF laws(1)] session_step [OF laws(1)] luid_step
        routes_step [OF laws(2) texts] flag listen thread result)+
qed

text \<open>The texts of the addresses are read first: if one is malformed, nothing has been taken.\<close>

lemma start_malformed:
  assumes "ipv4_to_net_order_u32 I (ti_tun_ip config) = Inl e \<or> ipv4_to_net_order_u32 I (ti_tun_next_ip config) = Inl e"
    and "tun_start I W Y A config (t, s) = (r, c)"
  shows "\<exists>e. r = Inl e \<and> c = (t, s)"
proof (cases "ipv4_to_net_order_u32 I (ti_tun_ip config)")
  case (Inl e')
  then show ?thesis using assms(2) by (auto simp: tun_start_def bindIO_def liftE_def)
next
  case (Inr ip)
  then have "ipv4_to_net_order_u32 I (ti_tun_next_ip config) = Inl e" using assms(1) by simp
  then show ?thesis using assms(2) Inr by (auto simp: tun_start_def bindIO_def liftE_def)
qed

lemma init_stage: "at_stage 0 Y view (view s) ip hop (device_init, s)"
  by (simp add: at_stage_def holds_def held_def device_init_def wintun_init_def wintun_ok_def)

lemma start_outcome:
  assumes "wintun_laws Y view" "windows_laws W view" "acceptor_laws A view"
    and "tun_start I W Y A config (device_init, s) = (r, (t1, s1))"
  obtains (malformed) e where "r = Inl e" "t1 = device_init" "s1 = s"
  | (run) ip hop where "ipv4_to_net_order_u32 I (ti_tun_ip config) = Inr ip" "ipv4_to_net_order_u32 I (ti_tun_next_ip config) = Inr hop"
      "holds Y view (view s) ip hop (t1, s1)"
      "\<And>st. r = Inr st \<Longrightarrow> td_routes_configured t1 \<and> td_thread t1 \<and> tun_ip st = ip \<and> tun_next_ip st = hop"
proof (cases "\<exists>e. ipv4_to_net_order_u32 I (ti_tun_ip config) = Inl e \<or> ipv4_to_net_order_u32 I (ti_tun_next_ip config) = Inl e")
  case True
  then obtain e where "ipv4_to_net_order_u32 I (ti_tun_ip config) = Inl e \<or> ipv4_to_net_order_u32 I (ti_tun_next_ip config) = Inl e" by blast
  from start_malformed [OF this assms(4)] show ?thesis using malformed by auto
next
  case False
  obtain ip hop where texts: "ipv4_to_net_order_u32 I (ti_tun_ip config) = Inr ip"
    "ipv4_to_net_order_u32 I (ti_tun_next_ip config) = Inr hop"
    using False by (metis sum.exhaust)
  note start = tripleD [OF start_triple [OF assms(1-3) texts] init_stage]
  show ?thesis
  proof (cases r)
    case (Inl e)
    then show ?thesis using run [OF texts] start(2) assms(4) by simp
  next
    case (Inr st)
    then have "set_up Y view (view s) ip hop (t1, s1)" "td_thread t1" "\<exists>port. st = tun_init ip hop port"
      using start(1) assms(4) by auto
    then show ?thesis using run [OF texts] Inr by (auto simp: set_up_def tun_init_def)
  qed
qed

text \<open>
  C15: whatever step of the start fails, and also when it succeeds, the destructor gives back all that
  the inbound took: the library, the adapter, the session, the address and the route. After a
  start that succeeds the address and the default route are set and the packet thread runs. A start
  that fails after it has set the route leaves the route in place until the destructor.
\<close>

theorem tun_start_gives_back:
  assumes "wintun_laws Y view" "windows_laws W view" "acceptor_laws A view"
    and "tun_start I W Y A config (device_init, s) = (r, (t1, s1))"
  shows "(\<exists>s2. device_destroy I W Y A config (t1, s1) = (Inr (), s2) \<and> view s2 = view s) \<and>
    (\<forall>st. r = Inr st \<longrightarrow> td_thread t1 \<and> (td_luid t1, tun_ip st) \<in> mc_addresses (view s1) \<and>
       (td_luid t1, 0, 0, tun_next_ip st) \<in> mc_routes (view s1)) \<and>
    (mc_routes (view s1) \<noteq> mc_routes (view s) \<longleftrightarrow> td_routes_configured t1)"
  using assms
proof (cases rule: start_outcome)
  case malformed
  then have "holds Y view (view s) 0 0 (t1, s1)" "\<not> td_routes_configured t1"
    by (simp_all add: holds_def held_def device_init_def wintun_init_def wintun_ok_def)
  then show ?thesis using device_destroy_view [OF assms(1-3), of "view s" 0 0 t1 s1] malformed by auto
next
  case (run ip hop)
  have view: "view s1 = held (view s) (td_wintun t1) (if td_routes_configured t1 then Some (td_luid t1, ip, hop) else None)"
    "td_routes_configured t1 \<Longrightarrow> (td_luid t1, 0, 0, hop) \<notin> mc_routes (view s)"
    using run(3) unused_luidD(2) by (auto simp: holds_def)
  have "\<exists>s2. device_destroy I W Y A config (t1, s1) = (Inr (), s2) \<and> view s2 = view s"
    by (rule device_destroy_view [OF assms(1-3) run(3)]) (use run(1,2) in simp_all)
  moreover have "td_thread t1 \<and> (td_luid t1, tun_ip st) \<in> mc_addresses (view s1) \<and>
       (td_luid t1, 0, 0, tun_next_ip st) \<in> mc_routes (view s1)" if "r = Inr st" for st
    using run(4) [OF that] view(1) by (simp add: held_def)
  moreover have "mc_routes (view s1) \<noteq> mc_routes (view s) \<longleftrightarrow> td_routes_configured t1"
    using view by (auto simp: held_def)
  ultimately show ?thesis by blast
qed

text \<open>A machine on which every call succeeds, except that the acceptor cannot be bound.\<close>

definition sample_windows :: "machine windows" where
  "sample_windows =
     \<lparr>wn_init_address = \<lparr>ua_luid = 0, ua_address = 0, ua_prefix_length = 255, ua_manual = False\<rparr>,
      wn_create_address = (\<lambda>r m. (0, m\<lparr>mc_addresses := insert (address_key r) (mc_addresses m)\<rparr>)),
      wn_delete_address = (\<lambda>r m. (0, m\<lparr>mc_addresses := mc_addresses m - {address_key r}\<rparr>)),
      wn_init_route = \<lparr>fr_luid = 0, fr_index = 0, fr_prefix = 0, fr_prefix_length = 0, fr_next_hop = 0, fr_metric = 0, fr_protocol = 0\<rparr>,
      wn_create_route = (\<lambda>r m. (0, m\<lparr>mc_routes := insert (route_key r) (mc_routes m)\<rparr>)),
      wn_delete_route = (\<lambda>r m. (0, m\<lparr>mc_routes := mc_routes m - {route_key r}\<rparr>)),
      wn_forward_table = (\<lambda>m. (0, [])), wn_interface_metric = (\<lambda>l m. (0, 0))\<rparr>"

definition sample_wintun :: "machine wintun_dll" where
  "sample_wintun =
     \<lparr>wd_load_library = (\<lambda>n m. (Some 1, m\<lparr>mc_dlls := Suc (mc_dlls m)\<rparr>)),
      wd_free_library = (\<lambda>h m. m\<lparr>mc_dlls := mc_dlls m - 1\<rparr>), wd_get_proc = (\<lambda>h n. True),
      wd_create_adapter = (\<lambda>n k m. if 7 \<in> mc_adapters m \<or> \<not> unused_luid m 70 then (None, m)
        else (Some 7, m\<lparr>mc_adapters := insert 7 (mc_adapters m)\<rparr>)),
      wd_close_adapter = (\<lambda>h m. m\<lparr>mc_adapters := mc_adapters m - {h}\<rparr>), wd_adapter_luid = (\<lambda>h. 70),
      wd_start_session = (\<lambda>a k m. if 8 \<in> mc_sessions m then (None, m) else (Some 8, m\<lparr>mc_sessions := insert 8 (mc_sessions m)\<rparr>)),
      wd_end_session = (\<lambda>h m. m\<lparr>mc_sessions := mc_sessions m - {h}\<rparr>),
      wd_receive_packet = (\<lambda>h m. (None, m)), wd_release_packet = (\<lambda>h p m. m),
      wd_allocate_packet = (\<lambda>h k m. (None, m)), wd_send_packet = (\<lambda>h p d m. m), wd_read_wait_event = (\<lambda>h. h)\<rparr>"

definition sample_acceptor :: "machine acceptor_calls" where
  "sample_acceptor =
     \<lparr>ap_open = (\<lambda>m. (None, m)), ap_reuse_address = (\<lambda>m. (None, m)), ap_bind = (\<lambda>a p m. (Some ''in use'', m)),
      ap_listen = (\<lambda>m. (None, m)), ap_local_port = (\<lambda>m. Inr 5000), ap_close = (\<lambda>m. m)\<rparr>"

definition empty_machine :: machine where
  "empty_machine = \<lparr>mc_dlls = 0, mc_adapters = {}, mc_sessions = {}, mc_addresses = {}, mc_routes = {}\<rparr>"

lemma sample_laws:
  "wintun_laws sample_wintun (\<lambda>m. m)" "windows_laws sample_windows (\<lambda>m. m)" "acceptor_laws sample_acceptor (\<lambda>m. m)"
  by (auto simp: wintun_laws_def sample_wintun_def windows_laws_def sample_windows_def NO_ERROR_def acceptor_laws_def
      sample_acceptor_def)

definition sample_tun :: tun_inbound_config where
  "sample_tun = \<lparr>ti_tun_ip = ''10.0.0.2'', ti_tun_next_ip = ''10.0.0.1''\<rparr>"

lemma sample_texts:
  "\<exists>ip. ipv4_to_net_order_u32 ref_ip (ti_tun_ip sample_tun) = Inr ip"
  "\<exists>hop. ipv4_to_net_order_u32 ref_ip (ti_tun_next_ip sample_tun) = Inr hop"
proof -
  have "parse_quad ''10.0.0.2'' \<noteq> None" "parse_quad ''10.0.0.1'' \<noteq> None" by code_simp+
  then show "\<exists>ip. ipv4_to_net_order_u32 ref_ip (ti_tun_ip sample_tun) = Inr ip"
    "\<exists>hop. ipv4_to_net_order_u32 ref_ip (ti_tun_next_ip sample_tun) = Inr hop"
    by (auto simp: ipv4_to_net_order_u32_def make_address_v4_throw_def sample_tun_def Let_def)
qed

lemma sample_start:
  "\<exists>e t1 s1. tun_start ref_ip sample_windows sample_wintun sample_acceptor sample_tun (device_init, empty_machine) = (Inl e, (t1, s1)) \<and>
     td_routes_configured t1"
proof -
  obtain ip hop where texts: "ipv4_to_net_order_u32 ref_ip (ti_tun_ip sample_tun) = Inr ip"
    "ipv4_to_net_order_u32 ref_ip (ti_tun_next_ip sample_tun) = Inr hop" using sample_texts by blast
  have procs: "''WintunCreateAdapter'' \<in> set wintun_functions" "''WintunStartSession'' \<in> set wintun_functions"
    "''WintunGetAdapterLUID'' \<in> set wintun_functions" by (simp_all add: wintun_functions_def)
  show ?thesis
    unfolding tun_start_def texts
    by (simp add: bindIO_def liftE_def wintun_load_def Let_def check_def on_wintun_def wintun_open_adapter_def wintun_start_session_def need_proc_def procs
        need_handle_def device_init_def wintun_init_def empty_machine_def sample_wintun_def unused_luid_def require_def
        take_luid_def wintun_adapter_luid_def take_routes_def on_system_def configure_tun_routes_def add_tun_address_def
        add_default_route_def texts sample_windows_def ok_or_exists_def NO_ERROR_def retIO_def change_def tun_listen_def stage_def
        sample_acceptor_def)
qed

theorem tun_start_gives_back_witness:
  "\<exists>e t1 s1 s2. tun_start ref_ip sample_windows sample_wintun sample_acceptor sample_tun (device_init, empty_machine) = (Inl e, (t1, s1)) \<and>
     mc_routes s1 \<noteq> mc_routes empty_machine \<and>
     device_destroy ref_ip sample_windows sample_wintun sample_acceptor sample_tun (t1, s1) = (Inr (), s2) \<and> s2 = empty_machine"
proof -
  obtain e t1 s1 where run: "tun_start ref_ip sample_windows sample_wintun sample_acceptor sample_tun (device_init, empty_machine) = (Inl e, (t1, s1))"
    "td_routes_configured t1" using sample_start by blast
  show ?thesis using tun_start_gives_back [OF sample_laws run(1)] run by blast
qed

end
