(* ===== verification/Tun_Packets.thy ===== *)
theory Tun_Packets
  imports Wintun Tun_Properties
begin

text \<open>
  The packet thread of the TUN inbound: \<open>TunInbound::packet_loop\<close> on the calls of the adapter. The
  other thread is seen through the atomic flag \<open>stopping_\<close>, which the loop reads from the state of
  the program; what it does to the other shared members between two rounds is the subject of
  \<open>tun_step\<close>.
\<close>

section \<open>The loop\<close>

text \<open>
  What the loop uses besides the driver: the flag, the bytes of a received buffer, Windows' last
  error and the wait for an event.
\<close>

record 's packet_calls =
  pk_stopping :: "'s \<Rightarrow> bool"
  pk_bytes :: "nat \<Rightarrow> u32 \<Rightarrow> 's \<Rightarrow> bytes"
  pk_last_error :: "'s \<Rightarrow> u32"
  pk_wait :: "nat \<Rightarrow> 's \<Rightarrow> 's"

definition ERROR_HANDLE_EOF :: u32 where "ERROR_HANDLE_EOF = 38"
definition ERROR_NO_MORE_ITEMS :: u32 where "ERROR_NO_MORE_ITEMS = 259"

text \<open>One received buffer: it is written back if the handler says so, and then released.\<close>

definition packet_done :: "'s wintun_dll \<Rightarrow> nat \<times> u32 \<Rightarrow> bool \<Rightarrow> bytes \<Rightarrow> (wintun \<times> 's, unit) io" where
  "packet_done Y buffer write packet =
     bindIO (if write then wintun_write Y packet else retIO False) (\<lambda>_. wintun_release Y (Some buffer))"

text \<open>
  The end of the loop is an end of the adapter, an error, or the flag; only a message in the log
  tells them apart. \<open>None\<close> is a loop that does not end.
\<close>

partial_function (option) packet_loop ::
    "'s packet_calls \<Rightarrow> 's wintun_dll \<Rightarrow> tun_inbound \<Rightarrow> wintun \<times> 's \<Rightarrow> (unit res \<times> tun_inbound \<times> wintun \<times> 's) option" where
  "packet_loop K Y st c =
     (if pk_stopping K (snd c) then Some (Inr (), st, c)
      else case wintun_receive Y c of
        (Inl e, c1) \<Rightarrow> Some (Inl e, st, c1)
      | (Inr (Some buffer), c1) \<Rightarrow>
          (case handle_ipv4_packet st (pk_bytes K (fst buffer) (snd buffer) (snd c1)) of
             None \<Rightarrow> None
           | Some (Inl e, st1) \<Rightarrow> Some (Inl e, st1, c1)
           | Some (Inr (write, packet), st1) \<Rightarrow>
               let st2 = (if write then st1\<lparr>tun_written := tun_written st1 @ [packet]\<rparr> else st1)
               in case packet_done Y buffer write packet c1 of
                    (Inl e, c2) \<Rightarrow> Some (Inl e, st2, c2)
                  | (Inr _, c2) \<Rightarrow> packet_loop K Y st2 c2)
      | (Inr None, c1) \<Rightarrow>
          (if pk_last_error K (snd c1) = ERROR_NO_MORE_ITEMS then
             (case wintun_read_wait_event Y (fst c1) of
                Inl e \<Rightarrow> Some (Inl e, st, c1)
              | Inr event \<Rightarrow> packet_loop K Y st (fst c1, pk_wait K event (snd c1)))
           else Some (Inr (), st, c1)))"

section \<open>The rounds of the loop\<close>

text \<open>The packets of a run, one round each.\<close>

fun packet_rounds :: "tun_inbound \<Rightarrow> bytes list \<Rightarrow> tun_inbound res option" where
  "packet_rounds st [] = Some (Inr st)"
| "packet_rounds st (packet # packets) =
     (case packet_round st packet of
        None \<Rightarrow> None
      | Some (Inl e) \<Rightarrow> Some (Inl e)
      | Some (Inr st1) \<Rightarrow> packet_rounds st1 packets)"

text \<open>
  What the driver and Windows do, as seen by the loop: \<open>ring s\<close> are the arrivals to come, a buffer
  with its bytes or a time without packets; \<open>sent s\<close> the packets sent and \<open>freed s\<close> the buffers given
  back. After the last arrival the adapter ends or the flag is set. There is \<open>room\<close> if a packet to
  send can always be allocated.
\<close>

datatype arrival = Buffer "nat \<times> u32" bytes | Quiet

fun arrival_packet :: "arrival \<Rightarrow> bytes option" where
  "arrival_packet (Buffer b p) = Some p"
| "arrival_packet Quiet = None"

fun arrival_buffer :: "arrival \<Rightarrow> nat option" where
  "arrival_buffer (Buffer b p) = Some (fst b)"
| "arrival_buffer Quiet = None"

record driver_view =
  dv_ring :: "arrival list"
  dv_sent :: "bytes list"
  dv_freed :: "nat list"

definition driver_laws :: "'s packet_calls \<Rightarrow> 's wintun_dll \<Rightarrow> nat \<Rightarrow> bool \<Rightarrow> ('s \<Rightarrow> driver_view) \<Rightarrow> bool" where
  "driver_laws K Y h room view \<longleftrightarrow>
     (\<forall>s b p r. dv_ring (view s) = Buffer b p # r \<longrightarrow> \<not> pk_stopping K s \<and>
        (case wd_receive_packet Y h s of (packet, s') \<Rightarrow> packet = Some b \<and> pk_bytes K (fst b) (snd b) s' = p \<and>
           view s' = (view s)\<lparr>dv_ring := r\<rparr>)) \<and>
     (\<forall>s r. dv_ring (view s) = Quiet # r \<longrightarrow> \<not> pk_stopping K s \<and>
        (case wd_receive_packet Y h s of (packet, s') \<Rightarrow> packet = None \<and> pk_last_error K s' = ERROR_NO_MORE_ITEMS \<and>
           view (pk_wait K (wd_read_wait_event Y h) s') = (view s)\<lparr>dv_ring := r\<rparr>)) \<and>
     (\<forall>s. dv_ring (view s) = [] \<longrightarrow> pk_stopping K s \<or>
        (case wd_receive_packet Y h s of (packet, s') \<Rightarrow> packet = None \<and> pk_last_error K s' \<noteq> ERROR_NO_MORE_ITEMS \<and> view s' = view s)) \<and>
     (\<forall>n s. case wd_allocate_packet Y h n s of (a, s') \<Rightarrow> (room \<longrightarrow> a \<noteq> None) \<and> view s' = view s) \<and>
     (\<forall>a bs s. view (wd_send_packet Y h a bs s) = (view s)\<lparr>dv_sent := dv_sent (view s) @ [bs]\<rparr>) \<and>
     (\<forall>a s. view (wd_release_packet Y h a s) = (view s)\<lparr>dv_freed := dv_freed (view s) @ [a]\<rparr>)"

definition wintun_ready :: "wintun \<Rightarrow> nat \<Rightarrow> bool" where
  "wintun_ready w h \<longleftrightarrow> wt_procs w = wintun_functions \<and> wt_session w = Some h"

lemmas driver_law =
  driver_laws_def [THEN iffD1, THEN conjunct1, THEN spec, THEN spec, THEN spec, THEN spec, THEN mp]
  driver_laws_def [THEN iffD1, THEN conjunct2, THEN conjunct1, THEN spec, THEN spec, THEN mp]
  driver_laws_def [THEN iffD1, THEN conjunct2, THEN conjunct2, THEN conjunct1, THEN spec, THEN mp]
  driver_laws_def [THEN iffD1, THEN conjunct2, THEN conjunct2, THEN conjunct2, THEN conjunct1, THEN spec, THEN spec]
  driver_laws_def [THEN iffD1, THEN conjunct2, THEN conjunct2, THEN conjunct2, THEN conjunct2, THEN conjunct1, THEN spec, THEN spec, THEN spec]
  driver_laws_def [THEN iffD1, THEN conjunct2, THEN conjunct2, THEN conjunct2, THEN conjunct2, THEN conjunct2, THEN spec, THEN spec]

lemma ready_proc [simp]: "wintun_ready w h \<Longrightarrow> name \<in> set wintun_functions \<Longrightarrow> need_proc w name = Inr ()"
  by (simp add: wintun_ready_def need_proc_def)

lemma ready_session [simp]: "wintun_ready w h \<Longrightarrow> need_handle (wt_session w) = Inr h"
  by (simp add: wintun_ready_def need_handle_def)

lemma wintun_function_names [simp]:
  "''WintunReceivePacket'' \<in> set wintun_functions" "''WintunReleaseReceivePacket'' \<in> set wintun_functions"
  "''WintunAllocateSendPacket'' \<in> set wintun_functions" "''WintunSendPacket'' \<in> set wintun_functions"
  "''WintunGetReadWaitEvent'' \<in> set wintun_functions"
  by (simp_all add: wintun_functions_def)

lemma packet_done_effect:
  assumes "driver_laws K Y h room view" "wintun_ready w h"
  obtains out s' where "packet_done Y b wr p (w, s) = (Inr (), (w, s'))"
    "view s' = (view s)\<lparr>dv_sent := dv_sent (view s) @ out, dv_freed := dv_freed (view s) @ [fst b]\<rparr>"
    "subseq out (if wr then [p] else [])" "room \<longrightarrow> out = (if wr then [p] else [])"
proof (cases wr)
  case False
  then have "packet_done Y b wr p (w, s) = (Inr (), (w, wd_release_packet Y h (fst b) s))"
    using assms(2) by (cases b) (simp add: packet_done_def wintun_release_def bindIO_def retIO_def)
  with that [of _ "[]"] show ?thesis using False driver_law(6) [OF assms(1)] by simp
next
  case True
  obtain a s1 where a: "wd_allocate_packet Y h (word_of_nat (length p)) s = (a, s1)" by fastforce
  then have v1: "room \<longrightarrow> a \<noteq> None" "view s1 = view s"
    using driver_law(4) [OF assms(1), of s "word_of_nat (length p)"] by simp_all
  let ?s2 = "case a of None \<Rightarrow> s1 | Some x \<Rightarrow> wd_send_packet Y h x p s1"
  have "packet_done Y b wr p (w, s) = (Inr (), (w, wd_release_packet Y h (fst b) ?s2))"
    using assms(2) True a by (cases b) (simp add: packet_done_def wintun_write_def wintun_release_def bindIO_def split: option.split)
  moreover have "view ?s2 = (view s)\<lparr>dv_sent := dv_sent (view s) @ (if a = None then [] else [p])\<rparr>"
    using v1 driver_law(5) [OF assms(1)] by (simp split: option.split)
  ultimately show ?thesis
    using that [of _ "if a = None then [] else [p]"] True v1 driver_law(6) [OF assms(1)] by simp
qed

lemma receive_ready:
  assumes "wintun_ready w h"
  shows "wintun_receive Y (w, s) = (case wd_receive_packet Y h s of (packet, s') \<Rightarrow> (Inr packet, (w, s')))"
  using assms by (simp add: wintun_receive_def split: prod.split)

lemma packet_round_eq:
  assumes "packet_round st p = Some (Inr st2)"
  obtains wr q st1 where "handle_ipv4_packet st p = Some (Inr (wr, q), st1)"
    "st2 = (if wr then st1\<lparr>tun_written := tun_written st1 @ [q]\<rparr> else st1)"
    "tun_written st2 = tun_written st @ (if wr then [q] else [])"
proof -
  obtain wr q st1 where h: "handle_ipv4_packet st p = Some (Inr (wr, q), st1)"
    and st2: "st2 = (if wr then st1\<lparr>tun_written := tun_written st1 @ [q]\<rparr> else st1)"
    using assms unfolding packet_round_def bindE_eq_Inr map_option_eq_Some by (auto simp: bindE_eq_Inr)
  have "tun_written st2 = tun_written st @ (if wr then [q] else [])"
    using handle_written [OF h] by (simp add: st2)
  with h st2 show ?thesis by (rule that)
qed

text \<open>One turn of the loop, by what arrives.\<close>

lemma loop_buffer:
  assumes laws: "driver_laws K Y h room view" "wintun_ready w h" and ring: "dv_ring (view s) = Buffer b p # r"
    and round: "packet_round st p = Some (Inr st2)"
  obtains out wr s2 where "packet_loop K Y st (w, s) = packet_loop K Y st2 (w, s2)" "tun_written st2 = tun_written st @ wr"
    "view s2 = \<lparr>dv_ring = r, dv_sent = dv_sent (view s) @ out, dv_freed = dv_freed (view s) @ [fst b]\<rparr>"
    "subseq out wr" "room \<longrightarrow> out = wr"
proof -
  obtain s1 where recv: "wd_receive_packet Y h s = (Some b, s1)" "pk_bytes K (fst b) (snd b) s1 = p" "view s1 = (view s)\<lparr>dv_ring := r\<rparr>"
    and go: "\<not> pk_stopping K s"
    using driver_law(1) [OF laws(1) ring] by (auto split: prod.splits)
  obtain wr q st1 where h: "handle_ipv4_packet st p = Some (Inr (wr, q), st1)"
    and st2: "st2 = (if wr then st1\<lparr>tun_written := tun_written st1 @ [q]\<rparr> else st1)"
    and written: "tun_written st2 = tun_written st @ (if wr then [q] else [])" by (rule packet_round_eq [OF round])
  obtain out s2 where d: "packet_done Y b wr q (w, s1) = (Inr (), (w, s2))"
    and v: "view s2 = (view s1)\<lparr>dv_sent := dv_sent (view s1) @ out, dv_freed := dv_freed (view s1) @ [fst b]\<rparr>"
    and out: "subseq out (if wr then [q] else [])" "room \<longrightarrow> out = (if wr then [q] else [])" by (rule packet_done_effect [OF laws])
  have "packet_loop K Y st (w, s) = packet_loop K Y st2 (w, s2)"
    using go recv(1,2) h d by (subst packet_loop.simps) (simp add: receive_ready [OF laws(2)] st2)
  then show ?thesis using that [OF _ written _ out] v recv(3) by simp
qed

lemma loop_quiet:
  assumes laws: "driver_laws K Y h room view" "wintun_ready w h" and ring: "dv_ring (view s) = Quiet # r"
  obtains s2 where "packet_loop K Y st (w, s) = packet_loop K Y st (w, s2)" "view s2 = (view s)\<lparr>dv_ring := r\<rparr>"
proof -
  obtain s1 where recv: "wd_receive_packet Y h s = (None, s1)" "pk_last_error K s1 = ERROR_NO_MORE_ITEMS"
    "view (pk_wait K (wd_read_wait_event Y h) s1) = (view s)\<lparr>dv_ring := r\<rparr>" and go: "\<not> pk_stopping K s"
    using driver_law(2) [OF laws(1) ring] by (auto split: prod.splits)
  have "wintun_read_wait_event Y w = Inr (wd_read_wait_event Y h)"
    using laws(2) by (simp add: wintun_read_wait_event_def)
  then have "packet_loop K Y st (w, s) = packet_loop K Y st (w, pk_wait K (wd_read_wait_event Y h) s1)"
    using go recv(1,2) by (subst packet_loop.simps) (simp add: receive_ready [OF laws(2)])
  with recv(3) show ?thesis by (rule that [rotated])
qed

lemma loop_ends:
  assumes laws: "driver_laws K Y h room view" "wintun_ready w h" and ring: "dv_ring (view s) = []"
  obtains s2 where "packet_loop K Y st (w, s) = Some (Inr (), st, w, s2)" "view s2 = view s"
proof (cases "pk_stopping K s")
  case True
  then have "packet_loop K Y st (w, s) = Some (Inr (), st, w, s)" by (subst packet_loop.simps) simp
  with that show ?thesis by simp
next
  case False
  then obtain s1 where "wd_receive_packet Y h s = (None, s1)" "pk_last_error K s1 \<noteq> ERROR_NO_MORE_ITEMS" "view s1 = view s"
    using driver_law(3) [OF laws(1) ring] by (auto split: prod.splits)
  moreover from this False have "packet_loop K Y st (w, s) = Some (Inr (), st, w, s1)"
    by (subst packet_loop.simps) (simp add: receive_ready [OF laws(2)])
  ultimately show ?thesis using that by blast
qed

section \<open>The thread runs the rounds\<close>

text \<open>
  C12: on a running session the packet thread ends when the adapter ends or the inbound is stopped,
  and has then handled every packet that arrived, in the order of arrival and each once; it has given back
  every received buffer exactly once, in that order; and of the packets the handlers rewrote it has
  sent those for which the driver had room, in order, and all of them if it always had room.
\<close>

theorem packet_thread_rounds:
  assumes "driver_laws K Y h room view" "wintun_ready w h"
    and "packet_rounds st (List.map_filter arrival_packet (dv_ring (view s))) = Some (Inr st')"
  shows "\<exists>s' wr out. packet_loop K Y st (w, s) = Some (Inr (), st', w, s') \<and> tun_written st' = tun_written st @ wr \<and>
    view s' = \<lparr>dv_ring = [], dv_sent = dv_sent (view s) @ out,
      dv_freed = dv_freed (view s) @ List.map_filter arrival_buffer (dv_ring (view s))\<rparr> \<and>
    subseq out wr \<and> (room \<longrightarrow> out = wr)"
  using assms(3)
proof (induction "dv_ring (view s)" arbitrary: s st)
  case Nil
  obtain s2 where "packet_loop K Y st (w, s) = Some (Inr (), st, w, s2)" "view s2 = view s"
    by (rule loop_ends [OF assms(1,2) Nil(1) [symmetric]])
  then show ?case using Nil by (intro exI [of _ s2] exI [of _ "[]"]) (simp add: map_filter_simps)
next
  case (Cons a r)
  note ring = Cons(2) [symmetric]
  show ?case
  proof (cases a)
    case Quiet
    obtain s2 where loop: "packet_loop K Y st (w, s) = packet_loop K Y st (w, s2)" and v: "view s2 = (view s)\<lparr>dv_ring := r\<rparr>"
      by (rule loop_quiet [OF assms(1,2) ring [unfolded Quiet]])
    have "packet_rounds st (List.map_filter arrival_packet (dv_ring (view s2))) = Some (Inr st')"
      using Cons(3) by (simp add: ring v Quiet map_filter_simps)
    with Cons(1) [of s2] show ?thesis by (simp add: ring loop v Quiet map_filter_simps)
  next
    case (Buffer b p)
    then obtain st2 where round: "packet_round st p = Some (Inr st2)"
      and rest: "packet_rounds st2 (List.map_filter arrival_packet r) = Some (Inr st')"
      using Cons(3) by (auto simp: ring map_filter_simps split: option.splits sum.splits)
    obtain out wr s2 where loop: "packet_loop K Y st (w, s) = packet_loop K Y st2 (w, s2)" and wr: "tun_written st2 = tun_written st @ wr"
      and v: "view s2 = \<lparr>dv_ring = r, dv_sent = dv_sent (view s) @ out, dv_freed = dv_freed (view s) @ [fst b]\<rparr>"
      and out: "subseq out wr" "room \<longrightarrow> out = wr" by (rule loop_buffer [OF assms(1,2) ring [unfolded Buffer] round])
    obtain s' wr' out' where "packet_loop K Y st2 (w, s2) = Some (Inr (), st', w, s')" "tun_written st' = tun_written st2 @ wr'"
      "view s' = \<lparr>dv_ring = [], dv_sent = dv_sent (view s2) @ out', dv_freed = dv_freed (view s2) @ List.map_filter arrival_buffer r\<rparr>"
      "subseq out' wr'" "room \<longrightarrow> out' = wr'"
      using Cons(1) [of s2 st2] rest by (auto simp: v)
    then show ?thesis using out
      by (intro exI [of _ s'] exI [of _ "wr @ wr'"] exI [of _ "out @ out'"])
        (simp add: ring loop wr v Buffer map_filter_simps list_emb_append_mono)
  qed
qed

text \<open>A quiet time, a packet of an application in buffer 5, and in buffer 6 one that is not IPv4.\<close>

definition ring_calls :: "(driver_view \<times> bytes) packet_calls" where
  "ring_calls =
     \<lparr>pk_stopping = (\<lambda>s. False), pk_bytes = (\<lambda>a n s. snd s),
      pk_last_error = (\<lambda>s. if dv_ring (fst s) = [] then ERROR_HANDLE_EOF else ERROR_NO_MORE_ITEMS),
      pk_wait = (\<lambda>e (v, bs). (v\<lparr>dv_ring := tl (dv_ring v)\<rparr>, bs))\<rparr>"

definition ring_dll :: "(driver_view \<times> bytes) wintun_dll" where
  "ring_dll =
     \<lparr>wd_load_library = (\<lambda>n s. (None, s)), wd_free_library = (\<lambda>h s. s), wd_get_proc = (\<lambda>h n. True),
      wd_create_adapter = (\<lambda>n k s. (None, s)), wd_close_adapter = (\<lambda>h s. s), wd_adapter_luid = (\<lambda>h. 0),
      wd_start_session = (\<lambda>h n s. (None, s)), wd_end_session = (\<lambda>h s. s),
      wd_receive_packet = (\<lambda>h (v, bs). case dv_ring v of
          Buffer b p # r \<Rightarrow> (Some b, (v\<lparr>dv_ring := r\<rparr>, p)) | _ \<Rightarrow> (None, (v, bs))),
      wd_release_packet = (\<lambda>h a (v, bs). (v\<lparr>dv_freed := dv_freed v @ [a]\<rparr>, bs)),
      wd_allocate_packet = (\<lambda>h n s. (Some 9, s)),
      wd_send_packet = (\<lambda>h a p (v, bs). (v\<lparr>dv_sent := dv_sent v @ [p]\<rparr>, bs)),
      wd_read_wait_event = (\<lambda>h. 3)\<rparr>"

lemma ring_laws: "driver_laws ring_calls ring_dll 7 True fst"
  by (auto simp: driver_laws_def ring_calls_def ring_dll_def ERROR_NO_MORE_ITEMS_def ERROR_HANDLE_EOF_def split: list.splits arrival.splits)

lemma demo_syn_round:
  obtains st q where "packet_round demo_tun demo_syn = Some (Inr st)" "tun_written st = [q]"
proof -
  have p: "tcp_packet demo_syn 20 20" by (simp add: demo_syn_def demo_tcp_packet)
  have nat: "nat_inv (tcp_nat demo_tun)" using tun_inv_init by (simp add: demo_tun_def tun_inv_def)
  obtain r st where call: "handle_tcp_from_stack demo_tun demo_syn 20 20 demo_key = Some (r, st)"
    by (simp add: handle_tcp_from_stack_def demo_create)
  have "handle_ipv4_packet demo_tun demo_syn = Some (r, st)"
    unfolding handle_ipv4_tcp [OF p] using demo_not_relay call by (simp add: demo_flows)
  with from_stack_eq [OF p _ nat call]
  obtain q table where "handle_ipv4_packet demo_tun demo_syn = Some (Inr (True, q), demo_tun\<lparr>tcp_nat := table\<rparr>)" by auto
  then have "packet_round demo_tun demo_syn = Some (Inr (demo_tun\<lparr>tcp_nat := table, tun_written := [q]\<rparr>))"
    by (simp add: packet_round_def demo_tun_def tun_init_def)
  then show ?thesis by (rule that) simp
qed

lemma not_ipv4_round: "packet_round st [0x60] = Some (Inr st)"
  by (simp add: packet_round_def handle_ipv4_packet_def is_ipv4_packet_def)

theorem packet_thread_rounds_witness:
  "\<exists>st q s. packet_loop ring_calls ring_dll demo_tun
      (\<lparr>wt_dll = Some 1, wt_procs = wintun_functions, wt_adapter = Some 2, wt_session = Some 7\<rparr>,
       (\<lparr>dv_ring = [Quiet, Buffer (5, 40) demo_syn, Buffer (6, 1) [0x60]], dv_sent = [], dv_freed = []\<rparr>, [])) =
     Some (Inr (), st, \<lparr>wt_dll = Some 1, wt_procs = wintun_functions, wt_adapter = Some 2, wt_session = Some 7\<rparr>, s) \<and>
     dv_sent (fst s) = [q] \<and> dv_freed (fst s) = [5, 6]"
proof -
  obtain st q where round: "packet_round demo_tun demo_syn = Some (Inr st)" "tun_written st = [q]" by (rule demo_syn_round)
  let ?v = "\<lparr>dv_ring = [Quiet, Buffer (5, 40) demo_syn, Buffer (6, 1) [0x60]], dv_sent = [], dv_freed = []\<rparr>"
  let ?w = "\<lparr>wt_dll = Some 1, wt_procs = wintun_functions, wt_adapter = Some 2, wt_session = Some 7\<rparr>"
  have ready: "wintun_ready ?w 7" by (simp add: wintun_ready_def)
  have "packet_rounds demo_tun (List.map_filter arrival_packet (dv_ring (fst (?v, [] :: bytes)))) = Some (Inr st)"
    by (simp add: map_filter_simps round(1) not_ipv4_round)
  from packet_thread_rounds [OF ring_laws ready this] round(2) show ?thesis
    by (fastforce simp: map_filter_simps demo_tun_def tun_init_def)
qed

end
