(* ===== verification/Inbounds.thy ===== *)
theory Inbounds
  imports Outbound Tun_Inbound Http_Properties Socks5 Router_Properties
begin

text \<open>
  The way of a session through the program: the clients' handlers of \<open>socks5_inbound.cpp\<close>,
  \<open>http_inbound.cpp\<close>, \<open>mixed_inbound.cpp\<close> and \<open>tun_inbound.cpp\<close> under \<open>src/inbound/\<close>, and the handler
  of \<open>src/main.cpp\<close>, which asks the router for an outbound and gives the session to it.
\<close>

section \<open>The handler of a session\<close>

text \<open>
  What the outbounds use: the race of two relays, the connector, the set-up of a client stream, the
  socket of the client, the outbound socket of a direct connection, the stream to a VLESS server.
\<close>

record 's surroundings =
  en_race :: "('s \<Rightarrow> (unit res \<times> 's) option) \<Rightarrow> ('s \<Rightarrow> (unit res \<times> 's) option) \<Rightarrow> 's \<Rightarrow> (unit res \<times> 's) option"
  en_connect :: "destination \<Rightarrow> ('s, unit) io"
  en_dialer :: "'s dialer"
  en_client :: "'s raw_stream"
  en_remote :: "'s raw_stream"
  en_server :: "'s raw_stream"

fun outbound_handle :: "asio_ip \<Rightarrow> 's surroundings \<Rightarrow> outbound \<Rightarrow> session \<Rightarrow> 's \<Rightarrow> 's option" where
  "outbound_handle I E Direct ses s = direct_handle (en_race E) (en_connect E) (en_remote E) (en_client E) ses s"
| "outbound_handle I E (Vless config) ses s =
     vless_handle I (en_dialer E) (en_server E) (en_race E) config (en_client E) ses s"
| "outbound_handle I E Block ses s = Some (block_handle (en_client E) s)"

type_synonym 's handler = "session \<Rightarrow> 's \<Rightarrow> (unit res \<times> 's) option"

text \<open>
  An exception of the router leaves the handler; an unknown outbound is logged. \<open>None\<close> is an
  outbound that does not end.
\<close>

definition session_handler :: "asio_ip \<Rightarrow> router \<Rightarrow> (string \<times> outbound) list \<Rightarrow> 's surroundings \<Rightarrow> 's handler" where
  "session_handler I r table E ses s =
     (case pick_outbound I r ses of
        Inl e \<Rightarrow> Some (Inl e, s)
      | Inr tag \<Rightarrow>
          (case map_of table tag of
             None \<Rightarrow> Some (Inr (), s)
           | Some out \<Rightarrow> map_option (\<lambda>s'. (Inr (), s')) (outbound_handle I E out ses s)))"

section \<open>The handlers of the clients\<close>

text \<open>
  The three proxy inbounds read a session and hand it on; an exception closes the socket. When the
  handler raises it is the handler's own copy of the socket that is destroyed and so closed.
\<close>

definition serve :: "'s handler \<Rightarrow> ('s \<Rightarrow> 's) \<Rightarrow> ('s, session) io \<Rightarrow> 's \<Rightarrow> 's option" where
  "serve handler close read s =
     (case read s of
        (Inl e, s1) \<Rightarrow> Some (close s1)
      | (Inr ses, s1) \<Rightarrow>
          (case handler ses s1 of
             None \<Rightarrow> None
           | Some (Inl e, s2) \<Rightarrow> Some (close s2)
           | Some (Inr _, s2) \<Rightarrow> Some s2))"

definition socks5_handle_client :: "'s tcp_socket \<Rightarrow> 's handler \<Rightarrow> ('s \<Rightarrow> 's) \<Rightarrow> 's \<Rightarrow> 's option" where
  "socks5_handle_client S handler close = serve handler close (socks_read_session S)"

definition http_handle_client :: "asio_ip \<Rightarrow> 's tcp_socket \<Rightarrow> 's handler \<Rightarrow> ('s \<Rightarrow> 's) \<Rightarrow> 's \<Rightarrow> 's option" where
  "http_handle_client I S handler close = serve handler close (http_read_session I S)"

definition mixed_read_session :: "asio_ip \<Rightarrow> 's tcp_socket \<Rightarrow> ('s, session) io" where
  "mixed_read_session I S = bindIO (so_peek S) (\<lambda>first. if first = 0x05 then socks_read_session S else http_read_session I S)"

definition mixed_handle_client :: "asio_ip \<Rightarrow> 's tcp_socket \<Rightarrow> 's handler \<Rightarrow> ('s \<Rightarrow> 's) \<Rightarrow> 's \<Rightarrow> 's option" where
  "mixed_handle_client I S handler close = serve handler close (mixed_read_session I S)"

text \<open>
  \<open>TunInbound::handle_client\<close> takes the destination from the NAT entry of the peer's port and gives
  the entry back at the end. \<open>remote_port\<close> is the peer's port, \<open>None\<close> an error.
\<close>

definition tun_handle_client :: "asio_ip \<Rightarrow> ('s \<Rightarrow> u16 option) \<Rightarrow> 's handler \<Rightarrow> ('s \<Rightarrow> 's) \<Rightarrow>
    tun_inbound \<Rightarrow> 's \<Rightarrow> (tun_inbound \<times> 's) option" where
  "tun_handle_client I remote_port handler close st s =
     (case remote_port s of
        None \<Rightarrow> Some (st, close s)
      | Some nat_port \<Rightarrow>
          (case client_destination I st nat_port of
             None \<Rightarrow> Some (st, close s)
           | Some (Inl e) \<Rightarrow> Some (st, close s)
           | Some (Inr dst) \<Rightarrow>
               map_option (\<lambda>(r, s'). (client_finished nat_port st, s'))
                 (handler \<lparr>ses_destination = dst, ses_initial_payload = []\<rparr> s)))"

section \<open>What a client asks for\<close>

text \<open>
  \<open>client_asks I bytes dst data reply\<close>: a client that sends \<open>bytes\<close> asks for \<open>dst\<close> in one of the two
  protocols, \<open>data\<close> is what the destination is to get and \<open>reply\<close> what the client gets as an answer. A
  client of \<open>CONNECT\<close> waits for the answer.
\<close>

inductive client_asks :: "asio_ip \<Rightarrow> bytes \<Rightarrow> destination \<Rightarrow> bytes \<Rightarrow> bytes \<Rightarrow> bool" for I where
  asks_socks: "socks_wf (dst_host dst) \<Longrightarrow> 0 \<in> set methods \<Longrightarrow> length methods \<le> 255 \<Longrightarrow>
    client_asks I (socks_greeting methods @ socks_request dst @ rest) dst rest ([5, 0] @ socks_success_reply)"
| asks_connect: "word_ok target \<Longrightarrow> word_ok version \<Longrightarrow> starts_with version ''HTTP/'' \<Longrightarrow> list_all line_ok lines \<Longrightarrow>
    parse_connect_target I target = Inr dst \<Longrightarrow>
    client_asks I (map ord (http_request_text ''CONNECT'' target version lines)) dst [] http_success_reply"
| asks_http: "word_ok method \<Longrightarrow> method \<noteq> ''CONNECT'' \<Longrightarrow> ord (hd method) \<noteq> 5 \<Longrightarrow> word_ok version \<Longrightarrow>
    starts_with version ''HTTP/'' \<Longrightarrow> list_all line_ok lines \<Longrightarrow> word_ok (http_prefix @ authority @ path) \<Longrightarrow>
    CHR ''/'' \<notin> set authority \<Longrightarrow> path = [] \<or> hd path = CHR ''/'' \<Longrightarrow> parse_authority I authority 80 False = Inr dst \<Longrightarrow>
    client_asks I (map ord (http_request_text method (http_prefix @ authority @ path) version lines) @ extra) dst
      (map ord (http_request_text method (if path = [] then ''/'' else path) version (filter (\<lambda>l. \<not> hop_header l) lines)) @ extra) []"

lemma peek_first:
  assumes "socket_laws S pending sent" "pending s = b # bs"
  obtains s' where "so_peek S s = (Inr b, s')" "pending s' = pending s" "sent s' = sent s"
  using assms unfolding socket_laws_def by blast

lemma mixed_reads_session:
  assumes laws: "socket_laws S pending sent" and asks: "client_asks I (pending s) dst data reply"
  obtains payload s' where
    "mixed_read_session I S s = (Inr \<lparr>ses_destination = dst, ses_initial_payload = payload\<rparr>, s')"
    "payload @ pending s' = data" "sent s' = sent s @ reply"
  using asks
proof (cases rule: client_asks.cases)
  case (asks_socks methods)
  then have "pending s = 5 # word_of_nat (length methods) # methods @ socks_request dst @ data" by (simp add: socks_greeting_def)
  then obtain s1 where s1: "so_peek S s = (Inr 5, s1)" "pending s1 = pending s" "sent s1 = sent s" by (rule peek_first [OF laws])
  obtain s2 where "socks_read_session S s1 = (Inr \<lparr>ses_destination = dst, ses_initial_payload = []\<rparr>, s2)"
    "pending s2 = data" "sent s2 = sent s1 @ [5, 0] @ socks_success_reply"
    using socks_session_ok [OF laws asks_socks(3,4,5), of s1 data] s1(2) asks_socks(1) by metis
  then show ?thesis using that s1 asks_socks(2) by (simp add: mixed_read_session_def bindIO_def)
next
  case (asks_connect target vers lines)
  then have "pending s = ord (CHR ''C'') # map ord (tl (http_request_text ''CONNECT'' target vers lines))"
    by (simp add: http_request_text_def)
  then obtain s1 where s1: "so_peek S s = (Inr (ord (CHR ''C'')), s1)" "pending s1 = pending s" "sent s1 = sent s" by (rule peek_first [OF laws])
  obtain s2 where "http_read_session I S s1 = (Inr \<lparr>ses_destination = dst, ses_initial_payload = []\<rparr>, s2)"
    "pending s2 = []" "sent s2 = sent s1 @ http_success_reply"
    using http_connect_session [OF laws asks_connect(4-8), of s1] s1(2) asks_connect(1) by metis
  moreover have "ord (CHR ''C'') \<noteq> 5" by (simp add: ord_def)
  ultimately show ?thesis using that s1 asks_connect(2,3) by (simp add: mixed_read_session_def bindIO_def)
next
  case (asks_http meth vers lines authority path extra)
  then obtain c cs where m: "meth = c # cs" by (cases meth) (auto simp: word_ok_def)
  then have "pending s = ord c # map ord (tl (http_request_text meth (http_prefix @ authority @ path) vers lines)) @ extra"
    using asks_http(1) by (simp add: http_request_text_def)
  then obtain s1 where s1: "so_peek S s = (Inr (ord c), s1)" "pending s1 = pending s" "sent s1 = sent s" by (rule peek_first [OF laws])
  obtain payload s2 where "http_read_session I S s1 = (Inr \<lparr>ses_destination = dst, ses_initial_payload = payload\<rparr>, s2)"
    "payload @ pending s2 = data" "sent s2 = sent s1"
    using http_absolute_session [OF laws asks_http(4,5,7-13), of s1 extra] s1(2) asks_http(1,2) by metis
  moreover have "ord c \<noteq> 5" using asks_http(6) m by simp
  ultimately show ?thesis using that s1 asks_http(3) by (simp add: mixed_read_session_def bindIO_def)
qed

section \<open>A session from the client to its outbound\<close>

lemma mixed_session_outbound:
  assumes "socket_laws S pending sent" "client_asks I (pending s) dst data reply"
    and "asio_text I" "asio_chars I" "global_host (dst_host dst)" "router_wf I r"
  shows "\<exists>payload s'. mixed_read_session I S s = (Inr \<lparr>ses_destination = dst, ses_initial_payload = payload\<rparr>, s') \<and>
    payload @ pending s' = data \<and> sent s' = sent s @ reply \<and>
    mixed_handle_client I S (session_handler I r table E) close s =
      (case map_of table (case find (rule_applies I r (dst_host dst)) (rc_rules (ro_config r)) of
           None \<Rightarrow> rc_final_outbound (ro_config r) | Some rule \<Rightarrow> rr_outbound rule) of
         None \<Rightarrow> Some s'
       | Some out \<Rightarrow> outbound_handle I E out \<lparr>ses_destination = dst, ses_initial_payload = payload\<rparr> s')"
proof -
  obtain payload s' where read: "mixed_read_session I S s =
      (Inr \<lparr>ses_destination = dst, ses_initial_payload = payload\<rparr>, s')"
    and bytes: "payload @ pending s' = data" "sent s' = sent s @ reply" by (rule mixed_reads_session [OF assms(1,2)])
  let ?ses = "\<lparr>ses_destination = dst, ses_initial_payload = payload\<rparr>"
  define tag where "tag = (case find (rule_applies I r (dst_host dst)) (rc_rules (ro_config r)) of
      None \<Rightarrow> rc_final_outbound (ro_config r) | Some rule \<Rightarrow> rr_outbound rule)"
  have pick: "pick_outbound I r ?ses = Inr tag"
    using pick_outbound_tag [OF assms(3,4) _ assms(6), of ?ses] assms(5) by (simp add: tag_def)
  have "mixed_handle_client I S (session_handler I r table E) close s =
      (case map_of table tag of None \<Rightarrow> Some s' | Some out \<Rightarrow> outbound_handle I E out ?ses s')"
    unfolding mixed_handle_client_def serve_def read session_handler_def
    by (cases "map_of table tag") (simp_all add: pick option.map_comp split: option.split)
  with read bytes show ?thesis unfolding tag_def by blast
qed

text \<open>
  C3: a client of the mixed inbound that asks for a destination, in SOCKS5 or as an HTTP proxy, gets the
  answer of its protocol, and its session goes to the outbound that the first rule that applies
  names, or the final one: this outbound gets the destination, and from the initial payload and the
  socket together exactly the bytes meant for the destination. With no outbound of that name,
  nothing is forwarded.
\<close>

theorem mixed_session_routed:
  assumes "socket_laws S pending sent" "client_asks I (pending s) dst data reply"
    and "asio_text I" "asio_chars I" "global_host (dst_host dst)" "router_wf I r"
  shows "\<exists>payload s'. payload @ pending s' = data \<and> sent s' = sent s @ reply \<and>
    mixed_handle_client I S (session_handler I r table E) close s =
      (case map_of table (case find (rule_applies I r (dst_host dst)) (rc_rules (ro_config r)) of
           None \<Rightarrow> rc_final_outbound (ro_config r) | Some rule \<Rightarrow> rr_outbound rule) of
         None \<Rightarrow> Some s'
       | Some out \<Rightarrow> outbound_handle I E out \<lparr>ses_destination = dst, ses_initial_payload = payload\<rparr> s')"
  using mixed_session_outbound [OF assms] by blast

text \<open>A SOCKS5 client whose session the router blocks: its socket is closed.\<close>

definition mem_raw :: "(bytes \<times> bytes) raw_stream" where
  "mem_raw = \<lparr>rs_read = (\<lambda>s. (Inl (Io Eof), s)), rs_write = (\<lambda>bs s. (None, s)), rs_close = (\<lambda>(p, w). ([], w))\<rparr>"

definition mem_surroundings :: "(bytes \<times> bytes) surroundings" where
  "mem_surroundings =
     \<lparr>en_race = (\<lambda>a b s. a s), en_connect = (\<lambda>d s. (Inr (), s)),
      en_dialer = \<lparr>d_connect = (\<lambda>d s. (Inr (), s)), d_tls_context = (\<lambda>b s. (Inr (), s)), d_tls_identity = (\<lambda>n b s. (Inr (), s)),
        d_tls_handshake = (\<lambda>s. (Inr (), s)), d_ws_handshake = (\<lambda>h p s. (Inr (), s))\<rparr>,
      en_client = mem_raw, en_remote = mem_raw, en_server = mem_raw\<rparr>"

theorem mixed_session_routed_witness:
  "\<exists>s'. mixed_handle_client ref_ip mem_socket (session_handler ref_ip sample_router [(''block'', Block)] mem_surroundings) (\<lambda>s. s)
     (socks_greeting [0] @ socks_request \<lparr>dst_host = DomainName ''wa.io'', dst_port = 443\<rparr> @ [22, 3], []) =
     Some s' \<and> fst s' = [] \<and> snd s' = [5, 0] @ socks_success_reply"
proof -
  let ?dst = "\<lparr>dst_host = DomainName ''wa.io'', dst_port = 443\<rparr>"
  let ?s = "(socks_greeting [0] @ socks_request ?dst @ [22, 3], [])"
  have "\<not> suffix_applies ''wa.io'' ''a.io''" by (auto simp: suffix_applies_def suffix_def Cons_eq_append_conv)
  then have "find (rule_applies ref_ip sample_router (dst_host ?dst)) (rc_rules (ro_config sample_router)) = None"
    by (rule_tac sample_rules) simp
  moreover have "rc_final_outbound (ro_config sample_router) = ''block''" by (simp add: sample_router_def)
  moreover have asks: "client_asks ref_ip (fst ?s) ?dst [22, 3] ([5, 0] @ socks_success_reply)"
    unfolding fst_conv by (rule asks_socks) simp_all
  moreover note mixed_session_routed [where S = mem_socket and pending = fst and sent = snd and s = ?s and I = ref_ip
      and dst = ?dst and data = "[22, 3]" and reply = "[5, 0] @ socks_success_reply" and r = sample_router
      and table = "[(''block'', Block)]" and E = mem_surroundings and close = "\<lambda>s. s",
      OF socket_laws_mem asks asio_text_ref asio_chars_ref _ sample_router_wf]
  ultimately show ?thesis
    by (auto simp: block_handle_def mem_surroundings_def mem_raw_def)
qed

end
