(* ===== verification/Windows_Proxy.thy ===== *)
theory Windows_Proxy
  imports Cstring Utils
begin

text \<open>
  \<open>src/platform/windows_proxy.cpp\<close>: the proxy settings of Windows, two values under one registry key.
  The functions of the registry are the parameters of a record; \<open>True\<close> is success. A value is
  written as bytes with its type. Wide strings have characters of 16 bits, stored with the low
  byte first.
\<close>

section \<open>The calls\<close>

record 's registry =
  rg_open_key :: "string \<Rightarrow> 's \<Rightarrow> nat option \<times> 's"
  rg_set_value :: "nat \<Rightarrow> string \<Rightarrow> u32 \<Rightarrow> bytes \<Rightarrow> 's \<Rightarrow> bool \<times> 's"
  rg_close_key :: "nat \<Rightarrow> 's \<Rightarrow> 's"
  rg_set_option :: "u32 \<Rightarrow> 's \<Rightarrow> 's"

abbreviation REG_SZ :: u32 where "REG_SZ \<equiv> 1"
abbreviation REG_DWORD :: u32 where "REG_DWORD \<equiv> 4"
abbreviation INTERNET_OPTION_REFRESH :: u32 where "INTERNET_OPTION_REFRESH \<equiv> 37"
abbreviation INTERNET_OPTION_SETTINGS_CHANGED :: u32 where "INTERNET_OPTION_SETTINGS_CHANGED \<equiv> 39"

definition kInternetSettingsKey :: string where
  "kInternetSettingsKey = ''Software'' @ [CHR 0x5C] @ ''Microsoft'' @ [CHR 0x5C] @ ''Windows'' @ [CHR 0x5C] @
     ''CurrentVersion'' @ [CHR 0x5C] @ ''Internet Settings''"

definition set_dword_value :: "'s registry \<Rightarrow> nat \<Rightarrow> string \<Rightarrow> u32 \<Rightarrow> 's \<Rightarrow> bool \<times> 's" where
  "set_dword_value G key name value = rg_set_value G key name REG_DWORD (map (\<lambda>i. le_byte i value) [0, 1, 2, 3])"

type_synonym wide_string = "u16 list"

definition wide_bytes :: "wide_string \<Rightarrow> bytes" where
  "wide_bytes w = concat (map (\<lambda>c. [lo8 c, hi8 c]) w)"

text \<open>\<open>c_str\<close> and the size with the zero at the end.\<close>

definition set_string_value :: "'s registry \<Rightarrow> nat \<Rightarrow> string \<Rightarrow> wide_string \<Rightarrow> 's \<Rightarrow> bool \<times> 's" where
  "set_string_value G key name value = rg_set_value G key name REG_SZ (wide_bytes (value @ [0]))"

definition refresh_proxy_settings :: "'s registry \<Rightarrow> 's \<Rightarrow> 's" where
  "refresh_proxy_settings G s = rg_set_option G INTERNET_OPTION_REFRESH (rg_set_option G INTERNET_OPTION_SETTINGS_CHANGED s)"

section \<open>The operations\<close>

text \<open>Each \<open>char\<close>, which is signed, is converted on its own: a byte over 127 becomes a character \<open>0xFFxx\<close>.\<close>

definition wide_char :: "char \<Rightarrow> u16" where
  "wide_char c = scast (ord c)"

definition proxy_server_text :: "string \<Rightarrow> u16 \<Rightarrow> wide_string" where
  "proxy_server_text host port = map wide_char host @ map wide_char '':'' @ map wide_char (show_dec (unat port))"

definition set_windows_proxy :: "'s registry \<Rightarrow> string \<Rightarrow> u16 \<Rightarrow> 's \<Rightarrow> bool \<times> 's" where
  "set_windows_proxy G host port s =
     (case rg_open_key G kInternetSettingsKey s of
        (None, s1) \<Rightarrow> (False, s1)
      | (Some key, s1) \<Rightarrow>
          let (ok, s2) = (case set_dword_value G key ''ProxyEnable'' 1 s1 of
               (False, s2) \<Rightarrow> (False, s2)
             | (True, s2) \<Rightarrow> set_string_value G key ''ProxyServer'' (proxy_server_text host port) s2);
            s3 = rg_close_key G key s2
          in (ok, if ok then refresh_proxy_settings G s3 else s3))"

definition unset_windows_proxy :: "'s registry \<Rightarrow> 's \<Rightarrow> bool \<times> 's" where
  "unset_windows_proxy G s =
     (case rg_open_key G kInternetSettingsKey s of
        (None, s1) \<Rightarrow> (False, s1)
      | (Some key, s1) \<Rightarrow>
          (case set_dword_value G key ''ProxyEnable'' 0 s1 of
             (ok, s2) \<Rightarrow> let s3 = rg_close_key G key s2 in (ok, if ok then refresh_proxy_settings G s3 else s3)))"

section \<open>The setting\<close>

text \<open>How Windows reads the values back: a string ends at its first zero.\<close>

fun read_wide :: "bytes \<Rightarrow> wide_string" where
  "read_wide (lo # hi # rest) = (if be16 hi lo = 0 then [] else be16 hi lo # read_wide rest)"
| "read_wide _ = []"

fun read_dword :: "bytes \<Rightarrow> u32" where
  "read_dword [a, b, c, d] = le32 a b c d"
| "read_dword _ = 0"

text \<open>
  What is relied on: a setting is written as a whole or not at all, and the other calls do not
  change the settings. \<open>proxy s\<close> are the two values, as they are read.
\<close>

definition registry_laws :: "'s registry \<Rightarrow> ('s \<Rightarrow> u32 \<times> wide_string) \<Rightarrow> bool" where
  "registry_laws G proxy \<longleftrightarrow>
     (\<forall>path s. proxy (snd (rg_open_key G path s)) = proxy s) \<and>
     (\<forall>k data s. case rg_set_value G k ''ProxyEnable'' REG_DWORD data s of
        (ok, s') \<Rightarrow> proxy s' = (if ok then (read_dword data, snd (proxy s)) else proxy s)) \<and>
     (\<forall>k data s. case rg_set_value G k ''ProxyServer'' REG_SZ data s of
        (ok, s') \<Rightarrow> proxy s' = (if ok then (fst (proxy s), read_wide data) else proxy s)) \<and>
     (\<forall>k s. proxy (rg_close_key G k s) = proxy s) \<and> (\<forall>opt s. proxy (rg_set_option G opt s) = proxy s)"

text \<open>The characters of a string up to the first zero.\<close>

definition stored_text :: "wide_string \<Rightarrow> wide_string" where
  "stored_text w = takeWhile (\<lambda>c. c \<noteq> 0) w"

lemma read_wide_bytes: "read_wide (wide_bytes (w @ [0])) = stored_text w"
  by (induction w) (simp_all add: wide_bytes_def stored_text_def)

lemma registry_lawsD:
  assumes "registry_laws G proxy"
  shows "rg_open_key G path s = (h, s1) \<Longrightarrow> proxy s1 = proxy s"
    and "set_dword_value G k ''ProxyEnable'' v s = (ok, s2) \<Longrightarrow> proxy s2 = (if ok then (v, snd (proxy s)) else proxy s)"
    and "set_string_value G k ''ProxyServer'' t s = (ok, s3) \<Longrightarrow> proxy s3 = (if ok then (fst (proxy s), stored_text t) else proxy s)"
    and "proxy (rg_close_key G k s) = proxy s" "proxy (refresh_proxy_settings G s) = proxy s"
proof -
  note laws = assms [unfolded registry_laws_def]
  show "rg_open_key G path s = (h, s1) \<Longrightarrow> proxy s1 = proxy s" using laws [THEN conjunct1, rule_format, of path s] by simp
  show "set_dword_value G k ''ProxyEnable'' v s = (ok, s2) \<Longrightarrow> proxy s2 = (if ok then (v, snd (proxy s)) else proxy s)"
    using laws [THEN conjunct2, THEN conjunct1, rule_format, of "map (\<lambda>i. le_byte i v) [0, 1, 2, 3]" s k]
      le32_le_byte [of v] by (simp add: set_dword_value_def del: le32_le_byte)
  show "set_string_value G k ''ProxyServer'' t s = (ok, s3) \<Longrightarrow> proxy s3 = (if ok then (fst (proxy s), stored_text t) else proxy s)"
    using laws [THEN conjunct2, THEN conjunct2, THEN conjunct1, rule_format, of s "wide_bytes (t @ [0])" k]
    by (simp add: set_string_value_def read_wide_bytes)
  show "proxy (rg_close_key G k s) = proxy s" "proxy (refresh_proxy_settings G s) = proxy s"
    using laws [THEN conjunct2, THEN conjunct2, THEN conjunct2] by (simp_all add: refresh_proxy_settings_def)
qed

text \<open>A host of ASCII characters is stored as it is.\<close>

lemma wide_char_ascii: "(of_char c :: nat) < 128 \<Longrightarrow> wide_char c = word_of_nat (of_char c)"
proof -
  assume "(of_char c :: nat) < 128"
  then have small: "int (unat (ord c)) < 128" by simp
  have "sint (ord c) = signed_take_bit 7 (int (unat (ord c)))" by (simp add: sint_uint del: unat_ord)
  also have "\<dots> = int (unat (ord c))" using small by (intro signed_take_bit_int_eq_self) simp_all
  finally have "sint (ord c) = int (of_char c)" by simp
  then show ?thesis by (simp add: wide_char_def scast_eq)
qed

text \<open>Setting the proxy may fail half-way: it is then enabled with the server that was there before.\<close>

lemma set_windows_proxy_result:
  assumes "registry_laws G proxy" "set_windows_proxy G host port s = (ok, s')"
  shows "if ok then proxy s' = (1, stored_text (proxy_server_text host port)) else proxy s' \<in> {proxy s, (1, snd (proxy s))}"
  using assms(2) registry_lawsD(1-3) [OF assms(1)]
  by (auto simp: set_windows_proxy_def Let_def registry_lawsD(4,5) [OF assms(1)]
      split: prod.splits option.splits bool.splits)

lemma unset_windows_proxy_result:
  assumes "registry_laws G proxy" "unset_windows_proxy G s = (ok, s')"
  shows "proxy s' = (if ok then (0, snd (proxy s)) else proxy s)"
  using assms(2) registry_lawsD(1,2) [OF assms(1)]
  by (auto simp: unset_windows_proxy_def Let_def registry_lawsD(4,5) [OF assms(1)]
      split: prod.splits option.splits if_splits)

end
