(* ===== verification/Shutdown.thy ===== *)
theory Shutdown
  imports Prelude
begin

text \<open>
  \<open>src/core/shutdown.hpp\<close> and \<open>shutdown.cpp\<close>: the callbacks that stop the parts of the program. A
  callback is a value \<open>c\<close>; \<open>call c\<close> is what it does to the state of the program, and may raise.
\<close>

section \<open>State and operations\<close>

text \<open>
  \<open>sd_handler\<close>: the console handler is installed; \<open>sd_global\<close>: \<open>g_shutdown\<close> points to the object;
  \<open>sd_waiting\<close>: the signal set waits; \<open>sd_posted\<close>: calls of \<open>request_stop\<close> handed to the \<open>io_context\<close>.
\<close>

record 'c shutdown =
  sd_stopping :: bool
  sd_callbacks :: "'c list"
  sd_handler :: bool
  sd_global :: bool
  sd_waiting :: bool
  sd_posted :: nat
  sd_io_stopped :: bool

definition shutdown_init :: "'c shutdown" where
  "shutdown_init =
     \<lparr>sd_stopping = False, sd_callbacks = [], sd_handler = False, sd_global = True, sd_waiting = False,
      sd_posted = 0, sd_io_stopped = False\<rparr>"

definition shutdown_start :: "'c shutdown \<Rightarrow> 'c shutdown" where
  "shutdown_start d = d\<lparr>sd_handler := True, sd_waiting := True\<rparr>"

definition shutdown_stop :: "'c shutdown \<Rightarrow> 'c shutdown" where
  "shutdown_stop d = d\<lparr>sd_posted := Suc (sd_posted d)\<rparr>"

definition console_handler :: "'c shutdown \<Rightarrow> 'c shutdown" where
  "console_handler d = (if sd_global d then shutdown_stop d else d)"

definition on_stop :: "'c \<Rightarrow> 'c shutdown \<Rightarrow> 'c shutdown" where
  "on_stop callback d = d\<lparr>sd_callbacks := sd_callbacks d @ [callback]\<rparr>"

text \<open>The exception of a callback is logged.\<close>

fun run_callbacks :: "('c \<Rightarrow> ('s, unit) io) \<Rightarrow> 'c list \<Rightarrow> 's \<Rightarrow> 's" where
  "run_callbacks call [] s = s"
| "run_callbacks call (c # callbacks) s =
     (case call c s of
        (Inr _, s') \<Rightarrow> run_callbacks call callbacks s'
      | (Inl e, s') \<Rightarrow> run_callbacks call callbacks s')"

definition run_callbacks_once :: "('c \<Rightarrow> ('s, unit) io) \<Rightarrow> 'c shutdown \<times> 's \<Rightarrow> 'c shutdown \<times> 's" where
  "run_callbacks_once call = (\<lambda>(d, s). (d\<lparr>sd_callbacks := []\<rparr>, run_callbacks call (sd_callbacks d) s))"

definition request_stop :: "('c \<Rightarrow> ('s, unit) io) \<Rightarrow> 'c shutdown \<times> 's \<Rightarrow> 'c shutdown \<times> 's" where
  "request_stop call = (\<lambda>(d, s).
     if sd_stopping d then (d, s)
     else (case run_callbacks_once call (d\<lparr>sd_stopping := True\<rparr>, s) of
       (d1, s1) \<Rightarrow> (d1\<lparr>sd_handler := False, sd_global := False, sd_waiting := False, sd_io_stopped := True\<rparr>, s1)))"

section \<open>Executions\<close>

text \<open>
  What can happen: calls of the operations, an event of the console, a signal, and the
  \<open>io_context\<close> running a posted call. After \<open>stop\<close> the \<open>io_context\<close> runs nothing.
\<close>

datatype 'c event = On_stop 'c | Start | Stop | Console | Signal | Run_posted

fun shutdown_event :: "('c \<Rightarrow> ('s, unit) io) \<Rightarrow> 'c event \<Rightarrow> 'c shutdown \<times> 's \<Rightarrow> ('c shutdown \<times> 's) option" where
  "shutdown_event call (On_stop c) (d, s) = Some (on_stop c d, s)"
| "shutdown_event call Start (d, s) = Some (shutdown_start d, s)"
| "shutdown_event call Stop (d, s) = Some (shutdown_stop d, s)"
| "shutdown_event call Console (d, s) = (if sd_handler d then Some (console_handler d, s) else None)"
| "shutdown_event call Signal (d, s) =
     (if sd_waiting d \<and> \<not> sd_io_stopped d then Some (request_stop call (d\<lparr>sd_waiting := False\<rparr>, s)) else None)"
| "shutdown_event call Run_posted (d, s) =
     (if sd_posted d \<noteq> 0 \<and> \<not> sd_io_stopped d
      then Some (request_stop call (d\<lparr>sd_posted := sd_posted d - 1\<rparr>, s)) else None)"

fun_cases shutdown_eventE: "shutdown_event call e (d, s) = Some c"

fun shutdown_trace :: "('c \<Rightarrow> ('s, unit) io) \<Rightarrow> 'c event list \<Rightarrow> 'c shutdown \<times> 's \<Rightarrow> ('c shutdown \<times> 's) option" where
  "shutdown_trace call [] c = Some c"
| "shutdown_trace call (e # es) c = Option.bind (shutdown_event call e c) (shutdown_trace call es)"

fun is_stop :: "'c event \<Rightarrow> bool" where
  "is_stop Signal = True"
| "is_stop Run_posted = True"
| "is_stop _ = False"

fun registered :: "'c event list \<Rightarrow> 'c list" where
  "registered [] = []"
| "registered (On_stop c # es) = c # registered es"
| "registered (_ # es) = registered es"

section \<open>Each callback runs once\<close>

lemma run_callbacks_fold: "run_callbacks call cs s = fold (\<lambda>c s. snd (call c s)) cs s"
  by (induction cs arbitrary: s) (auto split: prod.split sum.split)

text \<open>Before and after the request to stop.\<close>

definition running :: "'c shutdown \<Rightarrow> bool" where
  "running d \<longleftrightarrow> \<not> sd_stopping d \<and> \<not> sd_io_stopped d"

definition stopped :: "'c shutdown \<Rightarrow> bool" where
  "stopped d \<longleftrightarrow> sd_stopping d \<and> sd_io_stopped d"

lemma init_running: "running shutdown_init"
  by (simp add: running_def shutdown_init_def)

lemma init_callbacks: "sd_callbacks shutdown_init = []"
  by (simp add: shutdown_init_def)

lemma event_stopped:
  assumes "shutdown_event call e (d, s) = Some (d', s')" "stopped d"
  shows "stopped d' \<and> s' = s"
  using assms by (elim shutdown_eventE) (auto simp: stopped_def on_stop_def shutdown_start_def shutdown_stop_def console_handler_def request_stop_def split: if_splits)

lemma trace_stopped: "shutdown_trace call es (d, s) = Some (d', s') \<Longrightarrow> stopped d \<Longrightarrow> stopped d' \<and> s' = s"
proof (induction es arbitrary: d s)
  case (Cons e es)
  then obtain d1 s1 where e: "shutdown_event call e (d, s) = Some (d1, s1)" and es: "shutdown_trace call es (d1, s1) = Some (d', s')"
    by (auto simp: bind_eq_Some_conv)
  have "stopped d1" "s1 = s" using event_stopped [OF e Cons.prems(2)] by simp_all
  with Cons.IH [OF es] show ?case by simp
qed simp

lemma event_stop:
  assumes "shutdown_event call e (d, s) = Some (d', s')" "running d" "is_stop e"
  shows "stopped d' \<and> s' = run_callbacks call (sd_callbacks d) s"
  using assms(2,3)
proof (cases e)
  case Signal
  with assms show ?thesis by (auto simp: running_def stopped_def request_stop_def run_callbacks_once_def split: if_splits)
next
  case Run_posted
  with assms show ?thesis by (auto simp: running_def stopped_def request_stop_def run_callbacks_once_def split: if_splits)
qed simp_all

lemma event_running:
  assumes "shutdown_event call e (d, s) = Some (d', s')" "running d" "\<not> is_stop e"
  shows "running d' \<and> s' = s \<and> sd_callbacks d' = sd_callbacks d @ registered [e]"
  using assms
  by (elim shutdown_eventE) (auto simp: running_def on_stop_def shutdown_start_def shutdown_stop_def console_handler_def split: if_splits)

lemma registered_Cons: "registered (e # es) = registered [e] @ registered es"
  by (cases e) simp_all

lemma trace_running:
  assumes "shutdown_trace call es (d, s) = Some (d', s')" "running d"
  shows "if list_ex is_stop es
     then stopped d' \<and> s' = run_callbacks call (sd_callbacks d @ registered (takeWhile (\<lambda>e. \<not> is_stop e) es)) s
     else running d' \<and> s' = s \<and> sd_callbacks d' = sd_callbacks d @ registered es"
  using assms
proof (induction es arbitrary: d s)
  case (Cons e es)
  then obtain d1 s1 where e: "shutdown_event call e (d, s) = Some (d1, s1)" and es: "shutdown_trace call es (d1, s1) = Some (d', s')"
    by (auto simp: bind_eq_Some_conv)
  show ?case
  proof (cases "is_stop e")
    case True
    have "stopped d1" "s1 = run_callbacks call (sd_callbacks d) s" using event_stop [OF e Cons.prems(2) True] by simp_all
    with trace_stopped [OF es] show ?thesis using True by simp
  next
    case False
    have "running d1" "s1 = s" "sd_callbacks d1 = sd_callbacks d @ registered [e]"
      using event_running [OF e Cons.prems(2) False] by simp_all
    with Cons.IH [OF es] show ?thesis using False
      by (simp add: registered_Cons [of e es] registered_Cons [of e "takeWhile (\<lambda>e. \<not> is_stop e) es"])
  qed
qed simp

text \<open>
  Whatever the calls, signals and console events and their order, the first request to stop that
  the \<open>io_context\<close> runs calls every callback registered until then, once, in the order of the
  registration and also when earlier ones raise; before it and after it no callback runs.
\<close>

theorem callbacks_run_once:
  assumes "shutdown_trace call es (shutdown_init, s) = Some (d, s')"
  shows "s' = (if list_ex is_stop es
      then fold (\<lambda>c s. snd (call c s)) (registered (takeWhile (\<lambda>e. \<not> is_stop e) es)) s else s) \<and>
    sd_stopping d = list_ex is_stop es \<and> sd_io_stopped d = list_ex is_stop es"
  using trace_running [OF assms init_running]
  by (cases "list_ex is_stop es") (simp_all add: run_callbacks_fold running_def stopped_def init_callbacks)

text \<open>Two inbounds, of which the first fails to stop, and a callback that comes too late.\<close>

definition sample_events :: "nat event list" where
  "sample_events = [On_stop 1, On_stop 2, Start, Console, Console, Run_posted, On_stop 3]"

definition sample_call :: "nat \<Rightarrow> (nat list, unit) io" where
  "sample_call c calls = (if c = 1 then Inl (RuntimeError ''stop failed'') else Inr (), calls @ [c])"

theorem callbacks_run_once_witness:
  "\<exists>d. shutdown_trace sample_call sample_events (shutdown_init, []) = Some (d, [1, 2]) \<and> sd_io_stopped d"
proof -
  have "shutdown_trace sample_call sample_events (shutdown_init, []) \<noteq> None"
    by (simp add: sample_events_def shutdown_init_def on_stop_def shutdown_start_def shutdown_stop_def console_handler_def
        request_stop_def run_callbacks_once_def)
  then obtain d s' where run: "shutdown_trace sample_call sample_events (shutdown_init, []) = Some (d, s')" by force
  show ?thesis using run callbacks_run_once [OF run] by (simp add: sample_events_def sample_call_def)
qed

end
