(* ===== verification/Startup.thy ===== *)
theory Startup
  imports Config_Properties Dns_Inbound Outbound Tun_Route Windows_Proxy Shutdown
begin

text \<open>
  \<open>src/main.cpp\<close>: how the program is put together from its configuration, and what it does when it is
  asked to stop. An exception anywhere before \<open>io.run()\<close> ends the program with exit code 1.
\<close>

section \<open>The program\<close>

text \<open>
  The inbounds are shared objects: \<open>mp_objects\<close> are all that were made, by their number, each with its
  \<open>start\<close> handed to the \<open>io_context\<close>; \<open>mp_inbounds\<close> is the table that owns them by tag. Only the TUN
  inbound has another owner, the variable \<open>tun_inbound\<close> of \<open>main\<close>.
\<close>

datatype inbound_kind = Tun_in | Mixed_in | Socks5_in | Http_in | Dns_in

type_synonym inbound_object = "inbound_kind \<times> endpoint option"

datatype stop_callback = Stop_inbounds "nat list" | Unset_proxy

record main_program =
  mp_router :: router
  mp_dns :: dns_server
  mp_outbounds :: "(string \<times> outbound) list"
  mp_connector :: connector
  mp_objects :: "inbound_object list"
  mp_inbounds :: "(string \<times> nat) list"
  mp_shutdown :: "stop_callback shutdown"

text \<open>The machine: opening a configuration file and parsing it, loading a rule set, listening, and Windows.\<close>

record 's platform =
  pf_open_file :: "string \<Rightarrow> string option"
  pf_parse_json :: "string \<Rightarrow> json res"
  pf_load_rules :: "string \<Rightarrow> route_rule list res"
  pf_listen :: "endpoint \<Rightarrow> ('s, unit) io"
  pf_windows :: "'s windows"
  pf_registry :: "'s registry"
  pf_stop_inbound :: "nat \<Rightarrow> 's \<Rightarrow> 's"

definition add_inbound :: "string \<Rightarrow> inbound_object \<Rightarrow> main_program \<Rightarrow> main_program" where
  "add_inbound tag obj m =
     m\<lparr>mp_objects := mp_objects m @ [obj], mp_inbounds := AList.update tag (length (mp_objects m)) (mp_inbounds m)\<rparr>"

section \<open>The steps of \<open>main\<close>\<close>

definition start_tun :: "'s platform \<Rightarrow> tun_config \<Rightarrow> main_program \<Rightarrow> ('s, main_program) io" where
  "start_tun P config m = (\<lambda>s.
     if tn_enable config then
       (case find_default_route_interface_index (pf_windows P) s of
          None \<Rightarrow> (Inl (RuntimeError ''failed to find outbound interface for tun''), s)
        | Some index \<Rightarrow> (Inr (add_inbound ''tun'' (Tun_in, None) (m\<lparr>mp_connector := set_outbound_interface_index index (mp_connector m)\<rparr>)), s))
     else (Inr m, s))"

definition listen_address :: "asio_ip \<Rightarrow> string \<Rightarrow> address res" where
  "listen_address I text =
     (case make_address I text of None \<Rightarrow> Inl (SystemError ''make_address'') | Some a \<Rightarrow> Inr a)"

definition inbound_kind_of :: "string \<Rightarrow> inbound_kind res" where
  "inbound_kind_of t =
     (if t = ''mixed'' then Inr Mixed_in
      else if t = ''socks5'' then Inr Socks5_in
      else if t = ''http'' then Inr Http_in
      else Inl (RuntimeError (''unsupported inbound type: '' @ t)))"

definition start_inbound :: "asio_ip \<Rightarrow> 's platform \<Rightarrow> inbound_config \<Rightarrow> main_program \<Rightarrow> ('s, main_program) io" where
  "start_inbound I P config m =
     bindIO (liftE (listen_address I (ic_listen config))) (\<lambda>a.
     bindIO (liftE (inbound_kind_of (ic_type config))) (\<lambda>kind.
     bindIO (pf_listen P (a, ic_listen_port config)) (\<lambda>_.
     retIO (add_inbound (ic_tag config) (kind, Some (a, ic_listen_port config)) m))))"

fun start_inbounds :: "asio_ip \<Rightarrow> 's platform \<Rightarrow> inbound_config list \<Rightarrow> main_program \<Rightarrow> ('s, main_program) io" where
  "start_inbounds I P [] m = retIO m"
| "start_inbounds I P (config # configs) m = bindIO (start_inbound I P config m) (start_inbounds I P configs)"

definition start_dns :: "asio_ip \<Rightarrow> dns_config \<Rightarrow> main_program \<Rightarrow> ('s, main_program) io" where
  "start_dns I config m =
     (case dc_listen config of
        None \<Rightarrow> retIO m
      | Some listen \<Rightarrow>
          bindIO (liftE (parse_endpoint I listen)) (\<lambda>endpoint. retIO (add_inbound ''dns'' (Dns_in, Some endpoint) m)))"

definition add_callback :: "stop_callback \<Rightarrow> main_program \<Rightarrow> main_program" where
  "add_callback c m = m\<lparr>mp_shutdown := on_stop c (mp_shutdown m)\<rparr>"

text \<open>The result of \<open>setWindowsProxy\<close> is not used.\<close>

definition start_proxy :: "'s platform \<Rightarrow> windows_proxy_config \<Rightarrow> main_program \<Rightarrow> ('s, main_program) io" where
  "start_proxy P config m =
     bindIO (liftE (read_member (wp_enabled config) ''WindowsProxyConfig::enabled'')) (\<lambda>enabled.
     if enabled then
       bindIO (liftE (read_member (wp_port config) ''WindowsProxyConfig::port'')) (\<lambda>port s.
         (Inr (add_callback Unset_proxy m), snd (set_windows_proxy (pf_registry P) (wp_addr config) port s)))
     else retIO m)"

text \<open>What the callbacks do; the order of the inbounds in the table is not specified.\<close>

fun call_stop :: "'s platform \<Rightarrow> stop_callback \<Rightarrow> ('s, unit) io" where
  "call_stop P (Stop_inbounds ids) s = (Inr (), fold (pf_stop_inbound P) ids s)"
| "call_stop P Unset_proxy s = (Inr (), snd (unset_windows_proxy (pf_registry P) s))"

definition main_parts :: "asio_ip \<Rightarrow> 's platform \<Rightarrow> app_config \<Rightarrow> main_program res" where
  "main_parts I P config =
     bindE (make_router (pf_load_rules P) (ac_route config)) (\<lambda>r.
     bindE (make_dns_server I (ac_dns config) r) (\<lambda>dns.
     bindE (make_outbounds I (ac_override_address config) (ac_outbounds config) []) (\<lambda>outbounds.
     Inr \<lparr>mp_router = r, mp_dns = set_connector dns, mp_outbounds = outbounds, mp_connector = connector_init,
       mp_objects = [], mp_inbounds = [], mp_shutdown = shutdown_init\<rparr>)))"

definition main_inbounds :: "asio_ip \<Rightarrow> 's platform \<Rightarrow> app_config \<Rightarrow> main_program \<Rightarrow> ('s, main_program) io" where
  "main_inbounds I P config m =
     bindIO (start_tun P (ac_tun config) m) (\<lambda>m.
     bindIO (start_inbounds I P (ac_inbounds config) m) (start_dns I (ac_dns config)))"

definition main_setup :: "asio_ip \<Rightarrow> 's platform \<Rightarrow> ('s, main_program) io" where
  "main_setup I P =
     bindIO (liftE (load_config (pf_open_file P) (pf_parse_json P) ''config.json'')) (\<lambda>config.
     bindIO (liftE (main_parts I P config)) (\<lambda>m.
     bindIO (main_inbounds I P config m) (\<lambda>m.
     bindIO (start_proxy P (ac_windows_proxy config) (add_callback (Stop_inbounds (map snd (mp_inbounds m))) m)) (\<lambda>m.
     retIO (m\<lparr>mp_shutdown := shutdown_start (mp_shutdown m)\<rparr>)))))"

definition exit_code :: "main_program res \<Rightarrow> nat" where
  "exit_code r = (case r of Inl e \<Rightarrow> 1 | Inr m \<Rightarrow> 0)"

section \<open>The inbounds\<close>

text \<open>The tags under which a configuration enters inbounds into the table.\<close>

definition inbound_tags :: "app_config \<Rightarrow> string list" where
  "inbound_tags config =
     (if tn_enable (ac_tun config) then [''tun''] else []) @ map ic_tag (ac_inbounds config) @
     (if dc_listen (ac_dns config) = None then [] else [''dns''])"

text \<open>
  \<open>entered tags m\<close>: the inbounds of the program were entered under \<open>tags\<close>, in this order; the table has
  for each tag the last of them.
\<close>

definition entered :: "string list \<Rightarrow> main_program \<Rightarrow> bool" where
  "entered tags m \<longleftrightarrow> length (mp_objects m) = length tags \<and> distinct (map fst (mp_inbounds m)) \<and>
     (\<forall>tag i. map_of (mp_inbounds m) tag = Some i \<longleftrightarrow>
        i < length tags \<and> tags ! i = tag \<and> (\<forall>j. i < j \<longrightarrow> j < length tags \<longrightarrow> tags ! j \<noteq> tag))"

lemma entered_add:
  assumes "entered tags m"
  shows "entered (tags @ [tag]) (add_inbound tag obj m)"
proof -
  have len: "length (mp_objects m) = length tags" and dist: "distinct (map fst (mp_inbounds m))"
    and old: "\<And>tag i. map_of (mp_inbounds m) tag = Some i \<longleftrightarrow>
        i < length tags \<and> tags ! i = tag \<and> (\<forall>j. i < j \<longrightarrow> j < length tags \<longrightarrow> tags ! j \<noteq> tag)"
    using assms unfolding entered_def by blast+
  have "map_of (mp_inbounds (add_inbound tag obj m)) t = Some i \<longleftrightarrow>
      i < length (tags @ [tag]) \<and> (tags @ [tag]) ! i = t \<and> (\<forall>j. i < j \<longrightarrow> j < length (tags @ [tag]) \<longrightarrow> (tags @ [tag]) ! j \<noteq> t)" for t i
  proof (cases "t = tag")
    case True
    show ?thesis
    proof
      assume "map_of (mp_inbounds (add_inbound tag obj m)) t = Some i"
      then have "i = length tags" using True len by (simp add: add_inbound_def update_conv')
      then show "i < length (tags @ [tag]) \<and> (tags @ [tag]) ! i = t \<and> (\<forall>j. i < j \<longrightarrow> j < length (tags @ [tag]) \<longrightarrow> (tags @ [tag]) ! j \<noteq> t)"
        using True by simp
    next
      assume r: "i < length (tags @ [tag]) \<and> (tags @ [tag]) ! i = t \<and> (\<forall>j. i < j \<longrightarrow> j < length (tags @ [tag]) \<longrightarrow> (tags @ [tag]) ! j \<noteq> t)"
      have "\<not> i < length tags" using r True by (metis length_append_singleton lessI nth_append_length)
      then have "i = length tags" using r by simp
      then show "map_of (mp_inbounds (add_inbound tag obj m)) t = Some i" using True len by (simp add: add_inbound_def update_conv')
    qed
  next
    case False
    then show ?thesis by (auto simp: add_inbound_def update_conv' old nth_append less_Suc_eq)
  qed
  then show ?thesis using len dist unfolding entered_def by (simp add: add_inbound_def distinct_update)
qed

lemma add_inbound_shutdown [simp]: "mp_shutdown (add_inbound tag obj m) = mp_shutdown m"
  by (simp add: add_inbound_def)

lemma start_tun_entered:
  assumes "start_tun P config m s = (Inr m', s')" "entered tags m"
  shows "entered (tags @ (if tn_enable config then [''tun''] else [])) m' \<and> mp_shutdown m' = mp_shutdown m"
proof (cases "tn_enable config")
  case True
  then obtain index where "m' = add_inbound ''tun'' (Tun_in, None) (m\<lparr>mp_connector := set_outbound_interface_index index (mp_connector m)\<rparr>)"
    using assms(1) by (auto simp: start_tun_def split: option.splits)
  moreover have "entered tags (m\<lparr>mp_connector := set_outbound_interface_index index (mp_connector m)\<rparr>)" using assms(2) by (simp add: entered_def)
  ultimately show ?thesis using True by (simp add: entered_add)
qed (use assms in \<open>simp add: start_tun_def\<close>)

lemma start_inbound_entered:
  assumes "start_inbound I P config m s = (Inr m', s')" "entered tags m"
  shows "entered (tags @ [ic_tag config]) m' \<and> mp_shutdown m' = mp_shutdown m"
proof -
  obtain obj where "m' = add_inbound (ic_tag config) obj m"
    using assms(1) unfolding start_inbound_def by (elim bindIO_InrE) (auto simp: retIO_def)
  then show ?thesis using entered_add [OF assms(2)] by simp
qed

lemma start_inbounds_entered:
  assumes "start_inbounds I P configs m s = (Inr m', s')" "entered tags m"
  shows "entered (tags @ map ic_tag configs) m' \<and> mp_shutdown m' = mp_shutdown m"
  using assms
proof (induction configs arbitrary: m s tags)
  case (Cons config configs)
  from Cons.prems(1) have "bindIO (start_inbound I P config m) (start_inbounds I P configs) s = (Inr m', s')" by simp
  then obtain m1 s1 where m1: "start_inbound I P config m s = (Inr m1, s1)" and rest: "start_inbounds I P configs m1 s1 = (Inr m', s')"
    by (rule bindIO_InrE)
  have "entered (tags @ [ic_tag config]) m1" "mp_shutdown m1 = mp_shutdown m"
    using start_inbound_entered [OF m1 Cons.prems(2)] by simp_all
  with Cons.IH [OF rest, of "tags @ [ic_tag config]"] show ?case by simp
qed (simp add: retIO_def)

lemma start_dns_entered:
  assumes "start_dns I config m s = (Inr m', s')" "entered tags m"
  shows "entered (tags @ (if dc_listen config = None then [] else [''dns''])) m' \<and> mp_shutdown m' = mp_shutdown m"
proof (cases "dc_listen config")
  case (Some listen)
  then obtain obj where "m' = add_inbound ''dns'' obj m"
    using assms(1) unfolding start_dns_def by (auto simp: retIO_def elim!: bindIO_InrE)
  then show ?thesis using entered_add [OF assms(2)] Some by simp
qed (use assms in \<open>simp add: start_dns_def retIO_def\<close>)

text \<open>The set-up in its stages, up to the proxy setting.\<close>

lemma main_parts_init:
  assumes "main_parts I P config = Inr m"
  shows "entered [] m" "mp_shutdown m = shutdown_init"
  using assms unfolding main_parts_def by (auto simp: entered_def bindE_eq_Inr)

lemma bindIO_keeps:
  assumes "\<And>s. f (snd (m s)) = f s" "\<And>x s. f (snd (k x s)) = f s"
  shows "f (snd (bindIO m k s)) = f s"
proof (cases "m s")
  case (Pair r s')
  then have "f s' = f s" using assms(1) [of s] by simp
  then show ?thesis using assms(2) [of _ s'] Pair by (cases r) (simp_all add: bindIO_def)
qed

lemma start_inbounds_keeps:
  assumes "\<And>e s. f (snd (pf_listen P e s)) = f s"
  shows "f (snd (start_inbounds I P configs m s)) = f s"
proof (induction configs arbitrary: m s)
  case (Cons config configs)
  have "f (snd (start_inbound I P config m s)) = f s" for s
    unfolding start_inbound_def by (intro bindIO_keeps assms) (simp_all add: liftE_def retIO_def)
  then show ?case using Cons.IH by (simp add: bindIO_keeps)
qed (simp add: retIO_def)

lemma main_inbounds_keeps:
  assumes "\<And>e s. f (snd (pf_listen P e s)) = f s"
  shows "f (snd (main_inbounds I P config m s)) = f s"
  unfolding main_inbounds_def
  by (intro bindIO_keeps start_inbounds_keeps assms)
    (simp_all add: start_tun_def start_dns_def bindIO_def retIO_def liftE_def split: option.split sum.split)

lemma main_inbounds_entered:
  assumes "main_inbounds I P config m s = (Inr m', s')" "entered [] m"
  shows "entered (inbound_tags config) m' \<and> mp_shutdown m' = mp_shutdown m"
proof -
  obtain ma sa mb sb where run: "start_tun P (ac_tun config) m s = (Inr ma, sa)"
    "start_inbounds I P (ac_inbounds config) ma sa = (Inr mb, sb)" "start_dns I (ac_dns config) mb sb = (Inr m', s')"
    using assms(1) unfolding main_inbounds_def by (elim bindIO_InrE) blast
  note ta = start_tun_entered [OF run(1) assms(2)]
  note tb = start_inbounds_entered [OF run(2) conjunct1 [OF ta]]
  show ?thesis using ta tb start_dns_entered [OF run(3) conjunct1 [OF tb]] by (simp add: inbound_tags_def)
qed

text \<open>
  The set-up fails before the proxy setting and has then changed nothing that listening leaves
  alone, or it gets there with the inbounds entered and one callback.
\<close>

lemma main_setup_split:
  assumes config: "load_config (pf_open_file P) (pf_parse_json P) ''config.json'' = Inr config"
    and keeps: "\<And>e s. f (snd (pf_listen P e s)) = f s" and whole: "main_setup I P s = (r, s')"
  obtains (fail) e where "r = Inl e" "f s' = f s"
  | (run) m1 s1 r1 where "f s1 = f s" "entered (inbound_tags config) m1" "mp_shutdown m1 = shutdown_init"
      "start_proxy P (ac_windows_proxy config) (add_callback (Stop_inbounds (map snd (mp_inbounds m1))) m1) s1 = (r1, s')"
      "r = bindE r1 (\<lambda>m. Inr (m\<lparr>mp_shutdown := shutdown_start (mp_shutdown m)\<rparr>))"
proof (cases "main_parts I P config")
  case (Inl e)
  then have "r = Inl e \<and> s' = s" using config whole by (auto simp: main_setup_def bindIO_def liftE_def)
  then show ?thesis using fail by blast
next
  case (Inr m0)
  obtain q s1 where inb: "main_inbounds I P config m0 s = (q, s1)" by fastforce
  have f1: "f s1 = f s" using main_inbounds_keeps [of f P, OF keeps, of I config m0 s] inb by simp
  show ?thesis
  proof (cases q)
    case (Inl e)
    then have "r = Inl e \<and> s' = s1" using config whole Inr inb by (auto simp: main_setup_def bindIO_def liftE_def)
    then show ?thesis using fail f1 by blast
  next
    case (Inr m1)
    note entered = main_inbounds_entered [OF inb [unfolded Inr] main_parts_init(1) [OF \<open>main_parts I P config = Inr m0\<close>]]
    let ?m1 = "add_callback (Stop_inbounds (map snd (mp_inbounds m1))) m1"
    obtain r1 s2 where r1: "start_proxy P (ac_windows_proxy config) ?m1 s1 = (r1, s2)" by fastforce
    have "bindIO (start_proxy P (ac_windows_proxy config) ?m1) (\<lambda>m. retIO (m\<lparr>mp_shutdown := shutdown_start (mp_shutdown m)\<rparr>)) s1 = (r, s')"
      using config whole \<open>main_parts I P config = Inr m0\<close> inb Inr by (simp add: main_setup_def bindIO_def liftE_def)
    then have "s2 = s' \<and> r = bindE r1 (\<lambda>m. Inr (m\<lparr>mp_shutdown := shutdown_start (mp_shutdown m)\<rparr>))"
      unfolding bindIO_def r1 by (cases r1) (auto simp: retIO_def)
    then have r: "s2 = s'" "r = bindE r1 (\<lambda>m. Inr (m\<lparr>mp_shutdown := shutdown_start (mp_shutdown m)\<rparr>))" by blast+
    have init: "mp_shutdown m1 = shutdown_init"
      using entered main_parts_init(2) [OF \<open>main_parts I P config = Inr m0\<close>] by metis
    show ?thesis by (rule run [OF f1 conjunct1 [OF entered] init r1 [unfolded r(1)] r(2)])
  qed
qed

lemma start_proxy_inbounds:
  assumes "start_proxy P config m s = (Inr m', s')"
  shows "mp_inbounds m' = mp_inbounds m \<and> mp_objects m' = mp_objects m \<and>
    sd_callbacks (mp_shutdown m') = sd_callbacks (mp_shutdown m) @ (if wp_enabled config = Some True then [Unset_proxy] else [])"
  using assms unfolding start_proxy_def
  by (auto simp: retIO_def liftE_def read_member_def add_callback_def on_stop_def split: option.splits if_splits elim!: bindIO_InrE)

lemma entered_owned:
  assumes "entered tags m"
  shows "i \<in> set (map snd (mp_inbounds m)) \<longleftrightarrow> i < length tags \<and> tags ! i \<notin> set (drop (Suc i) tags)"
proof -
  have "i \<in> set (map snd (mp_inbounds m)) \<longleftrightarrow> (\<exists>t. (t, i) \<in> set (mp_inbounds m))" by force
  also have "\<dots> \<longleftrightarrow> (\<exists>t. map_of (mp_inbounds m) t = Some i)"
  proof -
    have "distinct (map fst (mp_inbounds m))" using assms by (simp add: entered_def)
    then show ?thesis by (simp only: map_of_eq_Some_iff)
  qed
  also have "\<dots> \<longleftrightarrow> i < length tags \<and> (\<forall>j. i < j \<longrightarrow> j < length tags \<longrightarrow> tags ! j \<noteq> tags ! i)"
  proof -
    have "map_of (mp_inbounds m) t = Some i \<longleftrightarrow>
        i < length tags \<and> tags ! i = t \<and> (\<forall>j. i < j \<longrightarrow> j < length tags \<longrightarrow> tags ! j \<noteq> t)" for t
      using assms unfolding entered_def by blast
    then show ?thesis by auto
  qed
  also have "\<dots> \<longleftrightarrow> i < length tags \<and> tags ! i \<notin> set (drop (Suc i) tags)"
  proof -
    have "(\<forall>j. i < j \<longrightarrow> j < length tags \<longrightarrow> tags ! j \<noteq> tags ! i) \<longleftrightarrow> tags ! i \<notin> set (drop (Suc i) tags)"
    proof
      assume r: "\<forall>j. i < j \<longrightarrow> j < length tags \<longrightarrow> tags ! j \<noteq> tags ! i"
      show "tags ! i \<notin> set (drop (Suc i) tags)"
      proof
        assume "tags ! i \<in> set (drop (Suc i) tags)"
        then obtain k where "k < length (drop (Suc i) tags)" "drop (Suc i) tags ! k = tags ! i" by (auto simp: in_set_conv_nth)
        moreover from this(1) have "Suc i + k < length tags" by simp
        ultimately show False using r [rule_format, of "Suc i + k"] by simp
      qed
    next
      assume r: "tags ! i \<notin> set (drop (Suc i) tags)"
      show "\<forall>j. i < j \<longrightarrow> j < length tags \<longrightarrow> tags ! j \<noteq> tags ! i"
      proof (intro allI impI)
        fix j assume j: "i < j" "j < length tags"
        then have "tags ! j = drop (Suc i) tags ! (j - Suc i)" "j - Suc i < length (drop (Suc i) tags)" by simp_all
        then have "tags ! j \<in> set (drop (Suc i) tags)" by (metis nth_mem)
        with r show "tags ! j \<noteq> tags ! i" by auto
      qed
    qed
    then show ?thesis by blast
  qed
  finally show ?thesis .
qed

lemma distinct_drop: "distinct tags \<longleftrightarrow> (\<forall>i < length tags. tags ! i \<notin> set (drop (Suc i) tags))"
proof (induction tags)
  case (Cons t tags)
  have "(\<forall>i < length (t # tags). (t # tags) ! i \<notin> set (drop (Suc i) (t # tags))) \<longleftrightarrow>
      t \<notin> set tags \<and> (\<forall>i < length tags. tags ! i \<notin> set (drop (Suc i) tags))"
    by (auto simp: less_Suc_eq_0_disj)
  then show ?case using Cons.IH by simp
qed simp

text \<open>
  C37: when the program has started, it has made one inbound for each configured one, in order; the
  table owns, and the stop callback stops, for each tag the last of them. So every inbound that was
  started is owned and stopped exactly when the tags are distinct, \<open>tun\<close> and \<open>dns\<close> included. The
  loader does not check this: an inbound that is not owned is destroyed before its \<open>start\<close> runs.
\<close>

theorem main_owns_inbounds:
  assumes "load_config (pf_open_file P) (pf_parse_json P) ''config.json'' = Inr config"
    and "main_setup I P s = (Inr m, s')"
  shows "length (mp_objects m) = length (inbound_tags config) \<and>
    (\<forall>i. i \<in> set (map snd (mp_inbounds m)) \<longleftrightarrow>
       i < length (inbound_tags config) \<and> inbound_tags config ! i \<notin> set (drop (Suc i) (inbound_tags config))) \<and>
    (set (map snd (mp_inbounds m)) = {..<length (mp_objects m)} \<longleftrightarrow> distinct (inbound_tags config)) \<and>
    hd (sd_callbacks (mp_shutdown m)) = Stop_inbounds (map snd (mp_inbounds m))"
  using assms(1) refl assms(2)
proof (rule main_setup_split [where f = "\<lambda>_. ()"])
  fix m1 s1 r1
  assume m1: "entered (inbound_tags config) m1" "mp_shutdown m1 = shutdown_init"
    and r1: "start_proxy P (ac_windows_proxy config) (add_callback (Stop_inbounds (map snd (mp_inbounds m1))) m1) s1 = (r1, s')"
    and r: "Inr m = bindE r1 (\<lambda>m. Inr (m\<lparr>mp_shutdown := shutdown_start (mp_shutdown m)\<rparr>))"
  obtain m2 where m2: "r1 = Inr m2" and m: "m = m2\<lparr>mp_shutdown := shutdown_start (mp_shutdown m2)\<rparr>"
    using r by (cases r1) auto
  note proxy = r1 [unfolded m2]
  have same: "mp_inbounds m = mp_inbounds m1" "mp_objects m = mp_objects m1"
    "hd (sd_callbacks (mp_shutdown m)) = Stop_inbounds (map snd (mp_inbounds m1))"
    using start_proxy_inbounds [OF proxy] by (simp_all add: m add_callback_def on_stop_def shutdown_start_def m1(2) shutdown_init_def)
  have len: "length (mp_objects m1) = length (inbound_tags config)" using m1(1) by (simp add: entered_def)
  have "set (map snd (mp_inbounds m1)) = {..<length (mp_objects m1)} \<longleftrightarrow> distinct (inbound_tags config)"
    using entered_owned [OF m1(1)] distinct_drop [of "inbound_tags config"] unfolding len by blast
  then show ?thesis unfolding same using len entered_owned [OF m1(1)] by blast
qed simp

section \<open>The proxy setting\<close>

lemma registered_takeWhile: "registered es = [] \<Longrightarrow> registered (takeWhile p es) = []"
proof (induction es)
  case (Cons e es)
  have "registered [e] = []" "registered es = []" using Cons.prems registered_Cons [of e es] by simp_all
  then show ?case using Cons.IH registered_Cons [of e "takeWhile p es"] by simp
qed simp

text \<open>A registry that can be opened and written.\<close>

definition registry_works :: "'s registry \<Rightarrow> bool" where
  "registry_works G \<longleftrightarrow> (\<forall>path s. fst (rg_open_key G path s) \<noteq> None) \<and> (\<forall>k n ty data s. fst (rg_set_value G k n ty data s))"

lemma registry_works_set:
  assumes "registry_works G"
  shows "fst (set_windows_proxy G host port s)" "fst (unset_windows_proxy G s)"
proof -
  have works: "\<And>path s. fst (rg_open_key G path s) \<noteq> None" "\<And>k n ty data s. fst (rg_set_value G k n ty data s)"
    using assms unfolding registry_works_def by blast+
  have set: "fst (set_dword_value G k n v s)" "fst (set_string_value G k n w s)" for k n v w s
    by (simp_all add: set_dword_value_def set_string_value_def works(2))
  show "fst (set_windows_proxy G host port s)" "fst (unset_windows_proxy G s)"
    using works(1) [of kInternetSettingsKey s] set
    by (auto simp: set_windows_proxy_def unset_windows_proxy_def Let_def split: prod.split option.split bool.split)
      (metis fst_conv)+
qed

lemma start_proxy_setting:
  assumes "registry_laws G proxy" "registry_works G" "pf_registry P = G"
    and "start_proxy P config m s = (r, s')"
  shows "proxy s' = (case r of Inl e \<Rightarrow> proxy s | Inr m' \<Rightarrow>
      if wp_enabled config = Some True then (1, stored_text (proxy_server_text (wp_addr config) (the (wp_port config)))) else proxy s)"
proof -
  have "proxy (snd (set_windows_proxy G host port s)) = (1, stored_text (proxy_server_text host port))" for host port
    using set_windows_proxy_result [OF assms(1), of host port s] registry_works_set(1) [OF assms(2), of host port s]
    by (cases "set_windows_proxy G host port s") simp
  then show ?thesis
    using assms(3,4)
    by (auto simp: start_proxy_def bindIO_def liftE_def retIO_def read_member_def split: option.splits if_splits)
qed

lemma start_proxy_running:
  assumes "start_proxy P config m s = (Inr m', s')"
  shows "running (mp_shutdown m') = running (mp_shutdown m)"
  using assms unfolding start_proxy_def
  by (auto simp: retIO_def liftE_def read_member_def add_callback_def on_stop_def running_def split: option.splits if_splits elim!: bindIO_InrE)

text \<open>What the callbacks of the started program do to the proxy setting.\<close>

lemma stop_setting:
  assumes "registry_laws (pf_registry P) proxy" "registry_works (pf_registry P)"
    and "\<And>i s. proxy (pf_stop_inbound P i s) = proxy s"
  shows "proxy (fold (\<lambda>c s. snd (call_stop P c s)) (Stop_inbounds ids # (if enabled then [Unset_proxy] else [])) s) =
    (if enabled then (0, snd (proxy s)) else proxy s)"
proof -
  have stop: "proxy (fold (pf_stop_inbound P) ids s) = proxy s" for s
    by (induction ids arbitrary: s) (simp_all add: assms(3))
  have "proxy (snd (unset_windows_proxy (pf_registry P) s)) = (0, snd (proxy s))" for s
    using unset_windows_proxy_result [OF assms(1), of s] registry_works_set(2) [OF assms(2), of s]
    by (cases "unset_windows_proxy (pf_registry P) s") simp
  then show ?thesis by (simp add: stop)
qed


section \<open>A configuration with two inbounds of one tag\<close>

definition start_config :: app_config where
  "start_config = sample_config
     \<lparr>ac_inbounds := [\<lparr>ic_type = ''mixed'', ic_tag = ''in'', ic_listen = ''127.0.0.1'', ic_listen_port = 2080\<rparr>,
        \<lparr>ic_type = ''http'', ic_tag = ''in'', ic_listen = ''127.0.0.1'', ic_listen_port = 2081\<rparr>],
      ac_outbounds := [\<lparr>oc_type = ''direct'', oc_tag = ''direct'', oc_server = [], oc_server_port = None, oc_uuid = [],
          oc_tls = None, oc_transport = None\<rparr>],
      ac_windows_proxy := \<lparr>wp_enabled = Some True, wp_addr = ''127.0.0.1'', wp_port = Some 2080\<rparr>,
      ac_dns := \<lparr>dc_listen = None,
        dc_servers = [\<lparr>di_tag = ''d'', di_type = ''udp'', di_server = ''1.1.1.1'', di_server_port = 53,
          di_path = [], di_server_name = []\<rparr>], dc_rules = [], dc_final = ''d''\<rparr>\<rparr>"

definition mem_registry :: "(u32 \<times> wide_string) registry" where
  "mem_registry =
     \<lparr>rg_open_key = (\<lambda>path s. (Some 1, s)),
      rg_set_value = (\<lambda>k n ty data (e, t).
        (True, if n = ''ProxyEnable'' then (read_dword data, t) else if n = ''ProxyServer'' then (e, read_wide data) else (e, t))),
      rg_close_key = (\<lambda>k s. s), rg_set_option = (\<lambda>opt s. s)\<rparr>"

definition mem_platform :: "(u32 \<times> wide_string) platform" where
  "mem_platform =
     \<lparr>pf_open_file = (\<lambda>_. Some ''text''), pf_parse_json = (\<lambda>_. Inr (config_json start_config)), pf_load_rules = (\<lambda>_. Inr []),
      pf_listen = (\<lambda>e s. (Inr (), s)),
      pf_windows = \<lparr>wn_init_address = \<lparr>ua_luid = 0, ua_address = 0, ua_prefix_length = 0, ua_manual = False\<rparr>,
        wn_create_address = (\<lambda>r s. (0, s)), wn_delete_address = (\<lambda>r s. (0, s)), wn_init_route = sample_route 0 0 0 0,
        wn_create_route = (\<lambda>r s. (0, s)), wn_delete_route = (\<lambda>r s. (0, s)), wn_forward_table = (\<lambda>s. (0, [])),
        wn_interface_metric = (\<lambda>l s. (0, 0))\<rparr>,
      pf_registry = mem_registry, pf_stop_inbound = (\<lambda>i s. s)\<rparr>"

lemma start_config_loads:
  "load_config (pf_open_file mem_platform) (pf_parse_json mem_platform) ''config.json'' = Inr start_config"
proof -
  have "config_wf start_config"
    by (simp add: start_config_def sample_config_def config_wf_def outbound_wf_def tls_wf_def route_rule_wf_def no_condition_def
      windows_proxy_wf_def dns_wf_def dns_item_wf_def dns_types_def starts_with_def tun_wf_def)
  then show ?thesis by (simp add: load_config_def mem_platform_def config_json_back)
qed

lemma mem_registry_ok: "registry_laws (pf_registry mem_platform) (\<lambda>s. s)" "registry_works (pf_registry mem_platform)"
  by (auto simp: mem_platform_def mem_registry_def registry_laws_def registry_works_def split: prod.split)

lemma start_config_parts:
  assumes addr: "make_address I ''127.0.0.1'' = Some a" "make_address I ''1.1.1.1'' = Some b"
  shows "\<exists>m s'. main_setup I mem_platform (0, []) = (Inr m, s')"
proof -
  have "main_parts I mem_platform start_config \<noteq> Inl e" for e
    by (simp add: main_parts_def make_router_def make_dns_server_def check_server_def is_ip_literal_def addr find_nameserver_in_def
        make_outbound_def start_config_def sample_config_def mem_platform_def)
  then obtain m0 where m0: "main_parts I mem_platform start_config = Inr m0" by (cases "main_parts I mem_platform start_config") auto
  have fields: "ac_tun start_config = \<lparr>tn_enable = False, tn_tun_ip = [], tn_tun_next_ip = []\<rparr>"
    "dc_listen (ac_dns start_config) = None"
    "ac_inbounds start_config = [\<lparr>ic_type = ''mixed'', ic_tag = ''in'', ic_listen = ''127.0.0.1'', ic_listen_port = 2080\<rparr>,
      \<lparr>ic_type = ''http'', ic_tag = ''in'', ic_listen = ''127.0.0.1'', ic_listen_port = 2081\<rparr>]"
    "ac_windows_proxy start_config = \<lparr>wp_enabled = Some True, wp_addr = ''127.0.0.1'', wp_port = Some 2080\<rparr>"
    by (simp_all add: start_config_def sample_config_def)
  have listen: "pf_listen mem_platform e s = (Inr (), s)" for e s by (simp add: mem_platform_def)
  obtain m1 where "main_inbounds I mem_platform start_config m0 (0, []) = (Inr m1, (0, []))"
    by (simp add: main_inbounds_def start_tun_def fields bindIO_def start_inbound_def liftE_def listen_address_def addr
        inbound_kind_of_def listen start_dns_def retIO_def)
  then show ?thesis
    by (simp add: main_setup_def start_config_loads m0 bindIO_def liftE_def start_proxy_def fields read_member_def retIO_def)
qed

lemma quad_address: "parse_quad t \<noteq> None \<Longrightarrow> \<exists>a. make_address ref_ip t = Some a"
  by (cases "parse_groups t") auto

lemma start_config_starts: "\<exists>m s'. main_setup ref_ip mem_platform (0, []) = (Inr m, s')"
proof -
  have "parse_quad ''127.0.0.1'' \<noteq> None" "parse_quad ''1.1.1.1'' \<noteq> None" by code_simp+
  then obtain a b where "make_address ref_ip ''127.0.0.1'' = Some a" "make_address ref_ip ''1.1.1.1'' = Some b"
    using quad_address by blast
  then show ?thesis by (rule start_config_parts)
qed

theorem main_owns_inbounds_witness:
  "\<exists>m s'. main_setup ref_ip mem_platform (0, []) = (Inr m, s') \<and> length (mp_objects m) = 2 \<and>
     0 \<notin> set (map snd (mp_inbounds m)) \<and> 1 \<in> set (map snd (mp_inbounds m))"
proof -
  obtain m s' where run: "main_setup ref_ip mem_platform (0, []) = (Inr m, s')" using start_config_starts by blast
  have "inbound_tags start_config = [''in'', ''in'']" by (simp add: inbound_tags_def start_config_def sample_config_def)
  then show ?thesis using main_owns_inbounds [OF start_config_loads run] run by auto
qed


end
