(* ===== verification/Vless_Session.thy ===== *)
theory Vless_Session
  imports Outbound Text_IP
begin

text \<open>
  The start of a session through the VLESS outbound, from the client's first bytes to what the server
  has read when the relays begin: \<open>VlessOutbound::handle\<close> of \<open>src/outbound/vless_outbound.cpp\<close> with the
  sniffer and the protocol under it.
\<close>

text \<open>The first bytes of a session: its initial payload, or else what the first read brings.\<close>

definition first_bytes :: "'s raw_stream \<Rightarrow> session \<Rightarrow> 's \<Rightarrow> bytes \<Rightarrow> 's \<Rightarrow> bool" where
  "first_bytes tcp ses s first s0 \<longleftrightarrow>
     (if ses_initial_payload ses = [] then rs_read tcp s = (Inr first, s0)
      else first = ses_initial_payload ses \<and> s0 = s)"

text \<open>A stream that takes everything; \<open>written\<close> are the bytes it has got.\<close>

definition stream_logs :: "'s stream \<Rightarrow> ('s \<Rightarrow> bytes) \<Rightarrow> bool" where
  "stream_logs stream written \<longleftrightarrow> (\<forall>m s. \<exists>s'. st_write stream m s = (Inr (), s') \<and> written s' = written s @ m)"

text \<open>The host that the server is asked for.\<close>

definition named_host :: "asio_ip \<Rightarrow> host \<Rightarrow> string option \<Rightarrow> host" where
  "named_host I h sni = (case sni of None \<Rightarrow> h | Some name \<Rightarrow> if host_to_string I h = name then h else DomainName name)"

lemma vless_target_named:
  assumes "vo_override_address config" "first_bytes tcp ses s first s0" "first \<noteq> []"
    and "sniff_tls_sni first = Inr sni" "\<And>name. sni = Some name \<Longrightarrow> name \<noteq> [] \<and> length name \<le> 255"
  shows "vless_target I config tcp ses s =
    (Inr ((ses_destination ses)\<lparr>dst_host := named_host I (dst_host (ses_destination ses)) sni\<rparr>, first), s0)"
proof -
  have "override_destination I (ses_destination ses) first =
      Inr ((ses_destination ses)\<lparr>dst_host := named_host I (dst_host (ses_destination ses)) sni\<rparr>)"
    using assms(4,5) by (cases sni) (simp_all add: override_destination_def named_host_def host_domain_def domain_name_def)
  then show ?thesis
    using assms(1-3)
    by (auto simp: vless_target_def first_bytes_def read_initial_payload_def bindIO_def retIO_def liftE_def split: if_splits)
qed

lemma vless_start_written:
  assumes "stream_logs stream written" "parse_uuid (vc_uuid (vo_vless config)) = Inr uuid" "wf_host (dst_host dst)"
  obtains s2 where "vless_send_start config stream dst payload s1 = (Inr (), s2)"
    "written s2 = written s1 @ [0] @ uuid @ [0, 1] @ be16_bytes (dst_port dst) @ host_field (dst_host dst) @ payload"
proof -
  let ?request = "[0] @ uuid @ [0, 1] @ be16_bytes (dst_port dst) @ host_field (dst_host dst)"
  have b: "build_request (vo_vless config) dst = Inr ?request" using build_request_eq [OF assms(3)] assms(2) by simp
  obtain s2 where s2: "st_write stream ?request s1 = (Inr (), s2)" "written s2 = written s1 @ ?request"
    using assms(1) unfolding stream_logs_def by blast
  obtain s3 where s3: "st_write stream payload s2 = (Inr (), s3)" "written s3 = written s2 @ payload"
    using assms(1) unfolding stream_logs_def by blast
  show ?thesis
  proof (cases "payload = []")
    case True
    then show ?thesis using that [of s2] b s2 by (simp add: vless_send_start_def bindIO_def liftE_def retIO_def)
  next
    case False
    then show ?thesis using that [of s3] b s2 s3 by (simp add: vless_send_start_def bindIO_def liftE_def retIO_def)
  qed
qed

text \<open>
  C5: with the override of addresses, a session whose client begins with a TLS ClientHello that names
  a host is carried to this host: the VLESS server reads a request with the configured user
  id, the port of the destination and the sniffed name, unless it is the destination's own text, and after
  the request exactly the bytes the client has sent; then the relays run.
\<close>

theorem vless_session_start:
  assumes "wf_hello h" "host_of_exts (ch_exts h) = Some name" "name \<noteq> []" "length name \<le> 255"
    and "vo_override_address config" "first_bytes tcp ses s (hello_record v1 v2 h @ rest) s0"
    and "wf_host (dst_host (ses_destination ses))" "parse_uuid (vc_uuid (vo_vless config)) = Inr uuid"
    and "connect_stream I D R config s0 = (Inr stream, s1)" "stream_logs stream written"
  shows "\<exists>s2 out. vless_handle I D R race config tcp ses s =
      map_option (\<lambda>(r, s3). rs_close tcp (st_close stream s3)) (race (relay_tcp_to_stream tcp stream) (relay_stream_to_tcp stream tcp True) s2) \<and>
    written s2 = written s1 @ out \<and>
    read_request out =
      Some (\<lparr>vr_uuid = uuid, vr_command = 1, vr_port = dst_port (ses_destination ses),
        vr_host = (if host_to_string I (dst_host (ses_destination ses)) = name
          then wire_host (dst_host (ses_destination ses)) else DomainName name)\<rparr>,
        hello_record v1 v2 h @ rest)"
proof -
  let ?first = "hello_record v1 v2 h @ rest" and ?dst = "ses_destination ses"
  let ?named = "?dst\<lparr>dst_host := named_host I (dst_host ?dst) (Some name)\<rparr>"
  have some: "?first \<noteq> []" by (simp add: hello_record_def)
  have sni: "sniff_tls_sni ?first = Inr (Some name)" using sniff_encode [OF assms(1), of v1 v2 rest] assms(2) by simp
  have target: "vless_target I config tcp ses s = (Inr (?named, ?first), s0)"
    by (rule vless_target_named [OF assms(5,6) some sni]) (use assms(3,4) in simp)
  have wf: "wf_host (dst_host ?named)" using assms(3,4,7) by (simp add: named_host_def)
  obtain s2 where start: "vless_send_start config stream ?named ?first s1 = (Inr (), s2)"
    and log: "written s2 = written s1 @ [0] @ uuid @ [0, 1] @ be16_bytes (dst_port ?named) @ host_field (dst_host ?named) @ ?first"
    by (rule vless_start_written [OF assms(10,8) wf])
  have "vless_handle I D R race config tcp ses s =
      map_option (\<lambda>(r, s3). rs_close tcp (st_close stream s3)) (race (relay_tcp_to_stream tcp stream) (relay_stream_to_tcp stream tcp True) s2)"
    using target start assms(9) by (simp add: vless_handle_def bindIO_def retIO_def)
  moreover note log read_request_build [OF parse_uuid_length [OF assms(8)] wf, of "dst_port ?named" ?first]
  ultimately show ?thesis by (auto simp: named_host_def)
qed

text \<open>A session of the TUN inbound to 8.8.8.8, whose first read brings the ClientHello.\<close>

definition log_raw :: "bytes raw_stream" where
  "log_raw = \<lparr>rs_read = (\<lambda>s. (Inr (hello_record 3 1 demo_hello), s)), rs_write = (\<lambda>bs s. (None, s @ bs)), rs_close = (\<lambda>s. s)\<rparr>"

definition log_dialer :: "bytes dialer" where
  "log_dialer = \<lparr>d_connect = (\<lambda>d s. (Inr (), s)), d_tls_context = (\<lambda>b s. (Inr (), s)), d_tls_identity = (\<lambda>n b s. (Inr (), s)),
     d_tls_handshake = (\<lambda>s. (Inr (), s)), d_ws_handshake = (\<lambda>h p s. (Inr (), s))\<rparr>"

definition log_config :: vless_outbound_config where
  "log_config = \<lparr>vo_server = \<lparr>dst_host = DomainName ''proxy.io'', dst_port = 443\<rparr>,
     vo_vless = \<lparr>vc_uuid = ''550e8400-e29b-41d4-a716-4466554400ff''\<rparr>,
     vo_tls = Some \<lparr>tc_enabled = False, tc_server_name = [], tc_insecure = None\<rparr>, vo_transport = None, vo_override_address = True\<rparr>"

theorem vless_session_start_witness:
  "\<exists>out. vless_handle ref_ip log_dialer log_raw (\<lambda>a b s. Some (Inr (), s)) log_config log_raw
      \<lparr>ses_destination = \<lparr>dst_host = IPv4Address 0x08080808, dst_port = 443\<rparr>, ses_initial_payload = []\<rparr> [] = Some out \<and>
    read_request out = Some (\<lparr>vr_uuid = demo_uuid, vr_command = 1, vr_port = 443, vr_host = DomainName ''a.org''\<rparr>,
      hello_record 3 1 demo_hello)"
proof -
  let ?ses = "\<lparr>ses_destination = \<lparr>dst_host = IPv4Address 0x08080808, dst_port = 443\<rparr>, ses_initial_payload = []\<rparr>"
  have wf: "wf_hello demo_hello"
    by (simp add: wf_hello_def demo_hello_def hello_bytes_def hello_tail_def ext_header_def Let_def)
  have name: "host_of_exts (ch_exts demo_hello) = Some ''a.org''" by (simp add: demo_hello_def host_of_names_def)
  have first: "first_bytes log_raw ?ses [] (hello_record 3 1 demo_hello @ []) []" by (simp add: first_bytes_def log_raw_def)
  have uuid: "parse_uuid (vc_uuid (vo_vless log_config)) = Inr demo_uuid" unfolding log_config_def by code_simp
  have stream: "connect_stream ref_ip log_dialer log_raw log_config [] = (Inr (tcp_stream_impl log_raw), [])"
    by (simp add: connect_stream_def log_config_def normalize_tls_def read_member_def tcp_client_connect_def client_tls_setup_def
        log_dialer_def bindIO_def liftE_def retIO_def Let_def)
  have logs: "stream_logs (tcp_stream_impl log_raw) (\<lambda>s. s)"
    by (simp add: stream_logs_def tcp_stream_impl_def impl_write_def log_raw_def)
  have words: "host_to_string ref_ip (IPv4Address 0x08080808) \<noteq> ''a.org''" by code_simp
  note start = vless_session_start [where race = "\<lambda>a b s. Some (Inr (), s)" and ses = ?ses and config = log_config,
      OF wf name _ _ _ first _ uuid stream logs]
  show ?thesis using start words by (auto simp: log_config_def log_raw_def tcp_stream_impl_def)
qed

end
