(* ===== verification/Relay_Race.thy ===== *)
theory Relay_Race
  imports State_Machine Prelude "HOL-Library.Sublist"
begin

text \<open>
  Two relays that run next to each other. Each \<open>handle\<close> of the outbounds ends with
  \<open>co_await (relay_a || relay_b)\<close>: \<open>operator||\<close> of Boost.Asio runs both coroutines until one of them
  ends without an exception, and then cancels the other; or until both have raised. A relay is
  given by its steps, by what a cancellation does to it, and by its result.
\<close>

section \<open>The race\<close>

text \<open>Where a relay is: at its read, at its write, or at its end.\<close>

datatype relay_point = Reading | Writing bytes | Finished "unit res"

fun point_result :: "relay_point \<Rightarrow> unit res option" where
  "point_result (Finished r) = Some r"
| "point_result _ = None"

lemma point_result_Some [simp]: "point_result p = Some r \<longleftrightarrow> p = Finished r"
  by (cases p) auto

record 'h relay =
  rl_result :: "'h \<Rightarrow> unit res option"
  rl_step :: "'h \<Rightarrow> 'h \<Rightarrow> bool"
  rl_cancel :: "'h \<Rightarrow> 'h \<Rightarrow> bool"

definition raised :: "unit res option \<Rightarrow> bool" where
  "raised r \<longleftrightarrow> (case r of Some (Inl e) \<Rightarrow> True | _ \<Rightarrow> False)"

definition race_over :: "'u relay \<Rightarrow> 'd relay \<Rightarrow> 'u \<times> 'd \<Rightarrow> bool" where
  "race_over A B s \<longleftrightarrow> rl_result A (fst s) = Some (Inr ()) \<or> rl_result B (snd s) = Some (Inr ()) \<or>
     raised (rl_result A (fst s)) \<and> raised (rl_result B (snd s))"

inductive race_step :: "'u relay \<Rightarrow> 'd relay \<Rightarrow> 'u \<times> 'd \<Rightarrow> 'u \<times> 'd \<Rightarrow> bool" for A B where
  First: "\<not> race_over A B (u, d) \<Longrightarrow> rl_step A u u' \<Longrightarrow> race_step A B (u, d) (u', d)"
| Second: "\<not> race_over A B (u, d) \<Longrightarrow> rl_step B d d' \<Longrightarrow> race_step A B (u, d) (u, d')"
| Cancel_first: "race_over A B (u, d) \<Longrightarrow> rl_cancel A u u' \<Longrightarrow> race_step A B (u, d) (u', d)"
| Cancel_second: "race_over A B (u, d) \<Longrightarrow> rl_cancel B d d' \<Longrightarrow> race_step A B (u, d) (u, d')"

inductive_simps race_step_iff: "race_step A B (u, d) t"

text \<open>A write that fails may have delivered a part.\<close>

lemma prefix_partial: "prefix (xs @ take k bs) (xs @ bs @ ys)"
  by (metis append_take_drop_id append_assoc prefixI)

section \<open>What a relay promises\<close>

text \<open>
  An invariant that its steps and its cancellation keep, delivered bytes that only grow, and that
  it makes no step once it has ended.
\<close>

locale relay_contract =
  fixes R :: "'h relay" and inv :: "'h \<Rightarrow> bool" and delivered :: "'h \<Rightarrow> 'b list"
  assumes inv_turn: "inv h \<Longrightarrow> rl_step R h h' \<or> rl_cancel R h h' \<Longrightarrow> inv h'"
    and grows: "inv h \<Longrightarrow> rl_step R h h' \<or> rl_cancel R h h' \<Longrightarrow> prefix (delivered h) (delivered h')"
    and running: "rl_step R h h' \<Longrightarrow> rl_result R h = None"

locale relay_pair = up: relay_contract A I U + down: relay_contract B J D
  for A :: "'u relay" and I U and B :: "'d relay" and J D
begin

lemma run_up: "(rl_step A)\<^sup>*\<^sup>* u u' \<Longrightarrow> rl_result B d = None \<Longrightarrow> (race_step A B)\<^sup>*\<^sup>* (u, d) (u', d)"
proof (induction rule: rtranclp_induct)
  case (step v w)
  have "race_step A B (v, d) (w, d)"
    using step.hyps(2) up.running [OF step.hyps(2)] step.prems by (intro race_step.First) (simp_all add: race_over_def raised_def)
  with step.IH [OF step.prems] show ?case by (rule rtranclp.rtrancl_into_rtrancl)
qed simp

lemma run_down: "(rl_step B)\<^sup>*\<^sup>* d d' \<Longrightarrow> rl_result A u = None \<Longrightarrow> (race_step A B)\<^sup>*\<^sup>* (u, d) (u, d')"
proof (induction rule: rtranclp_induct)
  case (step v w)
  have "race_step A B (u, v) (u, w)"
    using step.hyps(2) down.running [OF step.hyps(2)] step.prems by (intro race_step.Second) (simp_all add: race_over_def raised_def)
  with step.IH [OF step.prems] show ?case by (rule rtranclp.rtrancl_into_rtrancl)
qed simp

lemma ends_up: "(rl_step A)\<^sup>*\<^sup>* u u' \<Longrightarrow> rl_result A u' = Some (Inr ()) \<Longrightarrow> rl_result B d = None \<Longrightarrow>
    (race_step A B)\<^sup>*\<^sup>* (u, d) (u', d) \<and> race_over A B (u', d)"
  using run_up by (simp add: race_over_def)

end

sublocale relay_pair \<subseteq> observed_machine "\<lambda>s. I (fst s) \<and> J (snd s)" "race_step A B" "\<lambda>s. I (fst s) \<and> J (snd s)"
  "map_prod U D" "rel_prod prefix prefix"
proof (unfold_locales, goal_cases)
  case (2 s t)
  then show ?case by (cases s) (auto simp: race_step_iff intro: up.inv_turn down.inv_turn)
next
  case (5 s t)
  then show ?case by (cases s) (auto simp: race_step_iff intro: up.grows down.grows)
qed (auto simp: rel_prod_sel elim: prefix_order.trans)

end
