(* ===== verification/Session_Relays.thy ===== *)
theory Session_Relays
  imports Outbound Relay_Race
begin

text \<open>
  A direct connection while it runs (\<open>src/outbound/direct_outbound.cpp\<close>): the two relays of
  \<open>DirectOutbound::handle\<close> as coroutines that are suspended at each read and write, under every
  interleaving. \<open>operator||\<close> of Boost.Asio ends when one of them ends without an exception, and then
  cancels the other; or when both have raised.
\<close>

section \<open>One relay, step by step\<close>

definition relay_read :: "stream_error + bytes \<Rightarrow> relay_point" where
  "relay_read result = (case result of Inl e \<Rightarrow> Finished (raise_code e) | Inr bs \<Rightarrow> Writing bs)"

definition relay_wrote :: "stream_error option \<Rightarrow> relay_point" where
  "relay_wrote error = (case error of Some e \<Rightarrow> Finished (Inl (SystemError (error_text e))) | None \<Rightarrow> Reading)"

text \<open>A turn of the loop is these two steps.\<close>

lemma direct_relay_turn:
  "direct_relay from_socket to_socket s =
     (case rs_read from_socket s of (x, s1) \<Rightarrow>
      case relay_read x of
        Finished r \<Rightarrow> Some (r, s1)
      | Writing bs \<Rightarrow>
          (case rs_write to_socket bs s1 of (y, s2) \<Rightarrow>
           case relay_wrote y of Finished r \<Rightarrow> Some (r, s2) | _ \<Rightarrow> direct_relay from_socket to_socket s2)
      | Reading \<Rightarrow> None)"
  by (subst direct_relay.simps) (auto simp: relay_read_def relay_wrote_def split: prod.split sum.split option.split)

text \<open>
  One direction: what the source has still to deliver before it ends, and what the sink has got. A
  read takes up to the size of the buffer; a write that fails or is cancelled may have sent a part.
\<close>

record half =
  hf_point :: relay_point
  hf_pending :: bytes
  hf_delivered :: bytes

definition relay_buffer :: nat where "relay_buffer = 16 * 1024"

inductive half_step :: "half \<Rightarrow> half \<Rightarrow> bool" where
  Read: "hf_point h = Reading \<Longrightarrow> hf_pending h = bs @ rest \<Longrightarrow> bs \<noteq> [] \<Longrightarrow> length bs \<le> relay_buffer \<Longrightarrow>
    half_step h (h\<lparr>hf_point := relay_read (Inr bs), hf_pending := rest\<rparr>)"
| Read_end: "hf_point h = Reading \<Longrightarrow> hf_pending h = [] \<Longrightarrow> half_step h (h\<lparr>hf_point := relay_read (Inl (Io Eof))\<rparr>)"
| Read_fails: "hf_point h = Reading \<Longrightarrow> e \<noteq> Io Eof \<Longrightarrow> half_step h (h\<lparr>hf_point := relay_read (Inl e)\<rparr>)"
| Write: "hf_point h = Writing bs \<Longrightarrow>
    half_step h (h\<lparr>hf_point := relay_wrote None, hf_delivered := hf_delivered h @ bs\<rparr>)"
| Write_fails: "hf_point h = Writing bs \<Longrightarrow>
    half_step h (h\<lparr>hf_point := relay_wrote (Some e), hf_delivered := hf_delivered h @ take k bs\<rparr>)"

inductive half_cancel :: "half \<Rightarrow> half \<Rightarrow> bool" where
  Cancel_read: "hf_point h = Reading \<Longrightarrow> half_cancel h (h\<lparr>hf_point := relay_read (Inl (Io Operation_aborted))\<rparr>)"
| Cancel_write: "hf_point h = Writing bs \<Longrightarrow>
    half_cancel h (h\<lparr>hf_point := relay_wrote (Some (Io Operation_aborted)), hf_delivered := hf_delivered h @ take k bs\<rparr>)"

section \<open>The two relays together\<close>

definition half_result :: "half \<Rightarrow> unit res option" where
  "half_result h = point_result (hf_point h)"

definition direct_half :: "half relay" where
  "direct_half = \<lparr>rl_result = half_result, rl_step = half_step, rl_cancel = half_cancel\<rparr>"

type_synonym direct_session = "half \<times> half"

text \<open>The state in which the relays start: the initial payload has been written.\<close>

definition session_init :: "bytes \<Rightarrow> bytes \<Rightarrow> bytes \<Rightarrow> direct_session" where
  "session_init payload client remote =
     (\<lparr>hf_point = Reading, hf_pending = client, hf_delivered = payload\<rparr>,
      \<lparr>hf_point = Reading, hf_pending = remote, hf_delivered = []\<rparr>)"

definition session_step :: "direct_session \<Rightarrow> direct_session \<Rightarrow> bool" where
  "session_step = race_step direct_half direct_half"

definition session_over :: "direct_session \<Rightarrow> bool" where
  "session_over = race_over direct_half direct_half"

section \<open>No byte is lost, repeated or moved\<close>

definition half_inv :: "bytes \<Rightarrow> half \<Rightarrow> bool" where
  "half_inv whole h \<longleftrightarrow>
     (case hf_point h of
        Reading \<Rightarrow> whole = hf_delivered h @ hf_pending h
      | Writing bs \<Rightarrow> whole = hf_delivered h @ bs @ hf_pending h
      | Finished (Inr _) \<Rightarrow> whole = hf_delivered h @ hf_pending h
      | Finished (Inl _) \<Rightarrow> prefix (hf_delivered h) whole)"

lemma half_inv_step:
  assumes "half_inv whole h" "half_step h h' \<or> half_cancel h h'"
  shows "half_inv whole h'"
  using assms prefix_partial
  by (auto simp: half_inv_def relay_read_def relay_wrote_def raise_code_def elim!: half_step.cases half_cancel.cases)

lemma half_inv_prefix: "half_inv whole h \<Longrightarrow> prefix (hf_delivered h) whole"
  by (auto simp: half_inv_def split: relay_point.splits sum.splits)

lemma half_step_grows: "half_step h h' \<or> half_cancel h h' \<Longrightarrow> prefix (hf_delivered h) (hf_delivered h')"
  by (auto elim!: half_step.cases half_cancel.cases)

lemma half_step_running: "half_step h h' \<Longrightarrow> half_result h = None"
  by (auto simp: half_result_def elim: half_step.cases)

interpretation half: relay_contract direct_half "half_inv whole" hf_delivered for whole
  using half_inv_step half_step_grows half_step_running by unfold_locales (simp_all add: direct_half_def)

interpretation relays: relay_pair direct_half "half_inv up" hf_delivered direct_half "half_inv down" hf_delivered for up down ..

section \<open>Ends\<close>

lemma half_copies:
  "half_step\<^sup>*\<^sup>* \<lparr>hf_point = Reading, hf_pending = bs, hf_delivered = d\<rparr> \<lparr>hf_point = Reading, hf_pending = [], hf_delivered = d @ bs\<rparr>"
proof (induction bs arbitrary: d)
  case (Cons b bs)
  have "half_step \<lparr>hf_point = Reading, hf_pending = b # bs, hf_delivered = d\<rparr> \<lparr>hf_point = Writing [b], hf_pending = bs, hf_delivered = d\<rparr>"
    using half_step.Read [of "\<lparr>hf_point = Reading, hf_pending = b # bs, hf_delivered = d\<rparr>" "[b]" bs]
    by (simp add: relay_read_def relay_buffer_def)
  moreover have "half_step \<lparr>hf_point = Writing [b], hf_pending = bs, hf_delivered = d\<rparr> \<lparr>hf_point = Reading, hf_pending = bs, hf_delivered = d @ [b]\<rparr>"
    using half_step.Write [of "\<lparr>hf_point = Writing [b], hf_pending = bs, hf_delivered = d\<rparr>" "[b]"] by (simp add: relay_wrote_def)
  ultimately show ?case using Cons.IH [of "d @ [b]"] by (auto intro: converse_rtranclp_into_rtranclp)
qed simp

lemma half_ends:
  "half_step \<lparr>hf_point = Reading, hf_pending = [], hf_delivered = d\<rparr> \<lparr>hf_point = Finished (Inr ()), hf_pending = [], hf_delivered = d\<rparr>"
  using half_step.Read_end [of "\<lparr>hf_point = Reading, hf_pending = [], hf_delivered = d\<rparr>"] by (simp add: relay_read_def raise_code_def)

text \<open>
  What the timing decides: the answer may be delivered completely before the end of the client's
  bytes is seen, or not at all.
\<close>

lemma session_may_deliver:
  "\<exists>t. session_step\<^sup>*\<^sup>* (session_init payload client remote) t \<and> session_over t \<and>
     hf_delivered (fst t) = payload @ client \<and> hf_delivered (snd t) = answer"
  if "answer = remote \<or> answer = []"
proof -
  let ?half = "\<lambda>p bs d. \<lparr>hf_point = p, hf_pending = bs, hf_delivered = d\<rparr>"
  have step: "rl_step direct_half = half_step" and running: "rl_result direct_half (?half Reading bs d) = None" for bs d
    by (simp_all add: direct_half_def half_result_def)
  have "(rl_step direct_half)\<^sup>*\<^sup>* (?half Reading client payload) (?half (Finished (Inr ())) [] (payload @ client))"
    unfolding step by (rule rtranclp.rtrancl_into_rtrancl [OF half_copies half_ends])
  note up = relays.ends_up [OF this _ running]
  have "\<exists>bs. session_step\<^sup>*\<^sup>* (session_init payload client remote) (?half Reading client payload, ?half Reading bs answer)"
    using that relays.run_down [OF half_copies [folded step] running, of client payload remote "[]"]
    by (auto simp: session_init_def session_step_def)
  then obtain bs where down: "session_step\<^sup>*\<^sup>* (session_init payload client remote) (?half Reading client payload, ?half Reading bs answer)" ..
  have "session_step\<^sup>*\<^sup>* (session_init payload client remote) (?half (Finished (Inr ())) [] (payload @ client), ?half Reading bs answer)"
    using rtranclp_trans [OF down] up [of bs answer] by (simp add: session_step_def direct_half_def half_result_def)
  then show ?thesis using up [of bs answer]
    by (intro exI conjI) (auto simp: session_over_def direct_half_def half_result_def)
qed

section \<open>A direct session\<close>

lemma session_inv_reachable:
  assumes "session_step\<^sup>*\<^sup>* (session_init payload client remote) s"
  shows "half_inv (payload @ client) (fst s) \<and> half_inv remote (snd s)"
proof -
  have "half_inv (payload @ client) (fst (session_init payload client remote)) \<and> half_inv remote (snd (session_init payload client remote))"
    by (simp add: session_init_def half_inv_def)
  then show ?thesis by (rule relays.inv_reachable) (use assms in \<open>simp add: session_step_def\<close>)
qed

text \<open>
  C4: under every interleaving of the two relays, what the destination has got is at any time a prefix
  of the initial payload and the client's bytes, and what the client has got a prefix of the
  destination's; nothing given is taken back. A direction that ends at the end of its source
  has delivered everything. The session ends with the first direction that ends: when the client
  has sent its last byte, its answer may still be cut off completely.
\<close>

theorem direct_session_transparent:
  assumes "session_step\<^sup>*\<^sup>* (session_init payload client remote) s"
  shows "prefix (hf_delivered (fst s)) (payload @ client) \<and> prefix (hf_delivered (snd s)) remote \<and>
    (\<forall>t. session_step\<^sup>*\<^sup>* s t \<longrightarrow> prefix (hf_delivered (fst s)) (hf_delivered (fst t)) \<and>
      prefix (hf_delivered (snd s)) (hf_delivered (snd t))) \<and>
    (hf_point (fst s) = Finished (Inr ()) \<and> hf_pending (fst s) = [] \<longrightarrow> hf_delivered (fst s) = payload @ client) \<and>
    (hf_point (snd s) = Finished (Inr ()) \<and> hf_pending (snd s) = [] \<longrightarrow> hf_delivered (snd s) = remote) \<and>
    (\<exists>t. session_step\<^sup>*\<^sup>* (session_init payload client remote) t \<and> session_over t \<and>
      hf_delivered (fst t) = payload @ client \<and> hf_delivered (snd t) = [])"
proof -
  note inv = session_inv_reachable [OF assms]
  have "rel_prod prefix prefix (map_prod hf_delivered hf_delivered s) (map_prod hf_delivered hf_delivered t)"
    if "session_step\<^sup>*\<^sup>* s t" for t
    by (rule relays.view_run [OF _ inv]) (use that in \<open>simp add: session_step_def\<close>)
  then show ?thesis
    using inv half_inv_prefix session_may_deliver [of "[]" remote payload client]
    by (simp add: half_inv_def rel_prod_sel split: relay_point.splits sum.splits)
qed

text \<open>A client that sends three bytes, of which one was the initial payload, while an answer of one byte is due.\<close>

theorem direct_session_transparent_witness:
  "\<exists>s. session_step\<^sup>*\<^sup>* (session_init [1] [2, 3] [9]) s \<and> hf_delivered (fst s) = [1, 2, 3] \<and> hf_delivered (snd s) = []"
  using direct_session_transparent [OF rtranclp.rtrancl_refl, of "[1]" "[2, 3]" "[9]",
      THEN conjunct2, THEN conjunct2, THEN conjunct2, THEN conjunct2, THEN conjunct2] by auto

end
