(* ===== verification/Vless_Relays.thy ===== *)
theory Vless_Relays
  imports Vless_Session Relay_Race
begin

text \<open>
  A VLESS session while it runs (\<open>src/outbound/vless_outbound.cpp\<close>): \<open>relay_tcp_to_stream\<close> and
  \<open>relay_stream_to_tcp\<close> as coroutines under every interleaving, over the \<open>Stream\<close> of
  \<open>src/transport/stream_utils.hpp\<close>. Unlike a direct relay, the stream hides the errors that mean
  that it is closed: a read then gives an empty message, a write returns as if it had been done.
  \<open>closed\<close> tells these errors; it is \<open>is_stream_closed\<close> on TCP and TLS and \<open>is_websocket_closed\<close> on a
  WebSocket.
\<close>

section \<open>The client's bytes\<close>

definition stream_wrote :: "(stream_error \<Rightarrow> bool) \<Rightarrow> stream_error option \<Rightarrow> relay_point" where
  "stream_wrote closed error =
     (case error of
        None \<Rightarrow> Reading
      | Some e \<Rightarrow> if closed e then Reading else Finished (Inl (SystemError (error_text e))))"

definition tcp_read :: "stream_error + bytes \<Rightarrow> relay_point" where
  "tcp_read result = (case result of Inl e \<Rightarrow> Finished (raise_code e) | Inr bs \<Rightarrow> Writing bs)"

text \<open>The loop turns by these two.\<close>

lemma relay_tcp_to_stream_turn:
  "relay_tcp_to_stream tcp \<lparr>st_read = rd, st_write = impl_write closed R, st_close = cl\<rparr> s =
     (case rs_read tcp s of (x, s1) \<Rightarrow>
      case tcp_read x of
        Finished r \<Rightarrow> Some (r, s1)
      | Writing bs \<Rightarrow>
          (case rs_write R bs s1 of (y, s2) \<Rightarrow>
           case stream_wrote closed y of
             Finished r \<Rightarrow> Some (r, s2)
           | _ \<Rightarrow> relay_tcp_to_stream tcp \<lparr>st_read = rd, st_write = impl_write closed R, st_close = cl\<rparr> s2)
      | Reading \<Rightarrow> None)"
  by (subst relay_tcp_to_stream.simps)
    (auto simp: tcp_read_def stream_wrote_def impl_write_def split: prod.split sum.split option.split)

text \<open>
  \<open>uh_open\<close> holds until a write fails; then the connection takes nothing any more. A cancelled write
  returns, and the next \<open>co_await\<close> of the cancelled coroutine raises.
\<close>

record up_half =
  uh_point :: relay_point
  uh_pending :: bytes
  uh_delivered :: bytes
  uh_open :: bool

definition client_buffer :: nat where "client_buffer = 16 * 1024"

inductive up_step :: "(stream_error \<Rightarrow> bool) \<Rightarrow> up_half \<Rightarrow> up_half \<Rightarrow> bool" for closed where
  Read: "uh_point h = Reading \<Longrightarrow> uh_pending h = bs @ rest \<Longrightarrow> bs \<noteq> [] \<Longrightarrow> length bs \<le> client_buffer \<Longrightarrow>
    up_step closed h (h\<lparr>uh_point := tcp_read (Inr bs), uh_pending := rest\<rparr>)"
| Read_end: "uh_point h = Reading \<Longrightarrow> uh_pending h = [] \<Longrightarrow> up_step closed h (h\<lparr>uh_point := tcp_read (Inl (Io Eof))\<rparr>)"
| Read_fails: "uh_point h = Reading \<Longrightarrow> e \<noteq> Io Eof \<Longrightarrow> up_step closed h (h\<lparr>uh_point := tcp_read (Inl e)\<rparr>)"
| Write: "uh_point h = Writing bs \<Longrightarrow> uh_open h \<Longrightarrow>
    up_step closed h (h\<lparr>uh_point := stream_wrote closed None, uh_delivered := uh_delivered h @ bs\<rparr>)"
| Write_fails: "uh_point h = Writing bs \<Longrightarrow> uh_open h \<Longrightarrow>
    up_step closed h (h\<lparr>uh_point := stream_wrote closed (Some e), uh_delivered := uh_delivered h @ take k bs, uh_open := False\<rparr>)"
| Write_closed: "uh_point h = Writing bs \<Longrightarrow> \<not> uh_open h \<Longrightarrow>
    up_step closed h (h\<lparr>uh_point := stream_wrote closed (Some e)\<rparr>)"

inductive up_cancel :: "up_half \<Rightarrow> up_half \<Rightarrow> bool" where
  Cancel_read: "uh_point h = Reading \<Longrightarrow> up_cancel h (h\<lparr>uh_point := tcp_read (Inl (Io Operation_aborted))\<rparr>)"
| Cancel_write: "uh_point h = Writing bs \<Longrightarrow>
    up_cancel h (h\<lparr>uh_point := Finished (Inl (SystemError (error_text (Io Operation_aborted)))),
      uh_delivered := uh_delivered h @ (if uh_open h then take k bs else []), uh_open := False\<rparr>)"

definition up_relay :: "(stream_error \<Rightarrow> bool) \<Rightarrow> up_half relay" where
  "up_relay closed = \<lparr>rl_result = \<lambda>h. point_result (uh_point h), rl_step = up_step closed, rl_cancel = up_cancel\<rparr>"

section \<open>The server's answer\<close>

definition message_read :: "(stream_error \<Rightarrow> bool) \<Rightarrow> bool \<Rightarrow> stream_error + bytes \<Rightarrow> relay_point" where
  "message_read closed first_message result =
     (case result of
        Inl e \<Rightarrow> if closed e then Finished (Inr ()) else Finished (Inl (SystemError (error_text e)))
      | Inr bs \<Rightarrow>
          if bs = [] then Finished (Inr ())
          else (case relayed_bytes first_message bs of Inl e \<Rightarrow> Finished (Inl e) | Inr out \<Rightarrow> Writing out))"

definition tcp_wrote :: "stream_error option \<Rightarrow> relay_point" where
  "tcp_wrote error = (case error of None \<Rightarrow> Reading | Some e \<Rightarrow> Finished (raise_code e))"

lemma relay_stream_to_tcp_turn:
  "relay_stream_to_tcp \<lparr>st_read = impl_read closed R, st_write = wr, st_close = cl\<rparr> tcp first_message s =
     (case rs_read R s of (x, s1) \<Rightarrow>
      case message_read closed first_message x of
        Finished r \<Rightarrow> Some (r, s1)
      | Writing out \<Rightarrow>
          (case rs_write tcp out s1 of (y, s2) \<Rightarrow>
           case tcp_wrote y of
             Finished r \<Rightarrow> Some (r, s2)
           | _ \<Rightarrow> relay_stream_to_tcp \<lparr>st_read = impl_read closed R, st_write = wr, st_close = cl\<rparr> tcp False s2)
      | Reading \<Rightarrow> None)"
  by (subst relay_stream_to_tcp.simps)
    (auto simp: message_read_def tcp_wrote_def impl_read_def split: prod.split sum.split option.split)

text \<open>
  \<open>dh_pending\<close> are the messages still to come, as the reads will return them: those of a WebSocket
  as the server sent them, those of TCP as the bytes happen to be cut.
\<close>

record down_half =
  dh_point :: relay_point
  dh_first :: bool
  dh_pending :: "bytes list"
  dh_delivered :: bytes

inductive down_step :: "(stream_error \<Rightarrow> bool) \<Rightarrow> down_half \<Rightarrow> down_half \<Rightarrow> bool" for closed where
  Message: "dh_point h = Reading \<Longrightarrow> dh_pending h = m # ms \<Longrightarrow>
    down_step closed h (h\<lparr>dh_point := message_read closed (dh_first h) (Inr m), dh_first := False, dh_pending := ms\<rparr>)"
| End: "dh_point h = Reading \<Longrightarrow> dh_pending h = [] \<Longrightarrow> e \<in> {Io Eof, Ws_closed} \<Longrightarrow>
    down_step closed h (h\<lparr>dh_point := message_read closed (dh_first h) (Inl e)\<rparr>)"
| Read_fails: "dh_point h = Reading \<Longrightarrow> e \<notin> {Io Eof, Ws_closed} \<Longrightarrow>
    down_step closed h (h\<lparr>dh_point := message_read closed (dh_first h) (Inl e)\<rparr>)"
| Write: "dh_point h = Writing bs \<Longrightarrow>
    down_step closed h (h\<lparr>dh_point := tcp_wrote None, dh_delivered := dh_delivered h @ bs\<rparr>)"
| Write_fails: "dh_point h = Writing bs \<Longrightarrow>
    down_step closed h (h\<lparr>dh_point := tcp_wrote (Some e), dh_delivered := dh_delivered h @ take k bs\<rparr>)"

inductive down_cancel :: "down_half \<Rightarrow> down_half \<Rightarrow> bool" where
  Cancel_read: "dh_point h = Reading \<Longrightarrow>
    down_cancel h (h\<lparr>dh_point := message_read is_stream_closed (dh_first h) (Inl (Io Operation_aborted))\<rparr>)"
| Cancel_write: "dh_point h = Writing bs \<Longrightarrow>
    down_cancel h (h\<lparr>dh_point := tcp_wrote (Some (Io Operation_aborted)), dh_delivered := dh_delivered h @ take k bs\<rparr>)"

definition down_relay :: "(stream_error \<Rightarrow> bool) \<Rightarrow> down_half relay" where
  "down_relay closed = \<lparr>rl_result = \<lambda>h. point_result (dh_point h), rl_step = down_step closed, rl_cancel = down_cancel\<rparr>"

section \<open>Invariants\<close>

text \<open>What is delivered before the connection fails, and what has been read, is never lost or moved.\<close>

definition up_inv :: "bytes \<Rightarrow> up_half \<Rightarrow> bool" where
  "up_inv whole h \<longleftrightarrow> prefix (uh_delivered h) whole \<and>
     (uh_open h \<longrightarrow>
       (case uh_point h of
          Reading \<Rightarrow> whole = uh_delivered h @ uh_pending h
        | Writing bs \<Rightarrow> whole = uh_delivered h @ bs @ uh_pending h
        | Finished (Inr _) \<Rightarrow> whole = uh_delivered h @ uh_pending h
        | Finished (Inl _) \<Rightarrow> True))"

text \<open>The bytes that the client is to get of the messages \<open>ms\<close>: up to an empty one, without the response header.\<close>

definition messages_payload :: "bytes list \<Rightarrow> bytes" where
  "messages_payload ms = concat (takeWhile (\<lambda>m. m \<noteq> []) ms)"

definition vless_answer :: "bytes list \<Rightarrow> bytes" where
  "vless_answer ms =
     (case takeWhile (\<lambda>m. m \<noteq> []) ms of
        [] \<Rightarrow> []
      | m # rest \<Rightarrow> (case strip_response_header m of Inl e \<Rightarrow> [] | Inr bs \<Rightarrow> bs @ concat rest))"

definition due :: "bool \<Rightarrow> bytes list \<Rightarrow> bytes" where
  "due first_message ms = (if first_message then vless_answer ms else messages_payload ms)"

lemma due_simps [simp]:
  "due b [] = []" "due b ([] # ms) = []"
  by (simp_all add: due_def vless_answer_def messages_payload_def)

lemma due_read:
  "m \<noteq> [] \<Longrightarrow> relayed_bytes b m = Inr bs \<Longrightarrow> due b (m # ms) = bs @ due False ms"
  "m \<noteq> [] \<Longrightarrow> relayed_bytes b m = Inl e \<Longrightarrow> due b (m # ms) = []"
  by (auto simp: due_def vless_answer_def messages_payload_def relayed_bytes_def split: if_splits)

definition down_inv :: "bytes \<Rightarrow> down_half \<Rightarrow> bool" where
  "down_inv whole h \<longleftrightarrow>
     (case dh_point h of
        Reading \<Rightarrow> whole = dh_delivered h @ due (dh_first h) (dh_pending h)
      | Writing bs \<Rightarrow> whole = dh_delivered h @ bs @ due False (dh_pending h) \<and> \<not> dh_first h
      | Finished r \<Rightarrow> prefix (dh_delivered h) whole)"


lemma stream_wrote_cases: "stream_wrote closed (Some e) = Reading \<or> (\<exists>x. stream_wrote closed (Some e) = Finished (Inl x))"
  by (simp add: stream_wrote_def)

lemma up_inv_turn:
  assumes "up_inv whole h" "up_step closed h h' \<or> up_cancel h h'"
  shows "up_inv whole h'"
proof -
  have cut: "prefix (d @ take k bs) (d @ bs @ rest)" for d bs rest :: bytes and k by (rule prefix_partial)
  show ?thesis using assms cut
    by (elim disjE up_step.cases up_cancel.cases)
      (auto simp: up_inv_def tcp_read_def raise_code_def stream_wrote_def split: if_splits)
qed

lemma up_grows: "up_step closed h h' \<or> up_cancel h h' \<Longrightarrow> prefix (uh_delivered h) (uh_delivered h')"
  by (auto elim!: up_step.cases up_cancel.cases)

lemma up_running: "up_step closed h h' \<Longrightarrow> point_result (uh_point h) = None"
  by (auto elim: up_step.cases)

interpretation up: relay_contract "up_relay closed" "up_inv whole" uh_delivered for closed whole
  using up_inv_turn up_grows up_running by unfold_locales (simp_all add: up_relay_def)

lemma message_read_cases:
  assumes "whole = d @ due b (m # ms)"
  shows "case message_read closed b (Inr m) of
      Writing bs \<Rightarrow> whole = d @ bs @ due False ms
    | Finished r \<Rightarrow> prefix d whole
    | Reading \<Rightarrow> False"
  using assms by (cases "m = []"; cases "relayed_bytes b m") (auto simp: message_read_def due_read)

lemma down_inv_turn:
  assumes "down_inv whole h" "down_step closed h h' \<or> down_cancel h h'"
  shows "down_inv whole h'"
  using assms(2)
proof (elim disjE)
  assume "down_step closed h h'"
  then show ?thesis
  proof cases
    case (Message m ms)
    with assms(1) message_read_cases [of whole "dh_delivered h" "dh_first h" m ms closed]
    show ?thesis by (simp add: down_inv_def split: relay_point.splits)
  next
    case (Write bs)
    with assms(1) show ?thesis by (simp add: down_inv_def tcp_wrote_def)
  next
    case (Write_fails bs e k)
    with assms(1) prefix_partial show ?thesis by (auto simp: down_inv_def tcp_wrote_def)
  qed (use assms(1) in \<open>auto simp: down_inv_def message_read_def\<close>)
next
  assume "down_cancel h h'"
  then show ?thesis using assms(1) prefix_partial
    by cases (auto simp: down_inv_def message_read_def tcp_wrote_def)
qed

lemma down_grows: "down_step closed h h' \<or> down_cancel h h' \<Longrightarrow> prefix (dh_delivered h) (dh_delivered h')"
  by (auto elim!: down_step.cases down_cancel.cases)

lemma down_running: "down_step closed h h' \<Longrightarrow> point_result (dh_point h) = None"
  by (auto elim: down_step.cases)

interpretation down: relay_contract "down_relay closed" "down_inv whole" dh_delivered for closed whole
  using down_inv_turn down_grows down_running by unfold_locales (simp_all add: down_relay_def)

interpretation vless: relay_pair "up_relay closed" "up_inv sent" uh_delivered "down_relay closed" "down_inv answer" dh_delivered
  for closed sent answer ..

section \<open>Runs\<close>

text \<open>
  The state in which \<open>VlessOutbound::handle\<close> starts the relays: \<open>sent\<close> has been written to the
  stream, the request and the client's first bytes.
\<close>

type_synonym vless_session = "up_half \<times> down_half"

definition vless_init :: "bytes \<Rightarrow> bytes \<Rightarrow> bytes list \<Rightarrow> vless_session" where
  "vless_init sent client answer =
     (\<lparr>uh_point = Reading, uh_pending = client, uh_delivered = sent, uh_open = True\<rparr>,
      \<lparr>dh_point = Reading, dh_first = True, dh_pending = answer, dh_delivered = []\<rparr>)"

definition vless_step :: "(stream_error \<Rightarrow> bool) \<Rightarrow> vless_session \<Rightarrow> vless_session \<Rightarrow> bool" where
  "vless_step closed = race_step (up_relay closed) (down_relay closed)"

definition vless_over :: "(stream_error \<Rightarrow> bool) \<Rightarrow> vless_session \<Rightarrow> bool" where
  "vless_over closed = race_over (up_relay closed) (down_relay closed)"

lemma up_copies:
  "(up_step closed)\<^sup>*\<^sup>* \<lparr>uh_point = Reading, uh_pending = bs, uh_delivered = d, uh_open = True\<rparr>
     \<lparr>uh_point = Reading, uh_pending = [], uh_delivered = d @ bs, uh_open = True\<rparr>"
proof (induction bs arbitrary: d)
  case (Cons b bs)
  let ?h = "\<lambda>p bs d. \<lparr>uh_point = p, uh_pending = bs, uh_delivered = d, uh_open = True\<rparr>"
  have "up_step closed (?h Reading (b # bs) d) (?h (Writing [b]) bs d)"
    using up_step.Read [of "?h Reading (b # bs) d" "[b]" bs] by (simp add: tcp_read_def client_buffer_def)
  moreover have "up_step closed (?h (Writing [b]) bs d) (?h Reading bs (d @ [b]))"
    using up_step.Write [of "?h (Writing [b]) bs d" "[b]"] by (simp add: stream_wrote_def)
  ultimately show ?case using Cons.IH [of "d @ [b]"] by (auto intro: converse_rtranclp_into_rtranclp)
qed simp

lemma up_ends:
  "up_step closed \<lparr>uh_point = Reading, uh_pending = [], uh_delivered = d, uh_open = True\<rparr>
     \<lparr>uh_point = Finished (Inr ()), uh_pending = [], uh_delivered = d, uh_open = True\<rparr>"
  using up_step.Read_end [of "\<lparr>uh_point = Reading, uh_pending = [], uh_delivered = d, uh_open = True\<rparr>"]
  by (simp add: tcp_read_def raise_code_def)

lemma down_message:
  assumes "m \<noteq> []" "relayed_bytes b m = Inr bs"
  shows "(down_step closed)\<^sup>*\<^sup>* \<lparr>dh_point = Reading, dh_first = b, dh_pending = m # ms, dh_delivered = d\<rparr>
     \<lparr>dh_point = Reading, dh_first = False, dh_pending = ms, dh_delivered = d @ bs\<rparr>"
proof -
  let ?h = "\<lambda>p b ms d. \<lparr>dh_point = p, dh_first = b, dh_pending = ms, dh_delivered = d\<rparr>"
  have "down_step closed (?h Reading b (m # ms) d) (?h (Writing bs) False ms d)"
    using down_step.Message [of "?h Reading b (m # ms) d" m ms] assms by (simp add: message_read_def)
  moreover have "down_step closed (?h (Writing bs) False ms d) (?h Reading False ms (d @ bs))"
    using down_step.Write [of "?h (Writing bs) False ms d" bs] by (simp add: tcp_wrote_def)
  ultimately show ?thesis by (meson converse_rtranclp_into_rtranclp r_into_rtranclp)
qed

lemma down_copies:
  "[] \<notin> set ms \<Longrightarrow>
    (down_step closed)\<^sup>*\<^sup>* \<lparr>dh_point = Reading, dh_first = False, dh_pending = ms, dh_delivered = d\<rparr>
      \<lparr>dh_point = Reading, dh_first = False, dh_pending = [], dh_delivered = d @ concat ms\<rparr>"
proof (induction ms arbitrary: d)
  case (Cons m ms)
  from down_message [of m False m closed ms d] Cons.IH [of "d @ m"] Cons.prems
  show ?case by (auto simp: relayed_bytes_def intro: rtranclp_trans)
qed simp

text \<open>
  The client ends while its answer has been delivered completely, or while nothing of it has been.
\<close>

lemma vless_may_end:
  assumes "answer = (v # n # rest) # ms" "unat n \<le> length rest" "[] \<notin> set ms" "got \<in> {[], drop (unat n) rest @ concat ms}"
  shows "\<exists>t. (vless_step closed)\<^sup>*\<^sup>* (vless_init sent client answer) t \<and> vless_over closed t \<and>
    uh_delivered (fst t) = sent @ client \<and> dh_delivered (snd t) = got"
proof -
  let ?up = "\<lambda>p bs d. \<lparr>uh_point = p, uh_pending = bs, uh_delivered = d, uh_open = True\<rparr>"
  let ?down = "\<lambda>b ms d. \<lparr>dh_point = Reading, dh_first = b, dh_pending = ms, dh_delivered = d\<rparr>"
  have steps: "rl_step (up_relay closed) = up_step closed" "rl_step (down_relay closed) = down_step closed"
    and running: "rl_result (up_relay closed) (?up Reading bs d) = None" "rl_result (down_relay closed) (?down b ms d) = None"
    and ended: "rl_result (up_relay closed) (?up (Finished (Inr ())) bs d) = Some (Inr ())" for bs ms b d
    by (simp_all add: up_relay_def down_relay_def)
  have "(down_step closed)\<^sup>*\<^sup>* (?down True answer []) (?down False [] (drop (unat n) rest @ concat ms))"
    using down_message [of "v # n # rest" True "drop (unat n) rest" closed ms "[]"] down_copies [OF assms(3), of closed "drop (unat n) rest"]
      assms(1,2) by (auto simp: relayed_bytes_def strip_response_header_spec intro: rtranclp_trans)
  note all = vless.run_down [OF this [folded steps] running(1)]
  obtain b ms' where down: "(vless_step closed)\<^sup>*\<^sup>* (vless_init sent client answer) (?up Reading client sent, ?down b ms' got)"
    using assms(4) all [of client sent] by (auto simp: vless_step_def vless_init_def)
  have "(up_step closed)\<^sup>*\<^sup>* (?up Reading client sent) (?up (Finished (Inr ())) [] (sent @ client))"
    by (rule rtranclp.rtrancl_into_rtrancl [OF up_copies up_ends])
  from vless.ends_up [OF this [folded steps] ended running(2), of b ms' got] down
  show ?thesis by (intro exI [where x = "(?up (Finished (Inr ())) [] (sent @ client), ?down b ms' got)"])
    (auto simp: vless_step_def vless_over_def)
qed

text \<open>What the server reads when more bytes follow.\<close>

lemma read_wire_host_append: "read_wire_host bs = Some (h, rest) \<Longrightarrow> read_wire_host (bs @ later) = Some (h, rest @ later)"
  by (cases bs) (auto split: if_splits simp: nth_append hd_append)

lemma read_request_append:
  assumes "read_request bs = Some (r, rest)"
  shows "read_request (bs @ later) = Some (r, rest @ later)"
proof -
  have long: "\<not> length bs < 22" using assms by (auto simp: read_request_def split: if_splits)
  then have "drop 21 (bs @ later) = drop 21 bs @ later" "take 16 (drop 1 (bs @ later)) = take 16 (drop 1 bs)"
    "\<And>i. i \<in> {0, 17, 18, 19, 20} \<Longrightarrow> (bs @ later) ! i = bs ! i"
    by (auto simp: nth_append)
  then show ?thesis using assms long read_wire_host_append
    by (auto simp: read_request_def split: if_splits)
qed

text \<open>A server that goes away: what is read of the client afterwards is dropped, and no write tells it.\<close>

lemma up_drops:
  assumes "closed (Io Connection_reset)"
  shows "(up_step closed)\<^sup>*\<^sup>* \<lparr>uh_point = Reading, uh_pending = bs, uh_delivered = d, uh_open = b\<rparr>
    \<lparr>uh_point = Reading, uh_pending = [], uh_delivered = d, uh_open = b \<and> bs = []\<rparr>"
proof (induction bs arbitrary: b)
  case (Cons x bs)
  let ?h = "\<lambda>p bs b. \<lparr>uh_point = p, uh_pending = bs, uh_delivered = d, uh_open = b\<rparr>"
  have "up_step closed (?h Reading (x # bs) b) (?h (Writing [x]) bs b)"
    using up_step.Read [of "?h Reading (x # bs) b" "[x]" bs] by (simp add: tcp_read_def client_buffer_def)
  moreover have "up_step closed (?h (Writing [x]) bs b) (?h Reading bs False)"
    using up_step.Write_fails [where h = "?h (Writing [x]) bs b" and bs = "[x]" and closed = closed and k = 0 and e = "Io Connection_reset"]
      up_step.Write_closed [where h = "?h (Writing [x]) bs b" and bs = "[x]" and closed = closed and e = "Io Connection_reset"] assms
    by (cases b) (simp_all add: stream_wrote_def)
  ultimately show ?case using Cons.IH [of False] by (auto intro: converse_rtranclp_into_rtranclp)
qed simp

lemma vless_may_drop:
  assumes "closed (Io Connection_reset)" "client \<noteq> []"
  shows "\<exists>t. (vless_step closed)\<^sup>*\<^sup>* (vless_init sent client answer) t \<and> vless_over closed t \<and>
    uh_point (fst t) = Finished (Inr ()) \<and> uh_pending (fst t) = [] \<and> uh_delivered (fst t) = sent"
proof -
  let ?up = "\<lambda>p bs b. \<lparr>uh_point = p, uh_pending = bs, uh_delivered = sent, uh_open = b\<rparr>"
  let ?down = "\<lparr>dh_point = Reading, dh_first = True, dh_pending = answer, dh_delivered = []\<rparr>"
  have "up_step closed (?up Reading [] False) (?up (Finished (Inr ())) [] False)"
    using up_step.Read_end [of "?up Reading [] False"] by (simp add: tcp_read_def raise_code_def)
  with up_drops [of closed client sent True, OF assms(1)] assms(2)
  have "(up_step closed)\<^sup>*\<^sup>* (?up Reading client True) (?up (Finished (Inr ())) [] False)"
    by (simp add: rtranclp.rtrancl_into_rtrancl)
  then have "(rl_step (up_relay closed))\<^sup>*\<^sup>* (?up Reading client True) (?up (Finished (Inr ())) [] False)"
    "rl_result (up_relay closed) (?up (Finished (Inr ())) [] False) = Some (Inr ())" "rl_result (down_relay closed) ?down = None"
    by (simp_all add: up_relay_def down_relay_def)
  from vless.ends_up [OF this] show ?thesis
    by (intro exI [where x = "(?up (Finished (Inr ())) [] False, ?down)"]) (simp add: vless_step_def vless_over_def vless_init_def)
qed

section \<open>A VLESS session\<close>

lemma vless_answer_cases:
  "vless_answer answer =
     (case answer of
        (version # n # rest) # ms \<Rightarrow> if unat n \<le> length rest then drop (unat n) rest @ messages_payload ms else []
      | _ \<Rightarrow> [])"
  by (auto simp: vless_answer_def messages_payload_def strip_response_header_spec split: list.split)

lemma vless_inv_reachable:
  assumes "(vless_step closed)\<^sup>*\<^sup>* (vless_init sent client answer) s"
  shows "up_inv (sent @ client) (fst s) \<and> down_inv (vless_answer answer) (snd s)"
proof -
  have "up_inv (sent @ client) (fst (vless_init sent client answer)) \<and> down_inv (vless_answer answer) (snd (vless_init sent client answer))"
    by (simp add: vless_init_def up_inv_def down_inv_def due_def)
  then show ?thesis by (rule vless.inv_reachable) (use assms in \<open>simp add: vless_step_def\<close>)
qed

lemma vless_grows:
  assumes "(vless_step closed)\<^sup>*\<^sup>* (vless_init sent client answer) s" "(vless_step closed)\<^sup>*\<^sup>* s t"
  shows "prefix (uh_delivered (fst s)) (uh_delivered (fst t)) \<and> prefix (dh_delivered (snd s)) (dh_delivered (snd t))"
  using vless.view_run [OF _ vless_inv_reachable [OF assms(1)], of closed t] assms(2) by (simp add: vless_step_def rel_prod_sel)

lemma vless_server_reads:
  assumes "read_request sent = Some (request, first)" "(vless_step closed)\<^sup>*\<^sup>* (vless_init sent client answer) s"
  shows "\<exists>got. read_request (uh_delivered (fst s)) = Some (request, got) \<and> prefix got (first @ client) \<and>
    (uh_open (fst s) \<and> uh_point (fst s) = Finished (Inr ()) \<and> uh_pending (fst s) = [] \<longrightarrow> got = first @ client)"
proof -
  obtain x where x: "uh_delivered (fst s) = sent @ x"
    using vless_grows [OF rtranclp.rtrancl_refl assms(2)] by (auto simp: vless_init_def prefix_def)
  have up: "read_request (uh_delivered (fst s)) = Some (request, first @ x)" using read_request_append [OF assms(1)] x by simp
  have "prefix x client" "uh_open (fst s) \<and> uh_point (fst s) = Finished (Inr ()) \<and> uh_pending (fst s) = [] \<longrightarrow> x = client"
    using vless_inv_reachable [OF assms(2)] x by (auto simp: up_inv_def)
  with up show ?thesis by simp
qed

lemma vless_client_gets:
  assumes "(vless_step closed)\<^sup>*\<^sup>* (vless_init sent client answer) s"
  shows "prefix (dh_delivered (snd s)) (vless_answer answer)"
    and "dh_point (snd s) = Reading \<and> dh_pending (snd s) = [] \<longrightarrow> dh_delivered (snd s) = vless_answer answer"
  using vless_inv_reachable [OF assms] by (auto simp: down_inv_def split: relay_point.splits)

text \<open>
  C6: a VLESS session whose start was written as a request \<open>request\<close> and the client's first bytes. Under
  every interleaving of the two relays, the server reads this request and then a prefix of the
  client's bytes, all of them when the relay has ended with its client and no write has failed.
  The client gets a prefix of the payloads of the answer's messages, up to an empty message and
  without the response header, which must be complete in the first message. Nothing given is taken
  back. A write to a stream that is closed is not reported: the relay may read the client to its
  end and end without an exception while the server has got nothing after the start.
\<close>

theorem vless_session_transparent:
  assumes "read_request sent = Some (request, first)" "(vless_step closed)\<^sup>*\<^sup>* (vless_init sent client answer) s"
    and "closed \<in> {is_stream_closed, is_websocket_closed}"
  shows "(\<exists>got. read_request (uh_delivered (fst s)) = Some (request, got) \<and> prefix got (first @ client) \<and>
      (uh_open (fst s) \<and> uh_point (fst s) = Finished (Inr ()) \<and> uh_pending (fst s) = [] \<longrightarrow> got = first @ client)) \<and>
    prefix (dh_delivered (snd s))
      (case answer of
        (version # n # rest) # ms \<Rightarrow> if unat n \<le> length rest then drop (unat n) rest @ messages_payload ms else []
      | _ \<Rightarrow> []) \<and>
    (dh_point (snd s) = Reading \<and> dh_pending (snd s) = [] \<longrightarrow> dh_delivered (snd s) = vless_answer answer) \<and>
    (\<forall>t. (vless_step closed)\<^sup>*\<^sup>* s t \<longrightarrow>
      prefix (uh_delivered (fst s)) (uh_delivered (fst t)) \<and> prefix (dh_delivered (snd s)) (dh_delivered (snd t))) \<and>
    (client \<noteq> [] \<longrightarrow> (\<exists>t. (vless_step closed)\<^sup>*\<^sup>* (vless_init sent client answer) t \<and> vless_over closed t \<and>
      uh_point (fst t) = Finished (Inr ()) \<and> uh_pending (fst t) = [] \<and> uh_delivered (fst t) = sent))"
proof -
  have "closed (Io Connection_reset)" using assms(3) by (auto simp: is_websocket_closed_def)
  then show ?thesis
    using vless_server_reads [OF assms(1,2)] vless_client_gets [OF assms(2)] vless_grows [OF assms(2)] vless_may_drop
    unfolding vless_answer_cases [symmetric] by blast
qed

text \<open>A request for \<open>a.org\<close> with the first byte \<open>22\<close>, after which the client sends two more and gets an answer in two messages.\<close>

definition demo_request :: bytes where
  "demo_request = [0] @ demo_uuid @ [0, 1] @ be16_bytes 443 @ host_field (DomainName ''a.org'')"

theorem vless_session_transparent_witness:
  "\<exists>s request. (vless_step is_stream_closed)\<^sup>*\<^sup>* (vless_init (demo_request @ [22]) [3, 1] [[0, 0, 72], [73]]) s \<and>
    read_request (uh_delivered (fst s)) = Some (request, [22, 3, 1]) \<and> dh_delivered (snd s) = [72, 73]"
proof -
  let ?init = "vless_init (demo_request @ [22]) [3, 1] [[0, 0, 72], [73]]"
  obtain request where request: "read_request (demo_request @ [22]) = Some (request, [22])"
    using read_request_build [of demo_uuid "DomainName ''a.org''" 443 "[22]"] by (auto simp: demo_request_def demo_uuid_def)
  obtain t where t: "(vless_step is_stream_closed)\<^sup>*\<^sup>* ?init t" "uh_delivered (fst t) = (demo_request @ [22]) @ [3, 1]"
      "dh_delivered (snd t) = [72, 73]"
    using vless_may_end [of "[[0, 0, 72], [73]]" 0 0 "[72]" "[[73]]" "[72, 73]" is_stream_closed "demo_request @ [22]" "[3, 1]"] by auto
  obtain got where got: "read_request (uh_delivered (fst t)) = Some (request, got)"
    using vless_session_transparent [OF request t(1), THEN conjunct1] by auto
  have "read_request ((demo_request @ [22]) @ [3, 1]) = Some (request, [22] @ [3, 1])" by (rule read_request_append [OF request])
  then have "got = [22, 3, 1]" using got t(2) by simp
  then show ?thesis using t got by blast
qed

end
