(* ===== verification/Proxied_Session.thy ===== *)
theory Proxied_Session
  imports Inbounds Session_Relays Vless_Relays
begin

text \<open>
  A session of the mixed inbound through the direct or the VLESS outbound, from the client's first
  byte to the relays and on: \<open>src/inbound/mixed_inbound.cpp\<close>, the protocols, the router, the handler
  of \<open>src/main.cpp\<close>, \<open>src/outbound/direct_outbound.cpp\<close> and \<open>vless_outbound.cpp\<close> together.
\<close>

text \<open>
  A destination that can be reached and takes everything; \<open>written\<close> are the bytes it has got. What
  is done with it leaves the client's socket alone, and so does the client's socket with it.
\<close>

definition remote_laws :: "'s tcp_socket \<Rightarrow> 's surroundings \<Rightarrow> ('s \<Rightarrow> bytes) \<Rightarrow> ('s \<Rightarrow> bytes) \<Rightarrow> ('s \<Rightarrow> bytes) \<Rightarrow> bool" where
  "remote_laws S E pending sent written \<longleftrightarrow>
     (\<forall>d s. \<exists>s'. en_connect E d s = (Inr (), s') \<and> pending s' = pending s \<and> sent s' = sent s \<and> written s' = written s) \<and>
     (\<forall>m s. \<exists>s'. rs_write (en_remote E) m s = (None, s') \<and> pending s' = pending s \<and> sent s' = sent s \<and> written s' = written s @ m)"

lemma direct_start:
  assumes "remote_laws S E pending sent written"
  obtains s2 where "outbound_handle I E Direct \<lparr>ses_destination = dst, ses_initial_payload = payload\<rparr> s =
      map_option snd (en_race E (direct_relay (en_client E) (en_remote E)) (direct_relay (en_remote E) (en_client E)) s2)"
    "pending s2 = pending s" "sent s2 = sent s" "written s2 = written s @ payload"
proof -
  obtain s1 where s1: "en_connect E dst s = (Inr (), s1)" "pending s1 = pending s" "sent s1 = sent s" "written s1 = written s"
    using assms unfolding remote_laws_def by blast
  obtain s2 where s2: "rs_write (en_remote E) payload s1 = (None, s2)" "pending s2 = pending s1" "sent s2 = sent s1"
      "written s2 = written s1 @ payload"
    using assms unfolding remote_laws_def by blast
  show ?thesis
  proof (cases "payload = []")
    case True
    then show ?thesis using that [of s1] s1 by (simp add: direct_handle_def)
  next
    case False
    then show ?thesis using that [of s2] s1 s2 by (simp add: direct_handle_def)
  qed
qed


section \<open>An instance\<close>

text \<open>The socket in memory next to a destination in memory.\<close>

definition beside :: "'s tcp_socket \<Rightarrow> ('s \<times> bytes) tcp_socket" where
  "beside S =
     \<lparr>so_read = (\<lambda>k (s, w). map_prod id (\<lambda>s'. (s', w)) (so_read S k s)),
      so_write = (\<lambda>m (s, w). map_prod id (\<lambda>s'. (s', w)) (so_write S m s)),
      so_read_until = (\<lambda>d (s, w). map_prod id (\<lambda>s'. (s', w)) (so_read_until S d s)),
      so_peek = (\<lambda>(s, w). map_prod id (\<lambda>s'. (s', w)) (so_peek S s))\<rparr>"

lemma socket_laws_beside:
  assumes "socket_laws S pending sent"
  shows "socket_laws (beside S) (pending \<circ> fst) (sent \<circ> fst)"
proof -
  note laws = assms [unfolded socket_laws_def]
  show ?thesis
    unfolding socket_laws_def
  proof (intro conjI allI impI)
    fix k and s :: "'a \<times> bytes" assume "k \<le> length ((pending \<circ> fst) s)"
    then obtain s' where "so_read S k (fst s) = (Inr (take k (pending (fst s))), s')"
        "pending s' = drop k (pending (fst s))" "sent s' = sent (fst s)"
      using laws [THEN conjunct1, THEN spec, THEN spec, of k "fst s"] by auto
    then show "\<exists>s'. so_read (beside S) k s = (Inr (take k ((pending \<circ> fst) s)), s') \<and>
        (pending \<circ> fst) s' = drop k ((pending \<circ> fst) s) \<and> (sent \<circ> fst) s' = (sent \<circ> fst) s"
      by (simp add: beside_def split_beta)
  next
    fix k and s :: "'a \<times> bytes" assume "length ((pending \<circ> fst) s) < k"
    then obtain e s' where "so_read S k (fst s) = (Inl e, s')"
      using laws [THEN conjunct2, THEN conjunct1, THEN spec, THEN spec, of "fst s" k] by auto
    then show "\<exists>e s'. so_read (beside S) k s = (Inl e, s')" by (simp add: beside_def split_beta)
  next
    fix m and s :: "'a \<times> bytes"
    obtain s' where "so_write S m (fst s) = (Inr (), s')" "pending s' = pending (fst s)" "sent s' = sent (fst s) @ m"
      using laws [THEN conjunct2, THEN conjunct2, THEN conjunct1, THEN spec, THEN spec, of m "fst s"] by auto
    then show "\<exists>s'. so_write (beside S) m s = (Inr (), s') \<and> (pending \<circ> fst) s' = (pending \<circ> fst) s \<and>
        (sent \<circ> fst) s' = (sent \<circ> fst) s @ m" by (simp add: beside_def split_beta)
  next
    fix d i and s :: "'a \<times> bytes" assume "index_of_str d (map chr ((pending \<circ> fst) s)) = Some i"
    then obtain s' n where "i + length d \<le> n" "n \<le> length (pending (fst s))"
        "so_read_until S d (fst s) = (Inr (map chr (take n (pending (fst s))), i + length d), s')"
        "pending s' = drop n (pending (fst s))" "sent s' = sent (fst s)"
      using laws [THEN conjunct2, THEN conjunct2, THEN conjunct2, THEN conjunct1, THEN spec, THEN spec, THEN spec, of d "fst s" i] by auto
    then show "\<exists>s' n. i + length d \<le> n \<and> n \<le> length ((pending \<circ> fst) s) \<and>
        so_read_until (beside S) d s = (Inr (map chr (take n ((pending \<circ> fst) s)), i + length d), s') \<and>
        (pending \<circ> fst) s' = drop n ((pending \<circ> fst) s) \<and> (sent \<circ> fst) s' = (sent \<circ> fst) s"
      by (intro exI [of _ "(s', snd s)"] exI [of _ n]) (simp add: beside_def split_beta)
  next
    fix b bs and s :: "'a \<times> bytes" assume "(pending \<circ> fst) s = b # bs"
    then obtain s' where "so_peek S (fst s) = (Inr b, s')" "pending s' = pending (fst s)" "sent s' = sent (fst s)"
      using laws [THEN conjunct2, THEN conjunct2, THEN conjunct2, THEN conjunct2, THEN spec, THEN spec, THEN spec, of "fst s" b bs] by auto
    then show "\<exists>s'. so_peek (beside S) s = (Inr b, s') \<and> (pending \<circ> fst) s' = (pending \<circ> fst) s \<and> (sent \<circ> fst) s' = (sent \<circ> fst) s"
      by (simp add: beside_def split_beta)
  qed
qed

definition pair_surroundings :: "((bytes \<times> bytes) \<times> bytes) surroundings" where
  "pair_surroundings =
     \<lparr>en_race = (\<lambda>a b s. a s), en_connect = (\<lambda>d s. (Inr (), s)),
      en_dialer = \<lparr>d_connect = (\<lambda>d s. (Inr (), s)), d_tls_context = (\<lambda>b s. (Inr (), s)), d_tls_identity = (\<lambda>n b s. (Inr (), s)),
        d_tls_handshake = (\<lambda>s. (Inr (), s)), d_ws_handshake = (\<lambda>h p s. (Inr (), s))\<rparr>,
      en_client = \<lparr>rs_read = (\<lambda>((p, w), o'). if p = [] then (Inl (Io Eof), ((p, w), o')) else (Inr p, (([], w), o'))),
        rs_write = (\<lambda>bs ((p, w), o'). (None, ((p, w @ bs), o'))), rs_close = (\<lambda>s. s)\<rparr>,
      en_remote = \<lparr>rs_read = (\<lambda>s. (Inl (Io Eof), s)), rs_write = (\<lambda>bs (s, o'). (None, (s, o' @ bs))), rs_close = (\<lambda>s. s)\<rparr>,
      en_server = \<lparr>rs_read = (\<lambda>s. (Inl (Io Eof), s)), rs_write = (\<lambda>bs (s, o'). (None, (s, o' @ bs))), rs_close = (\<lambda>s. s)\<rparr>\<rparr>"

lemma remote_laws_pair: "remote_laws S pair_surroundings (fst \<circ> fst) (snd \<circ> fst) snd"
  by (auto simp: remote_laws_def pair_surroundings_def)

text \<open>A SOCKS5 client that asks for \<open>wa.io\<close>, for which the router names its final outbound, and goes on with two bytes.\<close>

definition demo_client :: bytes where
  "demo_client = socks_greeting [0] @ socks_request \<lparr>dst_host = DomainName ''wa.io'', dst_port = 443\<rparr> @ [22, 3]"

lemma demo_client_asks:
  "client_asks I ((fst \<circ> fst) ((demo_client, []), [])) \<lparr>dst_host = DomainName ''wa.io'', dst_port = 443\<rparr> [22, 3] ([5, 0] @ socks_success_reply)"
  unfolding comp_def fst_conv demo_client_def by (rule asks_socks) simp_all

lemma demo_client_tag:
  "map_of [(''block'', out)] (case find (rule_applies ref_ip sample_router (dst_host \<lparr>dst_host = DomainName ''wa.io'', dst_port = 443\<rparr>))
      (rc_rules (ro_config sample_router)) of
    None \<Rightarrow> rc_final_outbound (ro_config sample_router) | Some rule \<Rightarrow> rr_outbound rule) = Some out"
proof -
  have "\<not> suffix_applies ''wa.io'' ''a.io''" by (auto simp: suffix_applies_def suffix_def Cons_eq_append_conv)
  then have "find (rule_applies ref_ip sample_router (DomainName ''wa.io'')) (rc_rules (ro_config sample_router)) = None"
    by (rule_tac sample_rules) simp
  moreover have "rc_final_outbound (ro_config sample_router) = ''block''" by (simp add: sample_router_def)
  ultimately show ?thesis by simp
qed


section \<open>Through a VLESS server\<close>

text \<open>The same for the stream to a VLESS server.\<close>

definition server_laws :: "asio_ip \<Rightarrow> 's surroundings \<Rightarrow> vless_outbound_config \<Rightarrow> 's stream \<Rightarrow>
    ('s \<Rightarrow> bytes) \<Rightarrow> ('s \<Rightarrow> bytes) \<Rightarrow> ('s \<Rightarrow> bytes) \<Rightarrow> bool" where
  "server_laws I E config stream pending sent written \<longleftrightarrow>
     (\<forall>s. \<exists>s'. connect_stream I (en_dialer E) (en_server E) config s = (Inr stream, s') \<and>
        pending s' = pending s \<and> sent s' = sent s \<and> written s' = written s) \<and>
     (\<forall>m s. \<exists>s'. st_write stream m s = (Inr (), s') \<and> pending s' = pending s \<and> sent s' = sent s \<and> written s' = written s @ m)"

lemma vless_start:
  assumes "server_laws I E config stream pending sent written" "build_request (vo_vless config) dst = Inr request"
    and "\<not> vo_override_address config"
  obtains s2 where "outbound_handle I E (Vless config) \<lparr>ses_destination = dst, ses_initial_payload = payload\<rparr> s =
      map_option (\<lambda>(r, s3). rs_close (en_client E) (st_close stream s3))
        (en_race E (relay_tcp_to_stream (en_client E) stream) (relay_stream_to_tcp stream (en_client E) True) s2)"
    "pending s2 = pending s" "sent s2 = sent s" "written s2 = written s @ request @ payload"
proof -
  have writes: "\<exists>s'. st_write stream m s = (Inr (), s') \<and> pending s' = pending s \<and> sent s' = sent s \<and> written s' = written s @ m" for m s
    using assms(1) unfolding server_laws_def by blast
  obtain s1 where s1: "connect_stream I (en_dialer E) (en_server E) config s = (Inr stream, s1)"
    "pending s1 = pending s" "sent s1 = sent s" "written s1 = written s"
    using assms(1) unfolding server_laws_def by blast
  obtain s2 where s2: "st_write stream request s1 = (Inr (), s2)" "pending s2 = pending s1" "sent s2 = sent s1" "written s2 = written s1 @ request"
    using writes by blast
  obtain s3 where s3: "st_write stream payload s2 = (Inr (), s3)" "pending s3 = pending s2" "sent s3 = sent s2" "written s3 = written s2 @ payload"
    using writes by blast
  note code = vless_handle_def vless_target_def vless_send_start_def bindIO_def liftE_def retIO_def
  show ?thesis
  proof (cases "payload = []")
    case True
    then show ?thesis using that [of s2] s1 s2 assms(2,3) by (simp add: code)
  next
    case False
    then show ?thesis using that [of s3] s1 s2 s3 assms(2,3) by (simp add: code)
  qed
qed

text \<open>
  C2: a client of the mixed inbound whose session the router gives to a VLESS outbound (without the
  override of addresses). The client gets the answer of its protocol; the server is connected and
  gets a request and the session's initial payload; then the relays run. Under every
  interleaving of the relays the server reads the request for exactly the destination that the client asked
  for, with the configured user id, and after it a prefix of exactly the bytes meant for the
  destination; the client gets, after its protocol's answer, a prefix of the payload of the
  server's answer.
\<close>

theorem proxied_vless_session:
  assumes "socket_laws S pending sent" "client_asks I (pending s) dst data reply"
    and "asio_text I" "asio_chars I" "global_host (dst_host dst)" "router_wf I r"
    and "map_of table (case find (rule_applies I r (dst_host dst)) (rc_rules (ro_config r)) of
        None \<Rightarrow> rc_final_outbound (ro_config r) | Some rule \<Rightarrow> rr_outbound rule) = Some (Vless config)"
    and "\<not> vo_override_address config" "parse_uuid (vc_uuid (vo_vless config)) = Inr uuid" "wf_host (dst_host dst)"
    and "server_laws I E config stream pending sent written"
  shows "\<exists>payload start s1 s2. mixed_read_session I S s = (Inr \<lparr>ses_destination = dst, ses_initial_payload = payload\<rparr>, s1) \<and>
    sent s1 = sent s @ reply \<and> payload @ pending s1 = data \<and>
    mixed_handle_client I S (session_handler I r table E) close s =
      map_option (\<lambda>(r, s3). rs_close (en_client E) (st_close stream s3))
        (en_race E (relay_tcp_to_stream (en_client E) stream) (relay_stream_to_tcp stream (en_client E) True) s2) \<and>
    sent s2 = sent s1 \<and> pending s2 = pending s1 \<and> written s2 = written s1 @ start \<and>
    (\<forall>closed answer t. (vless_step closed)\<^sup>*\<^sup>* (vless_init start (pending s2) answer) t \<longrightarrow>
      (\<exists>got. read_request (uh_delivered (fst t)) =
          Some (\<lparr>vr_uuid = uuid, vr_command = 1, vr_port = dst_port dst, vr_host = wire_host (dst_host dst)\<rparr>, got) \<and> prefix got data) \<and>
      prefix (dh_delivered (snd t)) (vless_answer answer))"
proof -
  let ?request = "[0] @ uuid @ [0, 1] @ be16_bytes (dst_port dst) @ host_field (dst_host dst)"
  let ?vr = "\<lparr>vr_uuid = uuid, vr_command = 1, vr_port = dst_port dst, vr_host = wire_host (dst_host dst)\<rparr>"
  have build: "build_request (vo_vless config) dst = Inr ?request" using build_request_eq [OF assms(10)] assms(9) by simp
  obtain payload s1 where s1: "mixed_read_session I S s = (Inr \<lparr>ses_destination = dst, ses_initial_payload = payload\<rparr>, s1)"
    "payload @ pending s1 = data" "sent s1 = sent s @ reply"
    "mixed_handle_client I S (session_handler I r table E) close s =
      outbound_handle I E (Vless config) \<lparr>ses_destination = dst, ses_initial_payload = payload\<rparr> s1"
    using mixed_session_outbound [OF assms(1-6), of table E close] unfolding assms(7) by auto
  obtain s2 where s2: "outbound_handle I E (Vless config) \<lparr>ses_destination = dst, ses_initial_payload = payload\<rparr> s1 =
      map_option (\<lambda>(r, s3). rs_close (en_client E) (st_close stream s3))
        (en_race E (relay_tcp_to_stream (en_client E) stream) (relay_stream_to_tcp stream (en_client E) True) s2)"
    "pending s2 = pending s1" "sent s2 = sent s1" "written s2 = written s1 @ ?request @ payload"
    by (rule vless_start [OF assms(11) build assms(8)])
  have "read_request (?request @ payload) = Some (?vr, payload)"
    using read_request_build [OF parse_uuid_length [OF assms(9)] assms(10), of "dst_port dst" payload] by simp
  note reads = vless_server_reads [OF this]
  have "(\<exists>got. read_request (uh_delivered (fst t)) = Some (?vr, got) \<and> prefix got data) \<and>
      prefix (dh_delivered (snd t)) (vless_answer answer)"
    if "(vless_step closed)\<^sup>*\<^sup>* (vless_init (?request @ payload) (pending s2) answer) t" for closed answer t
    using reads [OF that] vless_client_gets [OF that] s1(2) s2(2) by auto
  then show ?thesis using s1 s2 by metis
qed

text \<open>The client of the witness before, whose session goes through a VLESS server without TLS.\<close>

definition plain_config :: vless_outbound_config where
  "plain_config = log_config\<lparr>vo_override_address := False\<rparr>"

lemma server_laws_pair:
  "server_laws I pair_surroundings plain_config (tcp_stream_impl (en_server pair_surroundings)) (fst \<circ> fst) (snd \<circ> fst) snd"
  by (auto simp: server_laws_def pair_surroundings_def plain_config_def log_config_def connect_stream_def normalize_tls_def
      read_member_def tcp_client_connect_def client_tls_setup_def tcp_stream_impl_def impl_write_def bindIO_def liftE_def retIO_def Let_def)

theorem proxied_vless_session_witness:
  "\<exists>before start got s2. mixed_handle_client ref_ip (beside mem_socket)
      (session_handler ref_ip sample_router [(''block'', Vless plain_config)] pair_surroundings) (\<lambda>s. s)
      ((demo_client, []), []) =
        map_option (\<lambda>(r, s3). s3) (relay_tcp_to_stream (en_client pair_surroundings) (tcp_stream_impl (en_server pair_surroundings)) s2) \<and>
    s2 = (fst s2, before @ start) \<and>
    read_request start = Some (\<lparr>vr_uuid = demo_uuid, vr_command = 1, vr_port = 443, vr_host = DomainName ''wa.io''\<rparr>, got) \<and> prefix got [22, 3]"
proof -
  let ?dst = "\<lparr>dst_host = DomainName ''wa.io'', dst_port = 443\<rparr>"
  let ?s = "((demo_client, []), [])"
  let ?table = "[(''block'', Vless plain_config)]"
  let ?stream = "tcp_stream_impl (en_server pair_surroundings)"
  have uuid: "parse_uuid (vc_uuid (vo_vless plain_config)) = Inr demo_uuid" unfolding plain_config_def log_config_def by code_simp
  have plain: "\<not> vo_override_address plain_config" "wf_host (dst_host ?dst)" "global_host (dst_host ?dst)"
    by (simp_all add: plain_config_def)
  note session = proxied_vless_session [OF socket_laws_beside [OF socket_laws_mem] demo_client_asks asio_text_ref asio_chars_ref plain(3) sample_router_wf
      demo_client_tag plain(1) uuid plain(2) server_laws_pair, where close = "\<lambda>s. s"]
  show ?thesis using session
  proof (elim exE conjE)
    fix payload start s1 s2
    assume handled: "mixed_handle_client ref_ip (beside mem_socket) (session_handler ref_ip sample_router ?table pair_surroundings) (\<lambda>s. s) ?s =
        map_option (\<lambda>(r, s3). rs_close (en_client pair_surroundings) (st_close ?stream s3))
          (en_race pair_surroundings (relay_tcp_to_stream (en_client pair_surroundings) ?stream)
            (relay_stream_to_tcp ?stream (en_client pair_surroundings) True) s2)"
      and out: "snd s2 = snd s1 @ start"
      and all: "\<forall>closed answer t. (vless_step closed)\<^sup>*\<^sup>* (vless_init start ((fst \<circ> fst) s2) answer) t \<longrightarrow>
        (\<exists>got. read_request (uh_delivered (fst t)) =
          Some (\<lparr>vr_uuid = demo_uuid, vr_command = 1, vr_port = dst_port ?dst, vr_host = wire_host (dst_host ?dst)\<rparr>, got) \<and> prefix got [22, 3]) \<and>
        prefix (dh_delivered (snd t)) (vless_answer answer)"
    have "\<exists>got. read_request start = Some (\<lparr>vr_uuid = demo_uuid, vr_command = 1, vr_port = 443, vr_host = DomainName ''wa.io''\<rparr>, got) \<and> prefix got [22, 3]"
      using all [THEN spec, THEN spec, THEN spec, THEN mp, OF rtranclp.rtrancl_refl, THEN conjunct1] by (simp add: vless_init_def)
    moreover have "s2 = (fst s2, snd s1 @ start)" using out by (metis prod.collapse)
    moreover have "mixed_handle_client ref_ip (beside mem_socket) (session_handler ref_ip sample_router ?table pair_surroundings) (\<lambda>s. s) ?s =
        map_option (\<lambda>(r, s3). s3) (relay_tcp_to_stream (en_client pair_surroundings) ?stream s2)"
      unfolding handled by (simp add: pair_surroundings_def tcp_stream_impl_def)
    ultimately show ?thesis by blast
  qed
qed

end
