(* ===== verification/Flow_Hash.thy ===== *)
theory Flow_Hash
  imports Tun_Nat
begin

text \<open>
  \<open>TunFlowKeyHash\<close> of \<open>src/inbound/tun_nat.cpp\<close> on a machine with 64-bit \<open>size_t\<close>, and the hash
  map \<open>forward_\<close> of \<open>TunNat\<close> as buckets under this hash. The hashes of the standard library on
  32-bit and 16-bit integers are the parameters \<open>h32\<close> and \<open>h16\<close>. \<open>Tun_Nat\<close> has the
  map as an association list; here both are instances of one interface, so that they cannot be
  told apart by \<open>find\<close>, \<open>operator[]\<close> and \<open>erase\<close>.
\<close>

unbundle bit_operations_syntax

section \<open>The hash\<close>

type_synonym size_t = "64 word"

definition hash_combine :: "size_t \<Rightarrow> size_t \<Rightarrow> size_t" where
  "hash_combine hash value = hash XOR (value + 0x9e3779b9 + push_bit 6 hash + drop_bit 2 hash)"

definition flow_key_hash :: "(u32 \<Rightarrow> size_t) \<Rightarrow> (u16 \<Rightarrow> size_t) \<Rightarrow> flow_key \<Rightarrow> size_t" where
  "flow_key_hash h32 h16 key =
     (let hash = h32 (fk_src_ip key);
          hash = hash_combine hash (h16 (fk_src_port key));
          hash = hash_combine hash (h32 (fk_dst_ip key))
      in hash_combine hash (h16 (fk_dst_port key)))"

lemma xor_left_cancel: "a XOR b = a XOR c \<longleftrightarrow> b = c" for a b c :: "'a::len word"
  by (metis xor.left_neutral xor_self_eq xor.assoc)

lemma hash_combine_inject [simp]: "hash_combine hash v = hash_combine hash w \<longleftrightarrow> v = w"
  by (simp add: hash_combine_def xor_left_cancel)

text \<open>Flows that differ only in the port of their destination never collide, for any hash of ports without collisions.\<close>

lemma flow_key_hash_dst_port:
  "inj h16 \<Longrightarrow> flow_key_hash h32 h16 (key\<lparr>fk_dst_port := p\<rparr>) = flow_key_hash h32 h16 (key\<lparr>fk_dst_port := q\<rparr>) \<longleftrightarrow> p = q"
  by (simp add: flow_key_hash_def Let_def inj_eq)

text \<open>With hashes that return their argument, two flows of one machine to one server.\<close>

lemma flow_key_hash_example:
  "flow_key_hash ucast ucast \<lparr>fk_src_ip = 0x0a000002, fk_src_port = 50000, fk_dst_ip = 0x08080808, fk_dst_port = 53\<rparr> \<noteq>
   flow_key_hash ucast ucast \<lparr>fk_src_ip = 0x0a000002, fk_src_port = 50001, fk_dst_ip = 0x08080808, fk_dst_port = 53\<rparr>"
  by code_simp

section \<open>The map\<close>

text \<open>What \<open>TunNat\<close> uses of a map.\<close>

locale lookup_table =
  fixes empty :: 't and find :: "'t \<Rightarrow> 'k \<Rightarrow> 'v option" and assign :: "'k \<Rightarrow> 'v \<Rightarrow> 't \<Rightarrow> 't" and erase :: "'k \<Rightarrow> 't \<Rightarrow> 't"
    and valid :: "'t \<Rightarrow> bool"
  assumes find_empty: "find empty k = None"
    and find_assign: "valid t \<Longrightarrow> find (assign k v t) k' = (if k' = k then Some v else find t k')"
    and find_erase: "valid t \<Longrightarrow> find (erase k t) k' = (if k' = k then None else find t k')"
    and valid_empty: "valid empty"
    and valid_assign: "valid t \<Longrightarrow> valid (assign k v t)"
    and valid_erase: "valid t \<Longrightarrow> valid (erase k t)"

text \<open>The changes of a map, in order.\<close>

datatype ('k, 'v) table_change = Assign 'k 'v | Erase 'k

fun change_map :: "('k \<rightharpoonup> 'v) \<Rightarrow> ('k, 'v) table_change \<Rightarrow> ('k \<rightharpoonup> 'v)" where
  "change_map m (Assign k v) = m(k \<mapsto> v)"
| "change_map m (Erase k) = m(k := None)"

fun change_table :: "('k \<Rightarrow> 'v \<Rightarrow> 't \<Rightarrow> 't) \<Rightarrow> ('k \<Rightarrow> 't \<Rightarrow> 't) \<Rightarrow> 't \<Rightarrow> ('k, 'v) table_change \<Rightarrow> 't" where
  "change_table assign erase t (Assign k v) = assign k v t"
| "change_table assign erase t (Erase k) = erase k t"

context lookup_table
begin

lemma valid_change: "valid t \<Longrightarrow> valid (change_table assign erase t c)"
  by (cases c) (simp_all add: valid_assign valid_erase)

lemma find_change: "valid t \<Longrightarrow> find (change_table assign erase t c) = change_map (find t) c"
  by (cases c) (auto simp: find_assign find_erase)

lemma find_changes: "valid t \<Longrightarrow> find (foldl (change_table assign erase) t cs) = foldl change_map (find t) cs"
  by (induction cs arbitrary: t) (simp_all add: valid_change find_change)

lemma find_from_empty: "find (foldl (change_table assign erase) empty cs) = foldl change_map (\<lambda>_. None) cs"
proof -
  have "find empty = (\<lambda>_. None)" by (rule ext) (rule find_empty)
  then show ?thesis using find_changes [OF valid_empty] by simp
qed

end

section \<open>Association lists and buckets\<close>

interpretation flows: lookup_table "[] :: (flow_key \<times> u16) list" map_of AList.update AList.delete "\<lambda>_. True"
  by unfold_locales (auto simp: update_conv' delete_conv')

text \<open>A table of \<open>n\<close> buckets; a key is only in the bucket of its hash.\<close>

type_synonym buckets = "(flow_key \<times> u16) list list"

definition bucket_of :: "(flow_key \<Rightarrow> size_t) \<Rightarrow> buckets \<Rightarrow> flow_key \<Rightarrow> nat" where
  "bucket_of hash t key = unat (hash key) mod length t"

definition bucket_find :: "(flow_key \<Rightarrow> size_t) \<Rightarrow> buckets \<Rightarrow> flow_key \<Rightarrow> u16 option" where
  "bucket_find hash t key = map_of (t ! bucket_of hash t key) key"

definition bucket_assign :: "(flow_key \<Rightarrow> size_t) \<Rightarrow> flow_key \<Rightarrow> u16 \<Rightarrow> buckets \<Rightarrow> buckets" where
  "bucket_assign hash key p t = t[bucket_of hash t key := AList.update key p (t ! bucket_of hash t key)]"

definition bucket_erase :: "(flow_key \<Rightarrow> size_t) \<Rightarrow> flow_key \<Rightarrow> buckets \<Rightarrow> buckets" where
  "bucket_erase hash key t = t[bucket_of hash t key := AList.delete key (t ! bucket_of hash t key)]"

lemma bucket_of_update [simp]: "bucket_of hash (t[i := x]) key = bucket_of hash t key"
  by (simp add: bucket_of_def)

lemma bucket_of_less [simp]: "t \<noteq> [] \<Longrightarrow> bucket_of hash t key < length t"
  by (simp add: bucket_of_def)

interpretation hashed: lookup_table "replicate (Suc n) []" "bucket_find hash" "bucket_assign hash" "bucket_erase hash" "\<lambda>t. t \<noteq> []" for n hash
  by unfold_locales (auto simp: bucket_find_def bucket_assign_def bucket_erase_def nth_list_update update_conv' delete_conv'
    bucket_of_def nth_Cons' simp flip: replicate_Suc)

lemma hashed_flows_same:
  "bucket_find hash (foldl (change_table (bucket_assign hash) (bucket_erase hash)) (replicate (Suc n) []) cs) =
   map_of (foldl (change_table AList.update AList.delete) [] cs)"
  unfolding hashed.find_from_empty flows.find_from_empty ..

end
