(* ===== verification/Flow_Start.thy ===== *)
theory Flow_Start
  imports Tun_Properties Transport_Properties
begin

text \<open>
  The start of a UDP flow, \<open>TunUdpFlow::start\<close> of \<open>src/inbound/tun_inbound.cpp\<close>: the coroutine that
  connects the socket of a flow through the connector. With it, a datagram is followed from the
  adapter to the socket that is connected for it.
\<close>

section \<open>The coroutine\<close>

definition flow_destination :: "asio_ip \<Rightarrow> udp_flow \<Rightarrow> destination res" where
  "flow_destination I f =
     bindE (host_ipv4 I (ipv4_to_string I (fk_dst_ip (fl_session f)))) (\<lambda>h.
     Inr \<lparr>dst_host = h, dst_port = fk_dst_port (fl_session f)\<rparr>)"

text \<open>The critical section after the connection, and the coroutines that are spawned.\<close>

definition flow_started :: "nat \<Rightarrow> tun_inbound \<Rightarrow> tun_inbound" where
  "flow_started flow st =
     (let (spawned, f) = start_connected (flow_objs st ! flow)
      in st\<lparr>flow_objs := (flow_objs st)[flow := f], io_tasks := io_tasks st @ map (Run_flow flow) spawned\<rparr>)"

text \<open>\<open>K\<close> are the calls on the flow's socket; \<open>resolve\<close> is the DNS server of the connector \<open>c\<close>. Any exception erases the flow.\<close>

definition flow_start :: "asio_ip \<Rightarrow> 's socket_calls \<Rightarrow> (string \<Rightarrow> ('s, address list) io) \<Rightarrow> connector \<Rightarrow> nat \<Rightarrow>
    tun_inbound \<times> 's \<Rightarrow> tun_inbound \<times> 's" where
  "flow_start I K resolve c flow = (\<lambda>(st, s).
     case bindIO (liftE (flow_destination I (flow_objs st ! flow))) (connect_udp I K resolve c) s of
       (Inl e, s1) \<Rightarrow> (erase_udp_flow (fl_nat_port (flow_objs st ! flow)) st, s1)
     | (Inr _, s1) \<Rightarrow> (flow_started flow st, s1))"

text \<open>It is a step of the inbound.\<close>

lemma flow_start_step:
  assumes "flow < length (flow_objs st)"
  shows "tun_step st (fst (flow_start I K resolve c flow (st, s)))"
proof -
  obtain sps f where f: "start_connected (flow_objs st ! flow) = (sps, f)" by (cases "start_connected (flow_objs st ! flow)")
  have "flow_started flow st = st\<lparr>flow_objs := (flow_objs st)[flow := f], io_tasks := io_tasks st @ map (Run_flow flow) sps\<rparr>"
    by (simp add: flow_started_def f)
  with tun_step.Flow_connected [OF assms f] tun_step.Flow_erased
  show ?thesis by (simp add: flow_start_def split: prod.split sum.split)
qed

section \<open>Connecting\<close>

lemma flow_destination_eq:
  "asio_text I \<Longrightarrow> flow_destination I f =
    Inr \<lparr>dst_host = IPv4Address (address_v4_from_net_order_u32 (fk_dst_ip (fl_session f))), dst_port = fk_dst_port (fl_session f)\<rparr>"
  by (simp add: flow_destination_def ipv4_to_string_def host_ipv4_def ipv4_parse_def asio_text_def)

lemma connect_udp_literal:
  assumes "calls_laws K attempts refusal"
  shows "\<exists>s'. connect_udp I K resolve c \<lparr>dst_host = IPv4Address a, dst_port = port\<rparr> s =
      (case refusal (V4 a) of None \<Rightarrow> Inr () | Some e \<Rightarrow> Inl (RuntimeError (''udp connect failed: '' @ e)), s') \<and>
    attempts s' = attempts s @ [(V4 a, port)]"
proof -
  obtain s1 s2 s3 where "k_open K (V4 a) (k_close K s) = (None, s1)" "bind_socket_to_interface K (V4 a) (outbound_interface_index c) s1 = (True, s2)"
    "k_connect K (V4 a) port s2 = (refusal (V4 a), s3)" "attempts s3 = attempts s @ [(V4 a, port)]"
    by (rule attempt_ok [OF assms])
  then show ?thesis
    by (cases "refusal (V4 a)")
      (simp_all add: connect_udp_def resolve_destination_def host_is_ip_def bindIO_def liftE_def retIO_def)
qed

lemma flow_start_connects:
  assumes "asio_text I" "calls_laws K attempts refusal" "fl_session (flow_objs st ! flow) = key"
  shows "\<exists>s'. flow_start I K resolve c flow (st, s) =
      (case refusal (V4 (address_v4_from_net_order_u32 (fk_dst_ip key))) of
         None \<Rightarrow> flow_started flow st
       | Some e \<Rightarrow> erase_udp_flow (fl_nat_port (flow_objs st ! flow)) st, s') \<and>
    attempts s' = attempts s @ [(V4 (address_v4_from_net_order_u32 (fk_dst_ip key)), fk_dst_port key)]"
proof -
  let ?a = "address_v4_from_net_order_u32 (fk_dst_ip key)"
  obtain s' where "connect_udp I K resolve c \<lparr>dst_host = IPv4Address ?a, dst_port = fk_dst_port key\<rparr> s =
      (case refusal (V4 ?a) of None \<Rightarrow> Inr () | Some e \<Rightarrow> Inl (RuntimeError (''udp connect failed: '' @ e)), s')"
    "attempts s' = attempts s @ [(V4 ?a, fk_dst_port key)]"
    using connect_udp_literal [OF assms(2)] by blast
  then show ?thesis
    by (cases "refusal (V4 ?a)") (simp_all add: flow_start_def flow_destination_eq [OF assms(1)] assms(3) bindIO_def liftE_def)
qed

section \<open>A datagram on its way\<close>

lemma net_order_bytes: "20 \<le> length p \<Longrightarrow> address_v4_from_net_order_u32 (get32 16 p) = v4_of_bytes (take 4 (drop 16 p))"
  by (simp add: address_v4_from_net_order_u32_def get32_def v4_of_bytes_def upt_rec flip: numeral_2_eq_2 numeral_3_eq_3)

text \<open>A flow that is not registered yet is made, and its start is handed to the \<open>io_context\<close>.\<close>

lemma new_flow_spawned:
  assumes "udp_packet p t len" "lookup_or_create (udp_nat st) (packet_flow t p) = Some (n, table)"
    and "handle_udp_packet st p = Some (Inr (False, p), st')" "map_of (udp_flows st') (lr_nat_port n) = Some i"
    and "map_of (udp_flows st) (lr_nat_port n) = None"
  shows "Run_flow i Spawn_start \<in> set (io_tasks st')"
proof -
  have none: "map_of (udp_flows (case lr_evicted_nat_port n of None \<Rightarrow> st\<lparr>udp_nat := table\<rparr> | Some e \<Rightarrow> erase_udp_flow e (st\<lparr>udp_nat := table\<rparr>)))
      (lr_nat_port n) = None"
    using assms(5) by (auto simp: erase_udp_flow_def delete_conv' split: option.split)
  have parse: "parse_udp p = Inr (Some (t, len, packet_flow t p))" using assms(1) by (simp add: parse_udp_Some)
  show ?thesis
    using assms(3,4) none
    by (auto simp: handle_udp_packet_def parse assms(2) find_flow_def flow_enqueue_def enqueue_def new_flow_def Let_def update_conv'
        split: option.splits sum.splits)
qed



section \<open>The two loops of a started flow\<close>

text \<open>
  \<open>send_loop\<close> and \<open>recv_loop\<close> as they run on their own; \<open>Udp_Flow\<close> has their interleavings. \<open>transmit\<close>
  and \<open>receive\<close> are \<open>async_send\<close> and \<open>async_receive\<close> on the flow's socket.
\<close>

partial_function (option) send_loop ::
    "(bytes \<Rightarrow> 's \<Rightarrow> string option \<times> 's) \<Rightarrow> nat \<Rightarrow> tun_inbound \<times> 's \<Rightarrow> (tun_inbound \<times> 's) option" where
  "send_loop transmit flow c =
     (case c of (st, s) \<Rightarrow>
      case send_take (flow_objs st ! flow) of
        (None, f) \<Rightarrow> Some (st\<lparr>flow_objs := (flow_objs st)[flow := f]\<rparr>, s)
      | (Some payload, f) \<Rightarrow>
          (case transmit payload s of
             (Some e, s1) \<Rightarrow> Some (erase_udp_flow (fl_nat_port f) (st\<lparr>flow_objs := (flow_objs st)[flow := f]\<rparr>), s1)
           | (None, s1) \<Rightarrow> send_loop transmit flow (st\<lparr>flow_objs := (flow_objs st)[flow := f]\<rparr>, s1)))"

partial_function (option) recv_loop ::
    "('s \<Rightarrow> (string + bytes) \<times> 's) \<Rightarrow> u16 \<Rightarrow> flow_key \<Rightarrow> tun_inbound \<times> 's \<Rightarrow> (tun_inbound \<times> 's) option" where
  "recv_loop receive nat_port session c =
     (case c of (st, s) \<Rightarrow>
      case receive s of
        (Inl ec, s1) \<Rightarrow> Some (erase_udp_flow nat_port st, s1)
      | (Inr data, s1) \<Rightarrow>
          (case write_udp_response session data st of
             Inl e \<Rightarrow> Some (erase_udp_flow nat_port st, s1)
           | Inr st1 \<Rightarrow> recv_loop receive nat_port session (st1, s1)))"

text \<open>On a socket that takes everything the queue is sent in order and left empty.\<close>

lemma send_loop_drains:
  assumes "\<And>m s. \<exists>s'. transmit m s = (None, s') \<and> log s' = log s @ [m]" "flow < length (flow_objs st)"
  shows "\<exists>s'. send_loop transmit flow (st, s) =
      Some (st\<lparr>flow_objs := (flow_objs st)[flow := (flow_objs st ! flow)\<lparr>fl_pending := [], fl_sending := False\<rparr>]\<rparr>, s') \<and>
    log s' = log s @ fl_pending (flow_objs st ! flow)"
  using assms(2)
proof (induction "fl_pending (flow_objs st ! flow)" arbitrary: st s)
  case Nil
  then have idle: "(flow_objs st ! flow)\<lparr>fl_pending := [], fl_sending := False\<rparr> = (flow_objs st ! flow)\<lparr>fl_sending := False\<rparr>"
    by (cases "flow_objs st ! flow") simp
  show ?case unfolding idle by (subst send_loop.simps) (simp add: send_take_def Nil(1) [symmetric])
next
  case (Cons m ms)
  let ?f = "(flow_objs st ! flow)\<lparr>fl_pending := ms\<rparr>" and ?st = "\<lambda>f. st\<lparr>flow_objs := (flow_objs st)[flow := f]\<rparr>"
  have pending: "fl_pending (flow_objs st ! flow) = m # ms" using Cons.hyps(2) by simp
  obtain s1 where s1: "transmit m s = (None, s1)" "log s1 = log s @ [m]" using assms(1) by blast
  have "send_loop transmit flow (st, s) = send_loop transmit flow (?st ?f, s1)"
    by (subst send_loop.simps) (simp add: send_take_def pending s1)
  with Cons.hyps(1) [of "?st ?f" s1] Cons.prems pending s1(2) show ?case by auto
qed

section \<open>Replies\<close>

definition is_reply :: "flow_key \<Rightarrow> bytes \<Rightarrow> bytes \<Rightarrow> bool" where
  "is_reply session data q \<longleftrightarrow> udp_packet q 20 (8 + length data) \<and> packet_flow 20 q = reverse_flow session \<and> drop 28 q = data \<and>
     checksum (take 20 q) = 0 \<and> checksum (pseudo_of q 17 20 (8 + length data)) = 0 \<and> get16 26 q \<noteq> 0"

text \<open>A socket on which the datagrams \<open>incoming\<close> arrive before it fails.\<close>

definition receive_laws :: "('s \<Rightarrow> (string + bytes) \<times> 's) \<Rightarrow> ('s \<Rightarrow> bytes list) \<Rightarrow> bool" where
  "receive_laws receive incoming \<longleftrightarrow>
     (\<forall>s. incoming s = [] \<longrightarrow> (\<exists>e s'. receive s = (Inl e, s'))) \<and>
     (\<forall>s d ds. incoming s = d # ds \<longrightarrow> (\<exists>s'. receive s = (Inr d, s') \<and> incoming s' = ds))"



end
