(* ===== verification/Listeners.thy ===== *)
theory Listeners
  imports Inbounds
begin

text \<open>
  Listening and closing: \<open>src/inbound/listen.cpp\<close>, the accept loops and \<open>stop\<close> of the inbounds, and
  \<open>close_socket\<close> of \<open>src/core/utils.cpp\<close>. The calls on an acceptor and on a socket are Asio's.
\<close>

section \<open>The operations\<close>

text \<open>\<open>'c\<close> is an accepted socket.\<close>

record ('s, 'c) listener_calls =
  lc_open :: "address \<Rightarrow> ('s, unit) io"
  lc_reuse_address :: "('s, unit) io"
  lc_bind :: "endpoint \<Rightarrow> ('s, unit) io"
  lc_listen :: "('s, unit) io"
  lc_accept :: "('s, 'c) io"
  lc_cancel :: "'s \<Rightarrow> 's"
  lc_close :: "'s \<Rightarrow> 's"

definition make_acceptor :: "('s, 'c) listener_calls \<Rightarrow> endpoint \<Rightarrow> ('s, unit) io" where
  "make_acceptor L e =
     bindIO (lc_open L (fst e)) (\<lambda>_.
     bindIO (lc_reuse_address L) (\<lambda>_.
     bindIO (lc_bind L e) (\<lambda>_. lc_listen L)))"

text \<open>
  \<open>start\<close> of the proxy inbounds: \<open>spawn c\<close> adds the coroutine that handles the client \<open>c\<close>. While the loop
  waits for a client the other coroutines run; what they do is part of \<open>lc_accept\<close>.
\<close>

partial_function (option) accept_loop :: "('s, 'c) listener_calls \<Rightarrow> ('c \<Rightarrow> 's \<Rightarrow> 's) \<Rightarrow> 's \<Rightarrow> (unit res \<times> 's) option" where
  "accept_loop L spawn s =
     (case lc_accept L s of
        (Inl e, s1) \<Rightarrow> Some (Inl e, s1)
      | (Inr c, s1) \<Rightarrow> accept_loop L spawn (spawn c s1))"

text \<open>
  The three inbounds differ in the coroutine: \<open>co\<close> spawns one, and \<open>S c\<close>, \<open>handler c\<close> and \<open>close c\<close> are
  the operations on the socket of the client \<open>c\<close>, the session handler given this socket, and its closing.
\<close>

definition socks5_start :: "('s, 'c) listener_calls \<Rightarrow> (('s \<Rightarrow> 's option) \<Rightarrow> 's \<Rightarrow> 's) \<Rightarrow>
    ('c \<Rightarrow> 's tcp_socket) \<Rightarrow> ('c \<Rightarrow> 's handler) \<Rightarrow> ('c \<Rightarrow> 's \<Rightarrow> 's) \<Rightarrow> 's \<Rightarrow> (unit res \<times> 's) option" where
  "socks5_start L co S handler close = accept_loop L (\<lambda>c. co (socks5_handle_client (S c) (handler c) (close c)))"

definition http_start :: "asio_ip \<Rightarrow> ('s, 'c) listener_calls \<Rightarrow> (('s \<Rightarrow> 's option) \<Rightarrow> 's \<Rightarrow> 's) \<Rightarrow>
    ('c \<Rightarrow> 's tcp_socket) \<Rightarrow> ('c \<Rightarrow> 's handler) \<Rightarrow> ('c \<Rightarrow> 's \<Rightarrow> 's) \<Rightarrow> 's \<Rightarrow> (unit res \<times> 's) option" where
  "http_start I L co S handler close = accept_loop L (\<lambda>c. co (http_handle_client I (S c) (handler c) (close c)))"

definition mixed_start :: "asio_ip \<Rightarrow> ('s, 'c) listener_calls \<Rightarrow> (('s \<Rightarrow> 's option) \<Rightarrow> 's \<Rightarrow> 's) \<Rightarrow>
    ('c \<Rightarrow> 's tcp_socket) \<Rightarrow> ('c \<Rightarrow> 's handler) \<Rightarrow> ('c \<Rightarrow> 's \<Rightarrow> 's) \<Rightarrow> 's \<Rightarrow> (unit res \<times> 's) option" where
  "mixed_start I L co S handler close = accept_loop L (\<lambda>c. co (mixed_handle_client I (S c) (handler c) (close c)))"

text \<open>The one of the TUN inbound catches a \<open>system_error\<close>.\<close>

definition catch_system :: "unit res \<Rightarrow> unit res" where
  "catch_system r = (case r of Inl (SystemError m) \<Rightarrow> Inr () | _ \<Rightarrow> r)"

definition tun_accept_loop :: "('s, 'c) listener_calls \<Rightarrow> ('c \<Rightarrow> 's \<Rightarrow> 's) \<Rightarrow> 's \<Rightarrow> (unit res \<times> 's) option" where
  "tun_accept_loop L spawn s = map_option (\<lambda>(r, s1). (catch_system r, s1)) (accept_loop L spawn s)"

definition listener_stop :: "('s, 'c) listener_calls \<Rightarrow> 's \<Rightarrow> 's" where
  "listener_stop L s = lc_close L (lc_cancel L s)"

text \<open>
  The three \<open>stop\<close>s are the same. Stopping twice is stopping once, for an acceptor on which the
  calls do nothing once it is closed.
\<close>

definition socks5_stop :: "('s, 'c) listener_calls \<Rightarrow> 's \<Rightarrow> 's" where
  "socks5_stop L s = lc_close L (lc_cancel L s)"

definition http_stop :: "('s, 'c) listener_calls \<Rightarrow> 's \<Rightarrow> 's" where
  "http_stop L s = lc_close L (lc_cancel L s)"

lemma listener_stop_twice:
  assumes "\<And>s. lc_cancel L (lc_close L s) = lc_close L s" "\<And>s. lc_close L (lc_close L s) = lc_close L s"
  shows "listener_stop L (listener_stop L s) = listener_stop L s"
  by (simp add: listener_stop_def assms)

text \<open>
  \<open>write_success_reply\<close> of \<open>socks5_inbound.cpp\<close>, which nothing calls: a SOCKS5 client would not
  take it for a reply, which begins with the version 5.
\<close>

definition socks5_inbound_write_success_reply :: "'s tcp_socket \<Rightarrow> ('s, unit) io" where
  "socks5_inbound_write_success_reply S = so_write S
     (map ord (''HTTP/1.1 200 Connection Established'' @ crlf @ ''Proxy-Agent: cppbox-cpp/0.1'' @ crlf @ crlf))"

lemma not_a_socks_reply:
  "hd (map ord (''HTTP/1.1 200 Connection Established'' @ crlf @ ''Proxy-Agent: cppbox-cpp/0.1'' @ crlf @ crlf)) \<noteq> hd socks_success_reply"
  by code_simp

text \<open>\<open>close_socket\<close>; errors are ignored.\<close>

record 's closing_calls =
  cl_is_open :: "'s \<Rightarrow> bool"
  cl_cancel :: "'s \<Rightarrow> 's"
  cl_shutdown :: "'s \<Rightarrow> 's"
  cl_close :: "'s \<Rightarrow> 's"

definition close_socket :: "'s closing_calls \<Rightarrow> 's \<Rightarrow> 's" where
  "close_socket K s = (if \<not> cl_is_open K s then s else cl_close K (cl_shutdown K (cl_cancel K s)))"

lemma close_socket_twice:
  assumes "\<And>s. \<not> cl_is_open K (cl_close K s)"
  shows "close_socket K (close_socket K s) = close_socket K s"
  using assms by (simp add: close_socket_def)

section \<open>Every client is handed on\<close>

text \<open>
  An acceptor with the clients \<open>waiting\<close> to come, after which accepting fails with \<open>e\<close>, and the list
  \<open>spawned\<close> of the clients that have a coroutine.
\<close>

definition listener_laws ::
    "('s, 'c) listener_calls \<Rightarrow> ('c \<Rightarrow> 's \<Rightarrow> 's) \<Rightarrow> exn \<Rightarrow> ('s \<Rightarrow> 'c list) \<Rightarrow> ('s \<Rightarrow> 'c list) \<Rightarrow> bool" where
  "listener_laws L spawn e waiting spawned \<longleftrightarrow>
     (\<forall>s. case waiting s of
        [] \<Rightarrow> fst (lc_accept L s) = Inl e \<and> spawned (snd (lc_accept L s)) = spawned s
      | c # cs \<Rightarrow> fst (lc_accept L s) = Inr c \<and> waiting (snd (lc_accept L s)) = cs \<and> spawned (snd (lc_accept L s)) = spawned s) \<and>
     (\<forall>c s. waiting (spawn c s) = waiting s \<and> spawned (spawn c s) = spawned s @ [c])"

lemma accept_loop_serves:
  assumes "listener_laws L spawn e waiting spawned"
  shows "\<exists>s'. accept_loop L spawn s = Some (Inl e, s') \<and> spawned s' = spawned s @ waiting s"
proof (induction "waiting s" arbitrary: s)
  case Nil
  have "fst (lc_accept L s) = Inl e" "spawned (snd (lc_accept L s)) = spawned s"
    using assms [unfolded listener_laws_def, THEN conjunct1, THEN spec, of s] Nil by (simp_all split: list.splits)
  then show ?case using Nil by (cases "lc_accept L s") (simp add: accept_loop.simps)
next
  case (Cons c cs)
  obtain s1 where s1: "lc_accept L s = (Inr c, s1)" "waiting s1 = cs" "spawned s1 = spawned s"
    using assms [unfolded listener_laws_def, THEN conjunct1, THEN spec, of s] Cons(2)
    by (cases "lc_accept L s") (simp split: list.splits)
  have sp: "waiting (spawn c s1) = cs" "spawned (spawn c s1) = spawned s @ [c]"
    using assms s1 by (simp_all add: listener_laws_def)
  then show ?case using Cons(1) [of "spawn c s1"] Cons(2) s1(1) by (simp add: accept_loop.simps [of L spawn s])
qed

text \<open>A stop, which makes accepting fail with an error code, ends the loop of the TUN inbound quietly.\<close>

lemma tun_accept_loop_serves:
  assumes "listener_laws L spawn (SystemError m) waiting spawned"
  shows "\<exists>s'. tun_accept_loop L spawn s = Some (Inr (), s') \<and> spawned s' = spawned s @ waiting s"
  using accept_loop_serves [OF assms, of s] by (auto simp: tun_accept_loop_def catch_system_def)

end
