(* ===== verification/Tls_Context.thy ===== *)
theory Tls_Context
  imports Prelude
begin

text \<open>
  \<open>src/core/tls.cpp\<close> and \<open>tls.hpp\<close> in the variant for Windows: the certificate store that all TLS
  contexts share, which \<open>std::call_once\<close> fills from the system's root certificates, and the set-up of
  a context. The functions of OpenSSL and of Windows are the parameters of a record; handles are
  numbers, a null one is \<open>None\<close>.
\<close>

section \<open>The operations\<close>

text \<open>
  \<open>cy_add\<close> is \<open>X509_STORE_add_cert\<close> and whether it returns 1, \<open>cy_known_error\<close> whether the last error
  is that the certificate is in the store already, \<open>cy_up_ref\<close> whether one more reference was taken.
\<close>

record 's crypto =
  cy_store_new :: "'s \<Rightarrow> nat option \<times> 's"
  cy_store_free :: "nat \<Rightarrow> 's \<Rightarrow> 's"
  cy_open_root :: "'s \<Rightarrow> nat option \<times> 's"
  cy_next_cert :: "nat \<Rightarrow> nat option \<Rightarrow> 's \<Rightarrow> nat option \<times> 's"
  cy_close_root :: "nat \<Rightarrow> 's \<Rightarrow> 's"
  cy_decode :: "nat \<Rightarrow> 's \<Rightarrow> nat option \<times> 's"
  cy_add :: "nat \<Rightarrow> nat \<Rightarrow> 's \<Rightarrow> bool \<times> 's"
  cy_known_error :: "'s \<Rightarrow> bool"
  cy_clear_error :: "'s \<Rightarrow> 's"
  cy_cert_free :: "nat \<Rightarrow> 's \<Rightarrow> 's"
  cy_up_ref :: "nat \<Rightarrow> 's \<Rightarrow> bool \<times> 's"
  cy_set_store :: "nat \<Rightarrow> nat \<Rightarrow> 's \<Rightarrow> 's"
  cy_verify_peer :: "nat \<Rightarrow> bool \<Rightarrow> 's \<Rightarrow> 's"
  cy_set_host_name :: "nat \<Rightarrow> string \<Rightarrow> 's \<Rightarrow> bool \<times> 's"
  cy_verify_host :: "nat \<Rightarrow> string \<Rightarrow> 's \<Rightarrow> 's"

text \<open>The two static variables of \<open>system_root_store\<close>.\<close>

record root_store =
  rt_once :: bool
  rt_store :: "nat option"

definition root_store_init :: root_store where
  "root_store_init = \<lparr>rt_once = False, rt_store = None\<rparr>"

definition load_cert :: "'s crypto \<Rightarrow> nat \<Rightarrow> nat \<Rightarrow> 's \<Rightarrow> 's" where
  "load_cert Y store context s =
     (case cy_decode Y context s of
        (None, s1) \<Rightarrow> s1
      | (Some cert, s1) \<Rightarrow>
          (case cy_add Y store cert s1 of
             (added, s2) \<Rightarrow> cy_cert_free Y cert (if \<not> added \<and> cy_known_error Y s2 then cy_clear_error Y s2 else s2)))"

text \<open>\<open>None\<close> is an enumeration that does not end.\<close>

partial_function (option) load_certs :: "'s crypto \<Rightarrow> nat \<Rightarrow> nat \<Rightarrow> nat option \<Rightarrow> 's \<Rightarrow> 's option" where
  "load_certs Y root store previous s =
     (case cy_next_cert Y root previous s of
        (None, s1) \<Rightarrow> Some s1
      | (Some context, s1) \<Rightarrow> load_certs Y root store (Some context) (load_cert Y store context s1))"

text \<open>What \<open>call_once\<close> calls: an exception leaves the flag unset, so that the next call tries again.\<close>

definition system_root_store :: "'s crypto \<Rightarrow> root_store \<times> 's \<Rightarrow> (nat option res \<times> root_store \<times> 's) option" where
  "system_root_store Y = (\<lambda>(r, s).
     if rt_once r then Some (Inr (rt_store r), r, s)
     else case cy_store_new Y s of
       (None, s1) \<Rightarrow> Some (Inl (RuntimeError ''failed to create OpenSSL certificate store''), r\<lparr>rt_store := None\<rparr>, s1)
     | (Some store, s1) \<Rightarrow>
         (case cy_open_root Y s1 of
            (None, s2) \<Rightarrow>
              Some (Inl (RuntimeError ''failed to open Windows ROOT certificate store''), r\<lparr>rt_store := None\<rparr>, cy_store_free Y store s2)
          | (Some root, s2) \<Rightarrow>
              map_option (\<lambda>s3. (Inr (Some store), r\<lparr>rt_once := True, rt_store := Some store\<rparr>, cy_close_root Y root s3))
                (load_certs Y root store None s2)))"

definition load_system_root_certificates :: "'s crypto \<Rightarrow> nat \<Rightarrow> root_store \<times> 's \<Rightarrow> (unit res \<times> root_store \<times> 's) option" where
  "load_system_root_certificates Y context c =
     (case system_root_store Y c of
        None \<Rightarrow> None
      | Some (Inl e, c1) \<Rightarrow> Some (Inl e, c1)
      | Some (Inr None, c1) \<Rightarrow> Some (Inl (Undefined ''X509_STORE_up_ref of a null store''), c1)
      | Some (Inr (Some store), r, s) \<Rightarrow>
          (case cy_up_ref Y store s of
             (False, s1) \<Rightarrow> Some (Inl (RuntimeError ''failed to retain OpenSSL certificate store''), r, s1)
           | (True, s1) \<Rightarrow> Some (Inr (), r, cy_set_store Y context store s1)))"

definition configure_tls_context :: "'s crypto \<Rightarrow> nat \<Rightarrow> bool \<Rightarrow> root_store \<times> 's \<Rightarrow> (unit res \<times> root_store \<times> 's) option" where
  "configure_tls_context Y context insecure c =
     map_option (\<lambda>(r, c1). case r of
         Inl e \<Rightarrow> (Inl e, c1)
       | Inr _ \<Rightarrow> (Inr (), fst c1, cy_verify_peer Y context (\<not> insecure) (snd c1)))
       (load_system_root_certificates Y context c)"

definition configure_tls_stream_identity :: "'s crypto \<Rightarrow> nat \<Rightarrow> string \<Rightarrow> bool \<Rightarrow> ('s, unit) io" where
  "configure_tls_stream_identity Y stream name insecure = (\<lambda>s.
     case cy_set_host_name Y stream name s of
       (False, s1) \<Rightarrow> (Inl (SystemError ''set TLS SNI''), s1)
     | (True, s1) \<Rightarrow> (Inr (), if insecure then s1 else cy_verify_host Y stream name s1))"

section \<open>The store is filled once\<close>

text \<open>
  What a call sees and changes: the certificates still to be enumerated (\<open>None\<close> is one that OpenSSL
  cannot decode) and the current one, the contents of the store, and how many references to stores,
  decoded certificates and enumerations are held.
\<close>

record crypto_view =
  vw_coming :: "string option list"
  vw_current :: "string option"
  vw_contents :: "string list"
  vw_refs :: nat
  vw_certs :: nat
  vw_roots :: nat

definition add_once :: "string \<Rightarrow> string list \<Rightarrow> string list" where
  "add_once c cs = (if c \<in> set cs then cs else cs @ [c])"

definition crypto_laws :: "'s crypto \<Rightarrow> string option list \<Rightarrow> ('s \<Rightarrow> crypto_view) \<Rightarrow> bool" where
  "crypto_laws Y system view \<longleftrightarrow>
     (\<forall>s. case cy_store_new Y s of (h, s') \<Rightarrow>
        view s' = (if h = None then view s else (view s)\<lparr>vw_refs := Suc (vw_refs (view s)), vw_contents := []\<rparr>)) \<and>
     (\<forall>h s. view (cy_store_free Y h s) = (view s)\<lparr>vw_refs := vw_refs (view s) - 1\<rparr>) \<and>
     (\<forall>s. case cy_open_root Y s of (h, s') \<Rightarrow>
        view s' = (if h = None then view s else (view s)\<lparr>vw_roots := Suc (vw_roots (view s)), vw_coming := system\<rparr>)) \<and>
     (\<forall>root p s. case cy_next_cert Y root p s of (h, s') \<Rightarrow>
        (case vw_coming (view s) of
           [] \<Rightarrow> h = None \<and> view s' = view s
         | c # cs \<Rightarrow> h \<noteq> None \<and> view s' = (view s)\<lparr>vw_coming := cs, vw_current := c\<rparr>)) \<and>
     (\<forall>root s. view (cy_close_root Y root s) = (view s)\<lparr>vw_roots := vw_roots (view s) - 1\<rparr>) \<and>
     (\<forall>context s. case cy_decode Y context s of (h, s') \<Rightarrow>
        (h = None) = (vw_current (view s) = None) \<and>
        view s' = (if h = None then view s else (view s)\<lparr>vw_certs := Suc (vw_certs (view s))\<rparr>)) \<and>
     (\<forall>store cert s name. vw_current (view s) = Some name \<longrightarrow>
        view (snd (cy_add Y store cert s)) = (view s)\<lparr>vw_contents := add_once name (vw_contents (view s))\<rparr>) \<and>
     (\<forall>s. view (cy_clear_error Y s) = view s) \<and>
     (\<forall>cert s. view (cy_cert_free Y cert s) = (view s)\<lparr>vw_certs := vw_certs (view s) - 1\<rparr>) \<and>
     (\<forall>h s. case cy_up_ref Y h s of (ok, s') \<Rightarrow>
        view s' = (if ok then (view s)\<lparr>vw_refs := Suc (vw_refs (view s))\<rparr> else view s)) \<and>
     (\<forall>context h s. view (cy_set_store Y context h s) = view s) \<and>
     (\<forall>context b s. view (cy_verify_peer Y context b s) = view s)"

lemmas crypto_law =
    crypto_laws_def [THEN iffD1, THEN conjunct1, THEN spec]
    crypto_laws_def [THEN iffD1, THEN conjunct2, THEN conjunct1, THEN spec, THEN spec]
    crypto_laws_def [THEN iffD1, THEN conjunct2, THEN conjunct2, THEN conjunct1, THEN spec]
    crypto_laws_def [THEN iffD1, THEN conjunct2, THEN conjunct2, THEN conjunct2, THEN conjunct1, THEN spec,
    THEN spec, THEN spec]
    crypto_laws_def [THEN iffD1, THEN conjunct2, THEN conjunct2, THEN conjunct2, THEN conjunct2, THEN
    conjunct1, THEN spec, THEN spec]
    crypto_laws_def [THEN iffD1, THEN conjunct2, THEN conjunct2, THEN conjunct2, THEN conjunct2, THEN
    conjunct2, THEN conjunct1, THEN spec, THEN spec]
    crypto_laws_def [THEN iffD1, THEN conjunct2, THEN conjunct2, THEN conjunct2, THEN conjunct2, THEN
    conjunct2, THEN conjunct2, THEN conjunct1, THEN spec, THEN spec, THEN spec, THEN spec, THEN mp]
    crypto_laws_def [THEN iffD1, THEN conjunct2, THEN conjunct2, THEN conjunct2, THEN conjunct2, THEN
    conjunct2, THEN conjunct2, THEN conjunct2, THEN conjunct1, THEN spec]
    crypto_laws_def [THEN iffD1, THEN conjunct2, THEN conjunct2, THEN conjunct2, THEN conjunct2, THEN
    conjunct2, THEN conjunct2, THEN conjunct2, THEN conjunct2, THEN conjunct1, THEN spec, THEN spec]
    crypto_laws_def [THEN iffD1, THEN conjunct2, THEN conjunct2, THEN conjunct2, THEN conjunct2, THEN
    conjunct2, THEN conjunct2, THEN conjunct2, THEN conjunct2, THEN conjunct2, THEN conjunct1, THEN spec, THEN
    spec]
    crypto_laws_def [THEN iffD1, THEN conjunct2, THEN conjunct2, THEN conjunct2, THEN conjunct2, THEN
    conjunct2, THEN conjunct2, THEN conjunct2, THEN conjunct2, THEN conjunct2, THEN conjunct2, THEN conjunct1,
    THEN spec, THEN spec, THEN spec]
    crypto_laws_def [THEN iffD1, THEN conjunct2, THEN conjunct2, THEN conjunct2, THEN conjunct2, THEN
    conjunct2, THEN conjunct2, THEN conjunct2, THEN conjunct2, THEN conjunct2, THEN conjunct2, THEN conjunct2,
    THEN spec, THEN spec, THEN spec]

lemma load_cert_view:
  assumes "crypto_laws Y system view"
  shows "view (load_cert Y store cx s) =
    (view s)\<lparr>vw_contents := (case vw_current (view s) of None \<Rightarrow> id | Some name \<Rightarrow> add_once name) (vw_contents (view s))\<rparr>"
proof -
  obtain h s1 where d: "cy_decode Y cx s = (h, s1)" by fastforce
  have h: "(h = None) = (vw_current (view s) = None)"
    and v1: "view s1 = (if h = None then view s else (view s)\<lparr>vw_certs := Suc (vw_certs (view s))\<rparr>)"
    using crypto_law(6) [OF assms, of s cx] by (simp_all add: d)
  show ?thesis
  proof (cases h)
    case None
    then show ?thesis using h v1 d by (simp add: load_cert_def)
  next
    case (Some cert)
    then obtain name where name: "vw_current (view s) = Some name" using h by auto
    obtain ok s2 where a: "cy_add Y store cert s1 = (ok, s2)" by fastforce
    have "view s2 = (view s1)\<lparr>vw_contents := add_once name (vw_contents (view s1))\<rparr>"
      using crypto_law(7) [OF assms, of s1 name store cert] name Some v1 a by simp
    moreover have "view (if \<not> ok \<and> cy_known_error Y s2 then cy_clear_error Y s2 else s2) = view s2"
      using crypto_law(8) [OF assms] by simp
    ultimately have "view (load_cert Y store cx s) = (view s)\<lparr>vw_certs := Suc (vw_certs (view s)) - 1,
        vw_contents := add_once name (vw_contents (view s))\<rparr>"
      using crypto_law(9) [OF assms] v1 Some d a by (simp add: load_cert_def)
    then show ?thesis using name by simp
  qed
qed

text \<open>The enumeration ends, and the store has every certificate that can be decoded, once.\<close>

definition loaded :: "string option list \<Rightarrow> string list \<Rightarrow> string list" where
  "loaded system cs = fold add_once (List.map_filter id system) cs"

lemma load_certs_view:
  assumes "crypto_laws Y system view"
  shows "\<exists>s'. load_certs Y root store p s = Some s' \<and>
    (\<exists>c. view s' = (view s)\<lparr>vw_coming := [], vw_current := c, vw_contents := loaded (vw_coming (view s)) (vw_contents (view s))\<rparr>)"
proof (induction "vw_coming (view s)" arbitrary: s p)
  case Nil
  obtain h s1 where n: "cy_next_cert Y root p s = (h, s1)" by fastforce
  have "h = None" "view s1 = view s" using crypto_law(4) [OF assms, of s root p] by (simp_all add: n flip: Nil)
  then show ?case using n Nil
    by (simp add: load_certs.simps [of Y root] loaded_def map_filter_simps) (metis crypto_view.surjective crypto_view.update_convs(1,2,3))
next
  case (Cons c cs)
  obtain h s1 where n: "cy_next_cert Y root p s = (h, s1)" by fastforce
  have h: "h \<noteq> None" and v1: "view s1 = (view s)\<lparr>vw_coming := cs, vw_current := c\<rparr>"
    using crypto_law(4) [OF assms, of s root p] by (simp_all add: n flip: Cons(2))
  then obtain x where x: "h = Some x" by auto
  note v2 = load_cert_view [OF assms, of store x s1]
  have "vw_coming (view (load_cert Y store x s1)) = cs" by (simp add: v2 v1)
  from Cons(1) [OF this [symmetric], of "Some x"] show ?case
    by (cases c) (simp_all add: load_certs.simps [of Y root store p] n x v2 v1 loaded_def map_filter_simps flip: Cons(2))
qed

text \<open>
  After \<open>k\<close> contexts have been set up: nothing of an enumeration is held any more; before the store is
  made there is no reference to one, and afterwards its own and one for each context, and it holds the
  system's certificates.
\<close>

definition tls_inv :: "string option list \<Rightarrow> ('s \<Rightarrow> crypto_view) \<Rightarrow> nat \<Rightarrow> root_store \<times> 's \<Rightarrow> bool" where
  "tls_inv system view k = (\<lambda>(r, s).
     vw_certs (view s) = 0 \<and> vw_roots (view s) = 0 \<and>
     (if rt_once r then rt_store r \<noteq> None \<and> vw_refs (view s) = Suc k \<and> vw_contents (view s) = loaded system []
      else k = 0 \<and> vw_refs (view s) = 0))"

lemma system_root_store_inv:
  assumes laws: "crypto_laws Y system view" and inv: "tls_inv system view k (r, s)"
  obtains res r1 s1 where "system_root_store Y (r, s) = Some (res, r1, s1)" "tls_inv system view k (r1, s1)"
    "(\<exists>h. res = Inr (Some h) \<and> rt_once r1) \<or> (\<exists>m. res = Inl (RuntimeError m) \<and> \<not> rt_once r1)"
proof (cases "rt_once r")
  case True
  then obtain h where "rt_store r = Some h" using inv by (auto simp: tls_inv_def)
  with True inv show ?thesis by (intro that) (auto simp: system_root_store_def)
next
  case False
  then have zero: "k = 0" "vw_refs (view s) = 0" "vw_certs (view s) = 0" "vw_roots (view s) = 0"
    using inv by (auto simp: tls_inv_def)
  obtain h s1 where n: "cy_store_new Y s = (h, s1)" by fastforce
  have v1: "view s1 = (if h = None then view s else (view s)\<lparr>vw_refs := Suc (vw_refs (view s)), vw_contents := []\<rparr>)"
    using crypto_law(1) [OF laws, of s] by (simp add: n)
  show ?thesis
  proof (cases h)
    case None
    with False n v1 zero show ?thesis by (intro that) (auto simp: system_root_store_def tls_inv_def)
  next
    case (Some store)
    obtain g s2 where o: "cy_open_root Y s1 = (g, s2)" by fastforce
    have v2: "view s2 = (if g = None then view s1 else (view s1)\<lparr>vw_roots := Suc (vw_roots (view s1)), vw_coming := system\<rparr>)"
      using crypto_law(3) [OF laws, of s1] by (simp add: o)
    show ?thesis
    proof (cases g)
      case None
      with False n o v1 v2 zero Some crypto_law(2) [OF laws] show ?thesis
        by (intro that) (auto simp: system_root_store_def tls_inv_def)
    next
      case (Some root)
      obtain s3 c where l: "load_certs Y root store None s2 = Some s3"
        and v3: "view s3 = (view s2)\<lparr>vw_coming := [], vw_current := c, vw_contents := loaded (vw_coming (view s2)) (vw_contents (view s2))\<rparr>"
        using load_certs_view [OF laws, of root store None s2] by blast
      from False n o l v1 v2 v3 zero Some \<open>h = Some store\<close> crypto_law(5) [OF laws] show ?thesis
        by (intro that) (auto simp: system_root_store_def tls_inv_def)
    qed
  qed
qed

text \<open>
  Setting up a context always returns, whether or not earlier ones failed; it fails only with an
  exception, and never uses a null store.
\<close>

lemma configure_tls_context_inv:
  assumes laws: "crypto_laws Y system view" and inv: "tls_inv system view k (r, s)"
  shows "\<exists>res c1. configure_tls_context Y cx insecure (r, s) = Some (res, c1) \<and>
    tls_inv system view (if res = Inr () then Suc k else k) c1 \<and> (\<forall>m. res \<noteq> Inl (Undefined m))"
proof -
  obtain res r1 s1 where sys: "system_root_store Y (r, s) = Some (res, r1, s1)" and inv1: "tls_inv system view k (r1, s1)"
    and res: "(\<exists>h. res = Inr (Some h) \<and> rt_once r1) \<or> (\<exists>m. res = Inl (RuntimeError m) \<and> \<not> rt_once r1)"
    by (rule system_root_store_inv [OF laws inv])
  from res show ?thesis
  proof
    assume "\<exists>h. res = Inr (Some h) \<and> rt_once r1"
    then obtain h where h: "res = Inr (Some h)" and once: "rt_once r1" by blast
    obtain ok s2 where u: "cy_up_ref Y h s1 = (ok, s2)" by fastforce
    have v2: "view s2 = (if ok then (view s1)\<lparr>vw_refs := Suc (vw_refs (view s1))\<rparr> else view s1)"
      using crypto_law(10) [OF laws, of s1 h] by (simp add: u)
    show ?thesis
      using sys h u v2 inv1 once crypto_law(11,12) [OF laws]
      by (cases ok) (simp_all add: configure_tls_context_def load_system_root_certificates_def tls_inv_def)
  next
    assume "\<exists>m. res = Inl (RuntimeError m) \<and> \<not> rt_once r1"
    then show ?thesis using sys inv1
      by (auto simp: configure_tls_context_def load_system_root_certificates_def)
  qed
qed

section \<open>All contexts share one store\<close>

text \<open>The contexts of a run of the program, each with its \<open>insecure\<close>; the result counts those that were set up.\<close>

fun configure_contexts :: "'s crypto \<Rightarrow> (nat \<times> bool) list \<Rightarrow> root_store \<times> 's \<Rightarrow> (nat \<times> root_store \<times> 's) option" where
  "configure_contexts Y [] c = Some (0, c)"
| "configure_contexts Y ((cx, insecure) # cxs) c =
     (case configure_tls_context Y cx insecure c of
        None \<Rightarrow> None
      | Some (res, c1) \<Rightarrow> map_option (\<lambda>(k, c2). (if res = Inr () then Suc k else k, c2)) (configure_contexts Y cxs c1))"

lemma configure_contexts_inv:
  assumes "crypto_laws Y system view"
  shows "tls_inv system view n c \<Longrightarrow> \<exists>k c1. configure_contexts Y cxs c = Some (k, c1) \<and> tls_inv system view (n + k) c1"
proof (induction cxs arbitrary: n c)
  case (Cons x cxs)
  obtain cx insecure where x: "x = (cx, insecure)" by fastforce
  obtain r s where c: "c = (r, s)" by fastforce
  obtain res c1 where call: "configure_tls_context Y cx insecure c = Some (res, c1)"
    and inv: "tls_inv system view (if res = Inr () then Suc n else n) c1"
    using configure_tls_context_inv [OF assms Cons.prems [unfolded c], of cx insecure] unfolding c by blast
  from Cons.IH [OF inv] obtain k c2 where "configure_contexts Y cxs c1 = Some (k, c2)"
    "tls_inv system view ((if res = Inr () then Suc n else n) + k) c2" by blast
  then show ?case using call x by (cases "res = Inr ()") auto
qed simp

text \<open>
  C40: the program can set up TLS contexts as often as it likes: every call returns; until the first
  success nothing is kept, also when OpenSSL or the system store failed; from then on one store
  is shared, filled once with every root certificate that can be decoded, without repetition, and it is
  referenced exactly by the program and by the contexts that were set up.
\<close>

theorem tls_contexts_share_store:
  assumes "crypto_laws Y system view" "vw_refs (view s) = 0" "vw_certs (view s) = 0" "vw_roots (view s) = 0"
  shows "\<exists>k r s'. configure_contexts Y cxs (root_store_init, s) = Some (k, r, s') \<and>
    vw_certs (view s') = 0 \<and> vw_roots (view s') = 0 \<and>
    (if rt_once r then vw_refs (view s') = 1 + k \<and> vw_contents (view s') = fold add_once (List.map_filter id system) []
     else k = 0 \<and> vw_refs (view s') = 0)"
proof -
  have "tls_inv system view 0 (root_store_init, s)"
    using assms(2-4) by (simp add: tls_inv_def root_store_init_def)
  from configure_contexts_inv [OF assms(1) this, of cxs] show ?thesis
    by (fastforce simp: tls_inv_def loaded_def)
qed

text \<open>A system store with a certificate that occurs twice and one that cannot be decoded; the first attempt fails.\<close>

definition mem_crypto :: "(nat \<times> crypto_view) crypto" where
  "mem_crypto =
     \<lparr>cy_store_new = (\<lambda>(n, v). (Some 1, (n, v\<lparr>vw_refs := Suc (vw_refs v), vw_contents := []\<rparr>))),
      cy_store_free = (\<lambda>h (n, v). (n, v\<lparr>vw_refs := vw_refs v - 1\<rparr>)),
      cy_open_root = (\<lambda>(n, v). if n = 0 then (None, (1, v))
        else (Some 2, (n, v\<lparr>vw_roots := Suc (vw_roots v), vw_coming := [Some ''a'', None, Some ''a'']\<rparr>))),
      cy_next_cert = (\<lambda>root p (n, v). case vw_coming v of [] \<Rightarrow> (None, (n, v)) | c # cs \<Rightarrow> (Some 3, (n, v\<lparr>vw_coming := cs, vw_current := c\<rparr>))),
      cy_close_root = (\<lambda>root (n, v). (n, v\<lparr>vw_roots := vw_roots v - 1\<rparr>)),
      cy_decode = (\<lambda>cx (n, v). if vw_current v = None then (None, (n, v)) else (Some 4, (n, v\<lparr>vw_certs := Suc (vw_certs v)\<rparr>))),
      cy_add = (\<lambda>h cert (n, v). case vw_current v of None \<Rightarrow> (False, (n, v))
        | Some c \<Rightarrow> (c \<notin> set (vw_contents v), (n, v\<lparr>vw_contents := add_once c (vw_contents v)\<rparr>))),
      cy_known_error = (\<lambda>s. True), cy_clear_error = (\<lambda>s. s), cy_cert_free = (\<lambda>cert (n, v). (n, v\<lparr>vw_certs := vw_certs v - 1\<rparr>)),
      cy_up_ref = (\<lambda>h (n, v). (True, (n, v\<lparr>vw_refs := Suc (vw_refs v)\<rparr>))), cy_set_store = (\<lambda>cx h s. s),
      cy_verify_peer = (\<lambda>cx b s. s), cy_set_host_name = (\<lambda>st n s. (True, s)), cy_verify_host = (\<lambda>st n s. s)\<rparr>"

lemma mem_crypto_laws: "crypto_laws mem_crypto [Some ''a'', None, Some ''a''] snd"
  by (simp add: crypto_laws_def mem_crypto_def split: list.split)

theorem tls_contexts_share_store_witness:
  "\<exists>r s'. configure_contexts mem_crypto [(10, False), (11, False), (12, True)] (root_store_init,
      (0, \<lparr>vw_coming = [], vw_current = None, vw_contents = [], vw_refs = 0, vw_certs = 0, vw_roots = 0\<rparr>)) = Some (2, r, s') \<and>
    vw_refs (snd s') = 3 \<and> vw_contents (snd s') = [''a'']"
proof -
  let ?v = "\<lparr>vw_coming = [], vw_current = None, vw_contents = [], vw_refs = 0, vw_certs = 0, vw_roots = 0\<rparr>"
  obtain k r s' where run: "configure_contexts mem_crypto [(10, False), (11, False), (12, True)] (root_store_init, (0, ?v)) = Some (k, r, s')"
    and refs: "if rt_once r then vw_refs (snd s') = 1 + k \<and> vw_contents (snd s') = fold add_once (List.map_filter id [Some ''a'', None, Some ''a'']) []
      else k = 0 \<and> vw_refs (snd s') = 0"
    using tls_contexts_share_store [OF mem_crypto_laws, of "(0, ?v)" "[(10, False), (11, False), (12, True)]"] by fastforce
  have "k = 2 \<and> rt_once r" using run
    by (auto simp: configure_tls_context_def load_system_root_certificates_def system_root_store_def root_store_init_def
        mem_crypto_def load_certs.simps load_cert_def add_once_def)
  with run refs show ?thesis by (auto simp: map_filter_simps add_once_def)
qed

end
