(* ===== verification/Log.thy ===== *)
theory Log
  imports Cstring
begin

text \<open>
  \<open>src/core/log.cpp\<close>, and \<open>log_win32_error\<close> of \<open>src/inbound/tun_route.cpp\<close>. The two standard streams
  are the texts written to them; the source location and the frames of the stack are
  arguments. The other theories leave the log out.
\<close>

section \<open>The two functions\<close>

record std_streams =
  std_cout :: string
  std_cerr :: string

record source_location =
  sl_file_name :: string
  sl_line :: nat
  sl_function_name :: string

record stack_frame =
  sf_source_file :: string
  sf_source_line :: nat
  sf_name :: string

definition newline :: string where "newline = [CHR 0x0A]"

definition error_line :: "source_location \<Rightarrow> string \<Rightarrow> string" where
  "error_line location message =
     ''[error] '' @ sl_file_name location @ '':'' @ show_dec (sl_line location) @ '' '' @
     sl_function_name location @ '' - '' @ message"

definition frame_line :: "stack_frame \<Rightarrow> string" where
  "frame_line frame = ''  at '' @ sf_source_file frame @ '':'' @ show_dec (sf_source_line frame) @ '' '' @ sf_name frame"

fun log_frames :: "stack_frame list \<Rightarrow> string \<Rightarrow> string" where
  "log_frames [] err = err"
| "log_frames (frame # frames) err =
     (if \<not> contains_str (sf_source_file frame) ''cppbox'' then log_frames frames err
      else log_frames frames (err @ frame_line frame @ newline))"

definition log_error :: "source_location \<Rightarrow> stack_frame list \<Rightarrow> string \<Rightarrow> std_streams \<Rightarrow> std_streams" where
  "log_error location stacktrace message s =
     s\<lparr>std_cerr := log_frames stacktrace (std_cerr s @ error_line location message @ newline)\<rparr>"

definition log_info :: "string \<Rightarrow> std_streams \<Rightarrow> std_streams" where
  "log_info message s = s\<lparr>std_cout := std_cout s @ ''[info] '' @ message @ newline\<rparr>"

definition log_win32_error :: "source_location \<Rightarrow> stack_frame list \<Rightarrow> string \<Rightarrow> nat \<Rightarrow> std_streams \<Rightarrow> std_streams" where
  "log_win32_error location stacktrace what error s =
     (if error \<noteq> 0 then log_error location stacktrace (what @ '' failed: '' @ show_dec error) s else s)"

section \<open>Lines\<close>

text \<open>The lines of a text that ends with a newline.\<close>

definition log_lines :: "string list \<Rightarrow> string" where
  "log_lines ls = concat (map (\<lambda>l. l @ newline) ls)"

lemma log_frames_eq:
  "log_frames frames err = err @ log_lines (map frame_line (filter (\<lambda>f. contains_str (sf_source_file f) ''cppbox'') frames))"
  by (induction frames arbitrary: err) (simp_all add: log_lines_def)

lemma split_log_lines: "list_all (\<lambda>l. CHR 0x0A \<notin> set l) ls \<Longrightarrow> split_on (CHR 0x0A) (log_lines ls) = ls @ [[]]"
  by (induction ls) (simp_all add: log_lines_def newline_def split_on_append)

text \<open>
  An error is one line on the standard error, followed by a line for each frame of the stack that
  lies in the program's sources, in order; the standard output is not touched. If no part
  has a newline, the lines can be read back.
\<close>

lemma log_error_lines:
  "log_error location stacktrace message s =
     s\<lparr>std_cerr := std_cerr s @ log_lines
       (error_line location message # map frame_line (filter (\<lambda>f. contains_str (sf_source_file f) ''cppbox'') stacktrace))\<rparr>"
  by (simp add: log_error_def log_frames_eq log_lines_def)

lemma log_error_read_back:
  assumes "std_cerr s = []" "CHR 0x0A \<notin> set (error_line location message)" "list_all (\<lambda>f. CHR 0x0A \<notin> set (frame_line f)) stacktrace"
  shows "split_on (CHR 0x0A) (std_cerr (log_error location stacktrace message s)) =
    error_line location message # map frame_line (filter (\<lambda>f. contains_str (sf_source_file f) ''cppbox'') stacktrace) @ [[]]"
proof -
  let ?ls = "error_line location message # map frame_line (filter (\<lambda>f. contains_str (sf_source_file f) ''cppbox'') stacktrace)"
  have "list_all (\<lambda>l. CHR 0x0A \<notin> set l) ?ls" using assms(2,3) by (auto simp: list_all_iff)
  from split_log_lines [OF this] show ?thesis unfolding log_error_lines by (simp add: assms(1))
qed

text \<open>A message with a newline in it cannot be told from two.\<close>

lemma log_info_newline: "log_info (a @ newline @ ''[info] '' @ b) s = log_info b (log_info a s)"
  by (simp add: log_info_def)

lemma log_error_example:
  "std_cerr (log_error \<lparr>sl_file_name = ''a.cpp'', sl_line = 7, sl_function_name = ''f''\<rparr>
     [\<lparr>sf_source_file = ''cppbox/a.cpp'', sf_source_line = 7, sf_name = ''f''\<rparr>,
      \<lparr>sf_source_file = ''asio.hpp'', sf_source_line = 1, sf_name = ''g''\<rparr>] ''e'' \<lparr>std_cout = [], std_cerr = []\<rparr>) =
   log_lines [''[error] a.cpp:7 f - e'', ''  at cppbox/a.cpp:7 f'']"
  by code_simp

end
