(* ===== verification/Spec2Isabelle.thy ===== *)
theory Spec2Isabelle
  imports Uuid Address Tun_Nat Tun_Checksum Dns_Message Tls_Sniffer Vless Udp_Flow Text_IP
    Tun_Properties First_Match Router_Properties Config_Properties Dns_Properties Dns_Service Socks5
    Http_Properties Transport_Properties Tun_Lifecycle Tun_Packets Inbounds Startup Vless_Session
    Session_Relays Vless_Relays Proxied_Session Flow_Hash Flow_Start Listeners Tls_Context Log
begin

text \<open>
  \<^bold>\<open>cppbox\<close> is a proxy for Windows. Applications reach it as a SOCKS5 or HTTP proxy, or without their
  knowledge through a virtual network adapter (TUN); a router decides for every connection by
  domain, address block and rule set; an outbound connects to the destination directly, through a
  VLESS server, or not at all. A DNS server with rules of its own answers the program's own queries
  and those of other programs. This development models the program's C++ code under \<open>src/\<close> and proves
  what makes its parts correct, alone and together.

  \<^bold>\<open>How the parts interact.\<close> \<open>main.cpp\<close> loads the configuration, makes the router, the DNS server and the
  outbounds, starts the inbounds, and registers callbacks for the shutdown. An inbound turns a client
  into a session: a destination and the first bytes. The session handler asks the router for the tag
  of an outbound and gives the session to it; the outbound connects through the connector, which asks
  the DNS server for the addresses of a domain, and relays both directions until they end. The TUN
  inbound rewrites TCP packets so that they reach a listening socket of its own, where they become
  sessions, and carries UDP datagrams through a socket per flow.

  \<^bold>\<open>Conventions.\<close> A byte is an \<open>8 word\<close>, machine integers are words of their width. A function that can
  raise returns \<open>exn + 'a\<close> (\<open>bindE\<close> sequences); a coroutine is a function of the state it works on that
  also returns the state it leaves when it raises (\<open>bindIO\<close>). A raw pointer used out of its buffer is
  the exception \<open>Undefined\<close>, so that memory safety is a statement about results. A loop that may not end
  is a \<open>partial_function (option)\<close>, and \<open>None\<close> is a run that does not return; the properties of such
  loops state that they return. Concurrency is a step relation over critical sections, with
  the reachable states as the interleavings. \<open>Log\<close> has the log on its own; elsewhere its output is left
  out, except where computing it can raise.

  \<^bold>\<open>Theories, sources and results.\<close>

    \<^item> \<open>Prelude\<close>, \<open>Cstring\<close>, \<open>Utils\<close>, \<open>Log\<close>: words, results, coroutines; the C++ string functions in use (\<open>find\<close>,
      \<open>from_chars\<close>, \<open>stoi\<close>, \<open>tolower\<close>); \<open>core/utils.cpp\<close>; \<open>core/log.cpp\<close>, whose lines can be read back.
    \<^item> \<open>First_Match\<close>, \<open>Packet_Fields\<close>, \<open>State_Machine\<close>, \<open>Relay_Race\<close>: the interfaces that several parts share. A rule
      table goes through its rules to the first that applies; a field of a packet is a reader
      and a writer with laws; a step system has an invariant and a view that only moves forward.
      Router, rule sets and DNS server are instances of the first; the fields of the packet
      handlers of the second; the UDP flow, the TUN inbound, the DNS service and the relays of the third.
      \<open>Relay_Race\<close> is the race of two relays (\<open>operator||\<close>) with what a relay promises; the relays of a
      direct and of a VLESS session are instances. \<open>Tun_Nat\<close> adds the interface of a port table,
      \<open>Flow_Hash\<close> that of a lookup table, with the association lists of \<open>Tun_Nat\<close> and a table of
      buckets under the program's own hash as instances that no client can tell apart.
    \<^item> \<open>Uuid\<close> (\<open>parse_uuid\<close>), \<open>Address\<close>, \<open>Text_IP\<close> (\<open>core/address.*\<close>, \<open>session.hpp\<close>): parsing of user ids
      and hosts, with round trips. \<open>Text_IP\<close> is a concrete text form of addresses that satisfies
      everything assumed of Boost.Asio's.
    \<^item> \<open>Json_Common\<close>, \<open>Config_Types\<close>, \<open>Config\<close>, \<open>Config_Properties\<close> (\<open>config/\<close>, \<open>common/\<close>): the loader
      from parsed JSON. What is loaded is well-formed, and every well-formed configuration is loaded
      back from its JSON form.
    \<^item> \<open>Router\<close>, \<open>Router_Properties\<close> (\<open>route/\<close>): the router refines the specification
      ``the outbound of the first rule that applies, else the final one'', where a suffix
      matches whole labels and a block the addresses that share its bits.
    \<^item> \<open>Dns_Message\<close> (\<open>dns/dns_message.*\<close>): reading names agrees with the wire form of RFC 1035, defined as
      an inductive relation; queries and responses are read back from their encodings. Compression
      jumps are bounded by 16, as in the code.
    \<^item> \<open>Dns_Server\<close>, \<open>Dns_Properties\<close>, \<open>Dns_Inbound\<close>, \<open>Dns_Service\<close> (\<open>dns/dns.*\<close>, \<open>dns_inbound.*\<close>): choice
      of a name server, exchange over the four transports, resolving; the inbound with its
      receive loop and concurrent requests, each of which is handled at most once and answered to its
      own client with the name server's answer.
    \<^item> \<open>Net\<close>, \<open>Socks5\<close>, \<open>Http_Proxy\<close>, \<open>Http_Properties\<close>, \<open>Tls_Sniffer\<close>, \<open>Vless\<close> (\<open>protocol/\<close>): the protocols
      over the operations of a socket. The SOCKS5 server accepts exactly the well-formed
      handshakes; HTTP requests are rewritten without losing a byte; the sniffer stays inside its
      buffer and finds the name of every well-formed ClientHello; VLESS headers round trip.
    \<^item> \<open>Transport\<close>, \<open>Outbound\<close>, \<open>Transport_Properties\<close>, \<open>Vless_Session\<close>, \<open>Session_Relays\<close>,
      \<open>Vless_Relays\<close> (\<open>transport/\<close>, \<open>outbound/\<close>): streams, clients, connector, the three outbounds.
      Addresses are tried in order; a VLESS server is asked for the host that the client's ClientHello
      names; a relay ends with its source and has then delivered its bytes. Under every interleaving of
      the two relays of a direct or a VLESS session no byte is repeated or moved, none is lost until
      the first relay ends or a write fails, and the VLESS server reads the request before all else.
    \<^item> \<open>Tls_Context\<close> (\<open>core/tls.*\<close>): the certificate store that all contexts share, made once.
    \<^item> \<open>Inbounds\<close>, \<open>Listeners\<close>, \<open>Proxied_Session\<close> (\<open>inbound/\<close> without the TUN part): what a client asks for is
      what the outbound gets, from the first byte to the last; every accepted client is handed on.
      \<open>Proxied_Session\<close> puts inbound, protocols, router, handler, outbound and relays together.
    \<^item> \<open>Tun_Nat\<close>, \<open>Flow_Hash\<close>, \<open>Tun_Checksum\<close>, \<open>Udp_Flow\<close>, \<open>Tun_Inbound\<close>, \<open>Tun_Properties\<close>, \<open>Flow_Start\<close> (\<open>tun_nat.*\<close>,
      \<open>tun_checksum.cpp\<close>, \<open>tun_inbound.*\<close>): the port table with its invariant and a least-recently-used
      cache as its specification; checksums; the coroutines of a UDP flow under every interleaving;
      the translation of packets in both directions; a datagram from the adapter to the socket that is
      connected for it, and the replies back.
    \<^item> \<open>Wintun\<close>, \<open>Tun_Route\<close>, \<open>Tun_Start\<close>, \<open>Tun_Lifecycle\<close>, \<open>Tun_Packets\<close> (\<open>tun_wintun.*\<close>,
      \<open>tun_route.*\<close>, the rest of \<open>tun_inbound.cpp\<close>): adapter, session, address, route and acceptor are
      given back whatever step of the start fails; the packet thread handles every packet once and
      releases every buffer.
    \<^item> \<open>Shutdown\<close>, \<open>Windows_Proxy\<close>, \<open>Startup\<close> (\<open>core/shutdown.*\<close>, \<open>platform/\<close>, \<open>main.cpp\<close>): callbacks run
      once; the proxy setting is made only by a start that succeeds, is read back from the bytes written to the
      registry as it was meant, and is undone by the stop; the program owns and stops the inbounds it has started as long as their tags differ.

  \<^bold>\<open>Parameters.\<close> Code that is not in the repository is an argument of the definitions: Asio's address texts
  (\<open>asio_ip\<close>, with the hypotheses \<open>asio_text\<close>, \<open>asio_chars\<close> and \<open>asio_reads\<close>), sockets and connections
  (\<open>net\<close>, \<open>tcp_socket\<close>, \<open>raw_stream\<close>, \<open>socket_calls\<close>, \<open>dialer\<close>, \<open>listener_calls\<close>, \<open>acceptor_calls\<close>), the
  race of two coroutines (\<open>race\<close>), OpenSSL (\<open>crypto\<close>), Windows (\<open>windows\<close>, \<open>registry\<close>), \<open>wintun.dll\<close>
  (\<open>wintun_dll\<close>, \<open>packet_calls\<close>), the file system and the JSON parser (\<open>platform\<close>). What a property needs
  of them is a named predicate, such as \<open>socket_laws\<close>, \<open>dns_stream\<close>, \<open>driver_laws\<close> or \<open>crypto_laws\<close>, over
  a view of the state; the witness of the property gives an instance in memory that satisfies it.

  \<^bold>\<open>What the model shows about the code.\<close> Some theorems state a defect exactly: the search for a free port
  never returns when all are taken (\<open>Tun_Nat\<close>), a header length below 20 makes the checksum read outside
  the packet (\<open>Tun_Properties\<close>), a VLESS response header that arrives in two pieces ends the
  session and bytes for a server that is gone are dropped without an error (\<open>Vless_Relays\<close>), the end of the client's bytes cuts off an answer that is still on its way
  (\<open>Session_Relays\<close>), a repeated inbound tag destroys a running inbound (\<open>Startup\<close>), and a late failure of
  the TUN start leaves the default route in place (\<open>Tun_Lifecycle\<close>).

  \<^bold>\<open>Not modelled.\<close> \<open>inbound/wintun.h\<close>, declarations of a library; \<open>core/net.hpp\<close>, type aliases; the members
  that only return or store a value, and the declarations in headers of what their source files define; the variants for other systems than Windows of \<open>bind_socket_to_interface\<close> and of the
  certificate store. Destructors and object lifetimes are modelled where they act on the machine
  (\<open>Tun_Start\<close>, \<open>Startup\<close>); a coroutine of an inbound is assumed to end before its object does.
\<close>

end
